(* ===== verification/Tx_Prelude.thy ===== *)
theory Tx_Prelude
  imports Main "HOL-Library.Word" "HOL-Library.Monad_Syntax"
begin

text \<open>
  Shared vocabulary of the development: the machine integer types of the Rust sources,
  checked \<open>usize\<close> arithmetic, the result of fallible code, and the generic lemmas on
  lists and modular arithmetic that the component theories use.

  Rust's \<open>u8\<close>, \<open>u16\<close>, \<open>u32\<close> and \<open>u64\<close> are words of that width. \<open>usize\<close> is 64 bits on
  both supported targets; quantities that only index memory are natural numbers and every
  place where the source checks or may exceed the 64-bit range says so explicitly.
  A panic (\<open>expect\<close>, \<open>assert!\<close>, an index out of range) of an operation that can panic is
  the value \<^term>\<open>None\<close> of an option; a theorem that an operation does not panic is
  a theorem that its result is \<^term>\<open>Some\<close>.
\<close>

unbundle bit_operations_syntax

section \<open>Machine integers\<close>

type_synonym u8 = "8 word"
type_synonym u16 = "16 word"
type_synonym u32 = "32 word"
type_synonym u64 = "64 word"

definition usize_max :: nat where
  "usize_max = 2 ^ 64 - 1"

definition checked_add :: "nat \<Rightarrow> nat \<Rightarrow> nat option" where
  "checked_add a b = (if a + b \<le> usize_max then Some (a + b) else None)"

definition checked_mul :: "nat \<Rightarrow> nat \<Rightarrow> nat option" where
  "checked_mul a b = (if a * b \<le> usize_max then Some (a * b) else None)"

definition checked_sub :: "nat \<Rightarrow> nat \<Rightarrow> nat option" where
  "checked_sub a b = (if b \<le> a then Some (a - b) else None)"

text \<open>\<open>flag_set w m\<close> is the source's test \<open>w & m != 0\<close>.\<close>

definition flag_set :: "'w::len word \<Rightarrow> 'w word \<Rightarrow> bool" where
  "flag_set w m \<longleftrightarrow> w AND m \<noteq> 0"

section \<open>Panicking code\<close>

text \<open>\<open>assert_that c\<close> is \<open>assert!(c)\<close>: it continues, or panics.\<close>

definition assert_that :: "bool \<Rightarrow> unit option" where
  "assert_that c = (if c then Some () else None)"

lemma assert_that_simps [simp]:
  "assert_that True = Some ()"
  "assert_that False = None"
  "assert_that c = Some u \<longleftrightarrow> c"
  "assert_that c = None \<longleftrightarrow> \<not> c"
  by (simp_all add: assert_that_def)

text \<open>Slice indexing: \<open>xs[i]\<close> panics out of range.\<close>

definition idx :: "'a list \<Rightarrow> nat \<Rightarrow> 'a option" where
  "idx xs i = (if i < length xs then Some (xs ! i) else None)"

lemma idx_in_range [simp]: "i < length xs \<Longrightarrow> idx xs i = Some (xs ! i)"
  by (simp add: idx_def)

lemma idx_eq_Some_iff: "idx xs i = Some x \<longleftrightarrow> i < length xs \<and> xs ! i = x"
  by (auto simp: idx_def)

lemma idx_eq_None_iff: "idx xs i = None \<longleftrightarrow> length xs \<le> i"
  by (simp add: idx_def)

section \<open>Modular cursors\<close>

text \<open>Two offsets below the modulus that land on the same cell of a ring are equal.\<close>

lemma mod_offset_inj:
  fixes h i j n :: nat
  assumes "i < n" "j < n" "(h + i) mod n = (h + j) mod n"
  shows "i = j"
  using assms
proof (induction i j rule: linorder_wlog)
  case (le i j)
  then have "n dvd (h + j) - (h + i)"
    using mod_eq_dvd_iff_nat [of "h + i" "h + j" n] by simp
  then have "n dvd j - i" by simp
  moreover have "j - i < n" using le by simp
  ultimately have "j - i = 0" using nat_dvd_not_less by blast
  then show ?case using le by simp
next
  case (sym i j)
  then show ?case by metis
qed

lemma mod_pred_succ:
  fixes h n :: nat
  assumes "h < n"
  shows "((h + n - 1) mod n + 1) mod n = h"
proof -
  have "((h + n - 1) mod n + 1) mod n = (h + n - 1 + 1) mod n"
    by (rule mod_add_left_eq)
  also have "\<dots> = h" using assms by simp
  finally show ?thesis .
qed

section \<open>Counters\<close>

lemma unat_of_nat_u32: "n < 2 ^ 32 \<Longrightarrow> unat (of_nat n :: u32) = n"
  by (simp add: unsigned_of_nat take_bit_nat_eq_self)

lemma of_nat_u32_0_iff: "n < 2 ^ 32 \<Longrightarrow> (of_nat n :: u32) = 0 \<longleftrightarrow> n = 0"
  by (metis unat_of_nat_u32 unat_0 semiring_1_class.of_nat_0)

lemma word_less_succ:
  fixes x y :: "'a::len word"
  assumes "x \<noteq> - 1"
  shows "y < x + 1 \<longleftrightarrow> y \<le> x"
proof -
  have "x + 1 \<noteq> 0" using assms by (simp add: eq_neg_iff_add_eq_0)
  then have "unat (x + 1) = unat x + 1" by (metis Suc_eq_plus1 add.commute unatSuc)
  then show ?thesis by (simp add: word_less_nat_alt word_le_nat_alt less_Suc_eq_le)
qed

lemma of_nat_u64_le_iff:
  assumes "m < 2 ^ 64" "n < 2 ^ 64"
  shows "(of_nat m :: u64) \<le> of_nat n \<longleftrightarrow> m \<le> n"
  using assms by (simp add: word_le_nat_alt unsigned_of_nat take_bit_nat_eq_self)

end
