(* ===== verification/Tty_Ring.thy ===== *)
theory Tty_Ring
  imports Tx_Prelude
begin

text \<open>
  The fixed-capacity byte ring of the TTY queues, \<open>TtyRing<N>\<close> of
  \<open>tty/structure/ring.rs\<close>. The const generic \<open>N\<close> is the length of the inline buffer.
  Every operation is a function from the ring to the ring; \<open>ring_contents\<close> reads the bytes
  in the order in which \<open>pop\<close> returns them and \<open>ring_wf\<close> is the invariant of the
  private cursor fields. The interface the line discipline relies on is the locale
  \<open>byte_fifo\<close>; the loops over it are covered by \<open>byte_fifo_bulk\<close>.
\<close>

section \<open>The ring\<close>

datatype ring_full = RingFull

record tty_ring =
  r_buf :: "u8 list"
  r_head :: nat
  r_tail :: nat
  r_len :: nat

abbreviation ring_n :: "tty_ring \<Rightarrow> nat" where
  "ring_n r \<equiv> length (r_buf r)"

definition ring_new :: "nat \<Rightarrow> tty_ring" where
  "ring_new n = \<lparr>r_buf = replicate n 0, r_head = 0, r_tail = 0, r_len = 0\<rparr>"

definition ring_push :: "tty_ring \<Rightarrow> u8 \<Rightarrow> (ring_full + unit) \<times> tty_ring" where
  "ring_push r b =
     (if r_len r = ring_n r then (Inl RingFull, r)
      else (Inr (), r\<lparr>r_buf := (r_buf r)[r_tail r := b],
                      r_tail := (r_tail r + 1) mod ring_n r,
                      r_len := r_len r + 1\<rparr>))"

definition ring_push_front :: "tty_ring \<Rightarrow> u8 \<Rightarrow> (ring_full + unit) \<times> tty_ring" where
  "ring_push_front r b =
     (if r_len r = ring_n r then (Inl RingFull, r)
      else let h = (r_head r + ring_n r - 1) mod ring_n r
           in (Inr (), r\<lparr>r_buf := (r_buf r)[h := b], r_head := h, r_len := r_len r + 1\<rparr>))"

definition ring_pop :: "tty_ring \<Rightarrow> u8 option \<times> tty_ring" where
  "ring_pop r =
     (if r_len r = 0 then (None, r)
      else (Some (r_buf r ! r_head r),
            r\<lparr>r_head := (r_head r + 1) mod ring_n r, r_len := r_len r - 1\<rparr>))"

definition ring_front :: "tty_ring \<Rightarrow> u8 option" where
  "ring_front r = (if r_len r = 0 then None else Some (r_buf r ! r_head r))"

definition ring_pop_back :: "tty_ring \<Rightarrow> u8 option \<times> tty_ring" where
  "ring_pop_back r =
     (if r_len r = 0 then (None, r)
      else let t = (r_tail r + ring_n r - 1) mod ring_n r
           in (Some (r_buf r ! t), r\<lparr>r_tail := t, r_len := r_len r - 1\<rparr>))"

fun ring_extend_from_slice :: "tty_ring \<Rightarrow> u8 list \<Rightarrow> nat \<times> tty_ring" where
  "ring_extend_from_slice r [] = (0, r)"
| "ring_extend_from_slice r (b # bs) =
     (case ring_push r b of
        (Inl _, r') \<Rightarrow> (0, r')
      | (Inr _, r') \<Rightarrow> (case ring_extend_from_slice r' bs of (c, r'') \<Rightarrow> (Suc c, r'')))"

definition ring_space :: "tty_ring \<Rightarrow> nat" where
  "ring_space r = ring_n r - r_len r"

definition ring_is_empty :: "tty_ring \<Rightarrow> bool" where
  "ring_is_empty r \<longleftrightarrow> r_len r = 0"

definition ring_is_full :: "tty_ring \<Rightarrow> bool" where
  "ring_is_full r \<longleftrightarrow> r_len r = ring_n r"

definition ring_clear :: "tty_ring \<Rightarrow> tty_ring" where
  "ring_clear r = r\<lparr>r_head := 0, r_tail := 0, r_len := 0\<rparr>"

text \<open>
  The loop of \<open>drain_into\<close> stops when the destination is full or the source is empty.
\<close>

function ring_drain_into :: "tty_ring \<Rightarrow> tty_ring \<Rightarrow> nat \<times> tty_ring \<times> tty_ring" where
  "ring_drain_into r out =
     (if ring_is_full out \<or> ring_is_empty r then (0, r, out)
      else case ring_pop r of
             (None, r') \<Rightarrow> (0, r', out)
           | (Some b, r') \<Rightarrow>
               (case ring_drain_into r' (snd (ring_push out b)) of
                  (c, r'', out') \<Rightarrow> (Suc c, r'', out')))"
  by pat_completeness auto
termination
  by (relation "measure (\<lambda>(r, out). r_len r)")
    (auto simp: ring_pop_def ring_is_empty_def split: if_splits)

declare ring_drain_into.simps [simp del]

text \<open>
  \<open>drain_to_slice\<close> overwrites a prefix of the slice: the result is the number of bytes
  copied, the ring, and the slice after the call.
\<close>

fun ring_drain_to_slice :: "tty_ring \<Rightarrow> u8 list \<Rightarrow> nat \<times> tty_ring \<times> u8 list" where
  "ring_drain_to_slice r [] = (0, r, [])"
| "ring_drain_to_slice r (s # ss) =
     (case ring_pop r of
        (None, r') \<Rightarrow> (0, r', s # ss)
      | (Some b, r') \<Rightarrow>
          (case ring_drain_to_slice r' ss of (c, r'', ss') \<Rightarrow> (Suc c, r'', b # ss')))"

section \<open>Contents and invariant\<close>

definition ring_contents :: "tty_ring \<Rightarrow> u8 list" where
  "ring_contents r = map (\<lambda>i. r_buf r ! ((r_head r + i) mod ring_n r)) [0..<r_len r]"

definition ring_wf :: "tty_ring \<Rightarrow> bool" where
  "ring_wf r \<longleftrightarrow> r_len r \<le> ring_n r \<and> (r_head r < ring_n r \<or> r_head r = 0)
     \<and> r_tail r = (r_head r + r_len r) mod ring_n r"

lemma length_ring_contents [simp]: "length (ring_contents r) = r_len r"
  by (simp add: ring_contents_def)

lemma ring_contents_eq_Nil_iff: "ring_contents r = [] \<longleftrightarrow> r_len r = 0"
  by (simp add: ring_contents_def)

lemma ring_contents_nth:
  "i < r_len r \<Longrightarrow> ring_contents r ! i = r_buf r ! ((r_head r + i) mod ring_n r)"
  by (simp add: ring_contents_def)

lemma ring_wf_new [simp]: "ring_wf (ring_new n)"
  by (simp add: ring_wf_def ring_new_def)

lemma ring_new_simps [simp]:
  "ring_n (ring_new n) = n" "r_len (ring_new n) = 0" "ring_contents (ring_new n) = []"
  by (simp_all add: ring_new_def ring_contents_def)

lemma ring_wf_le: "ring_wf r \<Longrightarrow> r_len r \<le> ring_n r"
  by (simp add: ring_wf_def)

text \<open>
  Every array access of an operation on a well-formed ring is in range: the written cell of
  \<open>push\<close> and \<open>push_front\<close>, the read cell of \<open>pop\<close>, \<open>front\<close> and \<open>pop_back\<close>.
\<close>

lemma ring_tail_in_range: "ring_wf r \<Longrightarrow> r_len r \<noteq> ring_n r \<Longrightarrow> r_tail r < ring_n r"
  unfolding ring_wf_def by (metis le_neq_implies_less less_nat_zero_code mod_less_divisor neq0_conv)

lemma ring_head_in_range: "ring_wf r \<Longrightarrow> r_len r \<noteq> 0 \<Longrightarrow> r_head r < ring_n r"
  by (auto simp: ring_wf_def)

section \<open>Each operation against the contents\<close>

lemma ring_push_full: "r_len r = ring_n r \<Longrightarrow> ring_push r b = (Inl RingFull, r)"
  by (simp add: ring_push_def)

lemma ring_push_room:
  assumes "ring_wf r" "r_len r < ring_n r"
  shows "fst (ring_push r b) = Inr ()"
    and "ring_contents (snd (ring_push r b)) = ring_contents r @ [b]"
    and "ring_wf (snd (ring_push r b))"
    and "ring_n (snd (ring_push r b)) = ring_n r"
proof -
  let ?r = "snd (ring_push r b)"
  have ne: "r_len r \<noteq> ring_n r" using assms by simp
  show "fst (ring_push r b) = Inr ()" using ne by (simp add: ring_push_def)
  show "ring_n ?r = ring_n r" by (simp add: ring_push_def)
  have t: "r_tail r = (r_head r + r_len r) mod ring_n r" using assms by (simp add: ring_wf_def)
  show "ring_wf ?r"
    using assms ne t by (simp add: ring_wf_def ring_push_def mod_Suc_eq)
  show "ring_contents ?r = ring_contents r @ [b]"
  proof (rule nth_equalityI)
    show "length (ring_contents ?r) = length (ring_contents r @ [b])"
      using ne by (simp add: ring_push_def)
  next
    fix i assume i: "i < length (ring_contents ?r)"
    then have i': "i < Suc (r_len r)" using ne by (simp add: ring_push_def)
    have eq: "(r_head r + i) mod ring_n r = r_tail r \<longleftrightarrow> i = r_len r"
      unfolding t using mod_offset_inj [of i "ring_n r" "r_len r" "r_head r"] i' assms(2)
      by (metis less_Suc_eq_le order_le_less_trans)
    have tl: "r_tail r < ring_n r" using ring_tail_in_range [OF assms(1) ne] .
    have "ring_contents ?r ! i = (r_buf r)[r_tail r := b] ! ((r_head r + i) mod ring_n r)"
      using i ne by (simp add: ring_contents_nth ring_push_def)
    also have "\<dots> = (ring_contents r @ [b]) ! i"
      using i' eq tl by (cases "i = r_len r") (simp_all add: nth_append ring_contents_nth)
    finally show "ring_contents ?r ! i = (ring_contents r @ [b]) ! i" .
  qed
qed

lemma ring_pop_empty: "r_len r = 0 \<Longrightarrow> ring_pop r = (None, r)"
  by (simp add: ring_pop_def)

lemma ring_pop_cons:
  assumes "ring_wf r" "ring_contents r = b # bs"
  shows "fst (ring_pop r) = Some b"
    and "ring_contents (snd (ring_pop r)) = bs"
    and "ring_wf (snd (ring_pop r))"
    and "ring_n (snd (ring_pop r)) = ring_n r"
proof -
  let ?r = "snd (ring_pop r)"
  have ne: "r_len r \<noteq> 0" using assms(2) by (metis list.distinct(1) ring_contents_eq_Nil_iff)
  then have h: "r_head r < ring_n r" using ring_head_in_range assms(1) by blast
  have len: "length bs = r_len r - 1" using assms(2) length_ring_contents [of r] by simp
  have "b = ring_contents r ! 0" using assms(2) by simp
  then show "fst (ring_pop r) = Some b" using ne h by (simp add: ring_pop_def ring_contents_nth)
  show "ring_n ?r = ring_n r" by (simp add: ring_pop_def)
  show "ring_wf ?r"
  proof -
    have "(Suc (r_head r) mod ring_n r + (r_len r - 1)) mod ring_n r
        = (Suc (r_head r) + (r_len r - 1)) mod ring_n r"
      by (rule mod_add_left_eq)
    also have "Suc (r_head r) + (r_len r - 1) = r_head r + r_len r" using ne by simp
    finally have t: "(Suc (r_head r) mod ring_n r + (r_len r - 1)) mod ring_n r
        = (r_head r + r_len r) mod ring_n r" .
    have "Suc (r_head r) mod ring_n r < ring_n r"
      by (rule mod_less_divisor) (rule le_less_trans [OF le0 h])
    then show ?thesis
      using assms(1) ne h t by (simp add: ring_wf_def ring_pop_def) linarith
  qed
  show "ring_contents ?r = bs"
  proof (rule nth_equalityI)
    show "length (ring_contents ?r) = length bs" using ne len by (simp add: ring_pop_def)
  next
    fix i assume "i < length (ring_contents ?r)"
    then have i: "i < r_len r - 1" using ne by (simp add: ring_pop_def)
    then have "bs ! i = ring_contents r ! Suc i" using assms(2) by simp
    then show "ring_contents ?r ! i = bs ! i"
      using i ne by (simp add: ring_contents_nth ring_pop_def mod_add_left_eq)
  qed
qed

lemma ring_push_front_full: "r_len r = ring_n r \<Longrightarrow> ring_push_front r b = (Inl RingFull, r)"
  by (simp add: ring_push_front_def)

lemma ring_push_front_room:
  assumes "ring_wf r" "r_len r < ring_n r"
  shows "fst (ring_push_front r b) = Inr ()"
    and "ring_contents (snd (ring_push_front r b)) = b # ring_contents r"
    and "ring_wf (snd (ring_push_front r b))"
    and "ring_n (snd (ring_push_front r b)) = ring_n r"
proof -
  let ?n = "ring_n r" and ?r = "snd (ring_push_front r b)"
  define h where "h = (r_head r + ?n - 1) mod ?n"
  have ne: "r_len r \<noteq> ?n" and n: "0 < ?n" using assms(2) by auto
  have hr: "r_head r < ?n" using assms by (auto simp: ring_wf_def)
  have h: "h < ?n" unfolding h_def using n by simp
  have hs: "(h + 1) mod ?n = r_head r" unfolding h_def by (rule mod_pred_succ [OF hr])
  have step: "(h + Suc i) mod ?n = (r_head r + i) mod ?n" for i
  proof -
    have "(h + Suc i) mod ?n = ((h + 1) mod ?n + i) mod ?n"
      by (metis Suc_eq_plus1 add.assoc add.commute mod_add_left_eq)
    then show ?thesis unfolding hs .
  qed
  have r: "?r = r\<lparr>r_buf := (r_buf r)[h := b], r_head := h, r_len := r_len r + 1\<rparr>"
    using ne by (simp add: ring_push_front_def h_def Let_def)
  show "fst (ring_push_front r b) = Inr ()" using ne by (simp add: ring_push_front_def Let_def)
  show "ring_n ?r = ?n" by (simp add: r)
  show "ring_wf ?r"
    using assms h step [of "r_len r"] by (simp add: r ring_wf_def)
  show "ring_contents ?r = b # ring_contents r"
  proof (rule nth_equalityI)
    show "length (ring_contents ?r) = length (b # ring_contents r)" by (simp add: r)
  next
    fix i assume "i < length (ring_contents ?r)"
    then have i: "i < Suc (r_len r)" by (simp add: r)
    have eq: "i = 0" if "(h + i) mod ?n = h"
    proof (rule mod_offset_inj)
      show "(h + i) mod ?n = (h + 0) mod ?n" using that h by simp
    qed (use i assms(2) n in simp_all)
    have "ring_contents ?r ! i = (r_buf r)[h := b] ! ((h + i) mod ?n)"
      using i by (simp add: ring_contents_nth r)
    also have "\<dots> = (b # ring_contents r) ! i"
    proof (cases i)
      case 0
      then show ?thesis using h by simp
    next
      case (Suc j)
      then have "(h + i) mod ?n \<noteq> h" using eq by blast
      then have "(r_buf r)[h := b] ! ((h + i) mod ?n) = r_buf r ! ((h + i) mod ?n)" by simp
      then show ?thesis using Suc i step [of j] by (simp add: ring_contents_nth)
    qed
    finally show "ring_contents ?r ! i = (b # ring_contents r) ! i" .
  qed
qed

lemma ring_pop_back_empty: "r_len r = 0 \<Longrightarrow> ring_pop_back r = (None, r)"
  by (simp add: ring_pop_back_def)

lemma ring_pop_back_snoc:
  assumes "ring_wf r" "ring_contents r = bs @ [b]"
  shows "fst (ring_pop_back r) = Some b"
    and "ring_contents (snd (ring_pop_back r)) = bs"
    and "ring_wf (snd (ring_pop_back r))"
    and "ring_n (snd (ring_pop_back r)) = ring_n r"
proof -
  let ?n = "ring_n r" and ?r = "snd (ring_pop_back r)"
  define t where "t = (r_tail r + ?n - 1) mod ?n"
  have ne: "r_len r \<noteq> 0" using assms(2) by (metis append_is_Nil_conv not_Cons_self2 ring_contents_eq_Nil_iff)
  have h: "r_head r < ?n" using ring_head_in_range [OF assms(1) ne] .
  have len: "length bs = r_len r - 1" using assms(2) length_ring_contents [of r] by simp
  have tm: "r_tail r = (r_head r + r_len r) mod ?n" using assms(1) by (simp add: ring_wf_def)
  have t: "t = (r_head r + (r_len r - 1)) mod ?n"
  proof -
    have "t = (r_tail r + (?n - 1)) mod ?n" using h by (simp add: t_def)
    also have "\<dots> = (r_head r + r_len r + (?n - 1)) mod ?n"
      unfolding tm by (rule mod_add_left_eq)
    also have "r_head r + r_len r + (?n - 1) = r_head r + (r_len r - 1) + ?n" using ne h by simp
    finally show ?thesis by simp
  qed
  have r: "?r = r\<lparr>r_tail := t, r_len := r_len r - 1\<rparr>"
    using ne by (simp add: ring_pop_back_def t_def Let_def)
  have "b = ring_contents r ! (r_len r - 1)"
    unfolding assms(2) len [symmetric] by (rule nth_append_length [symmetric])
  then show "fst (ring_pop_back r) = Some b"
    using ne t by (simp add: ring_pop_back_def ring_contents_nth Let_def t_def)
  show "ring_n ?r = ?n" by (simp add: r)
  show "ring_wf ?r" using assms(1) t ne by (simp add: r ring_wf_def) linarith
  show "ring_contents ?r = bs"
  proof (rule nth_equalityI)
    show "length (ring_contents ?r) = length bs" using len by (simp add: r)
  next
    fix i assume "i < length (ring_contents ?r)"
    then have i: "i < r_len r - 1" by (simp add: r)
    then have "bs ! i = ring_contents r ! i" using assms(2) len by (simp add: nth_append)
    then show "ring_contents ?r ! i = bs ! i"
      using i by (simp add: ring_contents_nth r)
  qed
qed

lemma ring_clear_simps [simp]:
  "ring_contents (ring_clear r) = []" "ring_wf (ring_clear r)" "ring_n (ring_clear r) = ring_n r"
  by (simp_all add: ring_clear_def ring_contents_def ring_wf_def)

lemma ring_front_contents:
  "ring_wf r \<Longrightarrow> ring_front r = (case ring_contents r of [] \<Rightarrow> None | b # _ \<Rightarrow> Some b)"
proof (cases "ring_contents r")
  case Nil
  then show ?thesis using ring_contents_eq_Nil_iff [of r] by (simp add: ring_front_def)
next
  case (Cons b bs)
  moreover assume "ring_wf r"
  ultimately show ?thesis
    using ring_pop_cons(1) [of r b bs] by (auto simp: ring_front_def ring_pop_def split: if_splits)
qed

lemma ring_space_contents: "ring_space r = ring_n r - length (ring_contents r)"
  by (simp add: ring_space_def)

lemma ring_is_full_contents: "ring_is_full r \<longleftrightarrow> length (ring_contents r) = ring_n r"
  by (simp add: ring_is_full_def)

lemma ring_is_empty_contents: "ring_is_empty r \<longleftrightarrow> ring_contents r = []"
  by (simp add: ring_is_empty_def ring_contents_eq_Nil_iff)

section \<open>The interface of a bounded byte FIFO\<close>

locale byte_fifo =
  fixes cap :: "'q \<Rightarrow> nat"
    and contents :: "'q \<Rightarrow> u8 list"
    and invar :: "'q \<Rightarrow> bool"
    and push :: "'q \<Rightarrow> u8 \<Rightarrow> (ring_full + unit) \<times> 'q"
    and pop :: "'q \<Rightarrow> u8 option \<times> 'q"
  assumes bounded: "invar q \<Longrightarrow> length (contents q) \<le> cap q"
    and push_full: "invar q \<Longrightarrow> length (contents q) = cap q \<Longrightarrow> push q b = (Inl RingFull, q)"
    and push_room: "invar q \<Longrightarrow> length (contents q) < cap q \<Longrightarrow>
      \<exists>q'. push q b = (Inr (), q') \<and> invar q' \<and> cap q' = cap q \<and> contents q' = contents q @ [b]"
    and pop_empty: "invar q \<Longrightarrow> contents q = [] \<Longrightarrow> pop q = (None, q)"
    and pop_cons: "invar q \<Longrightarrow> contents q = b # bs \<Longrightarrow>
      \<exists>q'. pop q = (Some b, q') \<and> invar q' \<and> cap q' = cap q \<and> contents q' = bs"
begin

lemma push_spec:
  assumes "invar q"
  shows "invar (snd (push q b)) \<and> cap (snd (push q b)) = cap q
    \<and> contents (snd (push q b)) = take (cap q) (contents q @ [b])
    \<and> fst (push q b) = (if length (contents q) = cap q then Inl RingFull else Inr ())"
  using bounded [OF assms] push_full [OF assms] push_room [OF assms, of b] assms
  by (cases "length (contents q) = cap q") auto

end

text \<open>
  Code that only loops over \<open>push\<close> and \<open>pop\<close>: appending a slice, and moving bytes from one
  queue to another. The equations are those of the loops.
\<close>

locale byte_fifo_bulk = byte_fifo +
  fixes extend :: "'a \<Rightarrow> u8 list \<Rightarrow> nat \<times> 'a"
    and drain :: "'a \<Rightarrow> 'a \<Rightarrow> nat \<times> 'a \<times> 'a"
  assumes extend_Nil: "extend q [] = (0, q)"
    and extend_Cons: "extend q (b # bs) =
      (case push q b of (Inl _, q') \<Rightarrow> (0, q')
       | (Inr _, q') \<Rightarrow> (case extend q' bs of (c, q'') \<Rightarrow> (Suc c, q'')))"
    and drain_unfold: "drain q out =
      (if length (contents out) = cap out \<or> contents q = [] then (0, q, out)
       else case pop q of (None, q') \<Rightarrow> (0, q', out)
            | (Some b, q') \<Rightarrow> (case drain q' (snd (push out b)) of
                 (c, q'', out') \<Rightarrow> (Suc c, q'', out')))"
begin

lemma extend_spec:
  fixes bs :: "u8 list"
  assumes "invar q"
  defines "n \<equiv> min (length bs) (cap q - length (contents q))"
  shows "\<exists>q'. extend q bs = (n, q') \<and> invar q' \<and> cap q' = cap q
    \<and> contents q' = contents q @ take n bs"
  using assms(1) unfolding n_def
proof (induction bs arbitrary: q)
  case Nil
  then show ?case by (simp add: extend_Nil)
next
  case (Cons b bs)
  show ?case
  proof (cases "length (contents q) = cap q")
    case True
    then show ?thesis using Cons.prems push_full by (simp add: extend_Cons)
  next
    case False
    then have lt: "length (contents q) < cap q" using bounded [OF Cons.prems] by simp
    obtain q' where q': "push q b = (Inr (), q')" "invar q'" "cap q' = cap q"
        "contents q' = contents q @ [b]"
      using push_room [OF Cons.prems lt] by blast
    obtain q'' where "extend q' bs = (min (length bs) (cap q' - length (contents q')), q'')"
        "invar q''" "cap q'' = cap q'"
        "contents q'' = contents q' @ take (min (length bs) (cap q' - length (contents q'))) bs"
      using Cons.IH [OF q'(2)] by blast
    moreover obtain k where "cap q - length (contents q) = Suc k"
        "cap q' - length (contents q') = k"
      using q' lt by (cases "cap q - length (contents q)") auto
    ultimately show ?thesis using q' by (simp add: extend_Cons)
  qed
qed

lemma drain_spec:
  assumes "invar q" "invar out"
  defines "n \<equiv> min (length (contents q)) (cap out - length (contents out))"
  shows "\<exists>q' out'. drain q out = (n, q', out') \<and> invar q' \<and> invar out'
    \<and> cap q' = cap q \<and> cap out' = cap out
    \<and> contents q' = drop n (contents q) \<and> contents out' = contents out @ take n (contents q)"
  using assms(1,2) unfolding n_def
proof (induction "contents q" arbitrary: q out)
  case Nil
  then show ?case by (subst drain_unfold) simp
next
  case (Cons b bs)
  show ?case
  proof (cases "length (contents out) = cap out")
    case True
    then show ?thesis using Cons by (subst drain_unfold) simp
  next
    case False
    then have lt: "length (contents out) < cap out" using bounded [OF Cons.prems(2)] by simp
    obtain q' where q': "pop q = (Some b, q')" "invar q'" "cap q' = cap q" "contents q' = bs"
      using pop_cons [OF Cons.prems(1) Cons.hyps(2) [symmetric]] by blast
    obtain o' where o': "push out b = (Inr (), o')" "invar o'" "cap o' = cap out"
        "contents o' = contents out @ [b]"
      using push_room [OF Cons.prems(2) lt] by blast
    have "drain q out = (case drain q' o' of (c, q'', out') \<Rightarrow> (Suc c, q'', out'))"
      using False Cons.hyps(2) q'(1) o'(1)
      by (subst drain_unfold) (simp del: drain_unfold flip: Cons.hyps(2))
    moreover note Cons.hyps(1) [OF q'(4) [symmetric] q'(2) o'(2)]
    moreover obtain k where "cap out - length (contents out) = Suc k"
        "cap o' - length (contents o') = k"
      using o' lt by (cases "cap out - length (contents out)") auto
    ultimately show ?thesis
      using q' o' by (auto simp flip: Cons.hyps(2))
  qed
qed

end

interpretation ring_fifo: byte_fifo ring_n ring_contents ring_wf ring_push ring_pop
proof unfold_locales
  show "ring_wf q \<Longrightarrow> length (ring_contents q) \<le> ring_n q" for q
    by (simp add: ring_wf_le)
  show "ring_wf q \<Longrightarrow> length (ring_contents q) = ring_n q \<Longrightarrow> ring_push q b = (Inl RingFull, q)"
    for q b by (simp add: ring_push_full)
  show "ring_wf q \<Longrightarrow> length (ring_contents q) < ring_n q \<Longrightarrow>
      \<exists>q'. ring_push q b = (Inr (), q') \<and> ring_wf q' \<and> ring_n q' = ring_n q
        \<and> ring_contents q' = ring_contents q @ [b]" for q b
    using ring_push_room [of q b] by (cases "ring_push q b") auto
  show "ring_wf q \<Longrightarrow> ring_contents q = [] \<Longrightarrow> ring_pop q = (None, q)" for q
    by (simp add: ring_pop_empty ring_contents_eq_Nil_iff)
  show "ring_wf q \<Longrightarrow> ring_contents q = b # bs \<Longrightarrow>
      \<exists>q'. ring_pop q = (Some b, q') \<and> ring_wf q' \<and> ring_n q' = ring_n q
        \<and> ring_contents q' = bs" for q b bs
    using ring_pop_cons [of q b bs] by (cases "ring_pop q") auto
qed

interpretation ring_bulk: byte_fifo_bulk ring_n ring_contents ring_wf ring_push ring_pop
  ring_extend_from_slice ring_drain_into
proof unfold_locales
  show "ring_drain_into q out =
      (if length (ring_contents out) = ring_n out \<or> ring_contents q = [] then (0, q, out)
       else case ring_pop q of (None, q') \<Rightarrow> (0, q', out)
            | (Some b, q') \<Rightarrow> (case ring_drain_into q' (snd (ring_push out b)) of
                 (c, q'', out') \<Rightarrow> (Suc c, q'', out')))" for q out
    by (subst ring_drain_into.simps) (simp add: ring_is_full_contents ring_is_empty_contents)
qed simp_all

section \<open>Rewrite rules for clients\<close>

named_theorems ring_simps \<open>effect of a ring operation on contents, invariant and capacity\<close>

lemma ring_push_simps [ring_simps]:
  assumes "ring_wf r"
  shows "ring_contents (snd (ring_push r b)) = take (ring_n r) (ring_contents r @ [b])"
    and "ring_wf (snd (ring_push r b))"
    and "ring_n (snd (ring_push r b)) = ring_n r"
    and "fst (ring_push r b) = (if r_len r = ring_n r then Inl RingFull else Inr ())"
  using ring_fifo.push_spec [OF assms, of b] by simp_all

lemma ring_drain_into_simps [ring_simps]:
  assumes "ring_wf r" "ring_wf out"
  defines "n \<equiv> min (r_len r) (ring_n out - r_len out)"
  shows "fst (ring_drain_into r out) = n"
    and "ring_wf (fst (snd (ring_drain_into r out)))"
    and "ring_wf (snd (snd (ring_drain_into r out)))"
    and "ring_n (fst (snd (ring_drain_into r out))) = ring_n r"
    and "ring_n (snd (snd (ring_drain_into r out))) = ring_n out"
    and "ring_contents (fst (snd (ring_drain_into r out))) = drop n (ring_contents r)"
    and "ring_contents (snd (snd (ring_drain_into r out))) = ring_contents out @ take n (ring_contents r)"
  using ring_bulk.drain_spec [OF assms(1,2)] by (auto simp: n_def)

lemma ring_extend_simps [ring_simps]:
  fixes bs :: "u8 list"
  assumes "ring_wf r"
  defines "n \<equiv> min (length bs) (ring_n r - r_len r)"
  shows "fst (ring_extend_from_slice r bs) = n"
    and "ring_wf (snd (ring_extend_from_slice r bs))"
    and "ring_n (snd (ring_extend_from_slice r bs)) = ring_n r"
    and "ring_contents (snd (ring_extend_from_slice r bs)) = ring_contents r @ take n bs"
  using ring_bulk.extend_spec [OF assms(1), of bs] by (auto simp: n_def)

lemma ring_pop_back_simps [ring_simps]:
  assumes "ring_wf r"
  shows "ring_contents (snd (ring_pop_back r)) = butlast (ring_contents r)"
    and "ring_wf (snd (ring_pop_back r))"
    and "ring_n (snd (ring_pop_back r)) = ring_n r"
    and "fst (ring_pop_back r) = (if ring_contents r = [] then None else Some (last (ring_contents r)))"
proof -
  have "ring_contents (snd (ring_pop_back r)) = butlast (ring_contents r)
    \<and> ring_wf (snd (ring_pop_back r)) \<and> ring_n (snd (ring_pop_back r)) = ring_n r
    \<and> fst (ring_pop_back r) = (if ring_contents r = [] then None else Some (last (ring_contents r)))"
  proof (cases "ring_contents r" rule: rev_cases)
    case Nil
    then have "ring_pop_back r = (None, r)"
      by (simp add: ring_pop_back_empty ring_contents_eq_Nil_iff)
    then show ?thesis using Nil assms by simp
  next
    case (snoc bs b)
    then show ?thesis using ring_pop_back_snoc [OF assms snoc] by simp
  qed
  then show "ring_contents (snd (ring_pop_back r)) = butlast (ring_contents r)"
    and "ring_wf (snd (ring_pop_back r))"
    and "ring_n (snd (ring_pop_back r)) = ring_n r"
    and "fst (ring_pop_back r) = (if ring_contents r = [] then None else Some (last (ring_contents r)))"
    by blast+
qed

lemma ring_len_contents: "r_len r = length (ring_contents r)"
  by simp

section \<open>Every run of the ring is a run of a bounded deque\<close>

datatype ring_op = OpPush u8 | OpPushFront u8 | OpPop | OpPopBack | OpFront | OpClear

datatype ring_res = ResPush "ring_full + unit" | ResByte "u8 option" | ResUnit

fun ring_step :: "tty_ring \<Rightarrow> ring_op \<Rightarrow> ring_res \<times> tty_ring" where
  "ring_step r (OpPush b) = map_prod ResPush id (ring_push r b)"
| "ring_step r (OpPushFront b) = map_prod ResPush id (ring_push_front r b)"
| "ring_step r OpPop = map_prod ResByte id (ring_pop r)"
| "ring_step r OpPopBack = map_prod ResByte id (ring_pop_back r)"
| "ring_step r OpFront = (ResByte (ring_front r), r)"
| "ring_step r OpClear = (ResUnit, ring_clear r)"

text \<open>The specification: a list of at most \<open>n\<close> bytes.\<close>

fun deque_step :: "nat \<Rightarrow> u8 list \<Rightarrow> ring_op \<Rightarrow> ring_res \<times> u8 list" where
  "deque_step n xs (OpPush b) =
     (if length xs = n then (ResPush (Inl RingFull), xs) else (ResPush (Inr ()), xs @ [b]))"
| "deque_step n xs (OpPushFront b) =
     (if length xs = n then (ResPush (Inl RingFull), xs) else (ResPush (Inr ()), b # xs))"
| "deque_step n xs OpPop = (case xs of [] \<Rightarrow> (ResByte None, []) | b # bs \<Rightarrow> (ResByte (Some b), bs))"
| "deque_step n xs OpPopBack =
     (if xs = [] then (ResByte None, []) else (ResByte (Some (last xs)), butlast xs))"
| "deque_step n xs OpFront = (ResByte (case xs of [] \<Rightarrow> None | b # _ \<Rightarrow> Some b), xs)"
| "deque_step n xs OpClear = (ResUnit, [])"

fun run_ops :: "('s \<Rightarrow> 'op \<Rightarrow> 'res \<times> 's) \<Rightarrow> 's \<Rightarrow> 'op list \<Rightarrow> 'res list \<times> 's" where
  "run_ops f s [] = ([], s)"
| "run_ops f s (x # xs) =
     (case f s x of (y, s') \<Rightarrow> (case run_ops f s' xs of (ys, s'') \<Rightarrow> (y # ys, s'')))"

lemma ring_step_deque:
  assumes "ring_wf r"
  shows "fst (ring_step r x) = fst (deque_step (ring_n r) (ring_contents r) x)
    \<and> ring_contents (snd (ring_step r x)) = snd (deque_step (ring_n r) (ring_contents r) x)
    \<and> ring_wf (snd (ring_step r x)) \<and> ring_n (snd (ring_step r x)) = ring_n r"
proof (cases x)
  case (OpPush b)
  then show ?thesis
    using assms ring_push_full [of r b] ring_push_room [of r b] ring_wf_le [OF assms]
    by (cases "r_len r = ring_n r") auto
next
  case (OpPushFront b)
  then show ?thesis
    using assms ring_push_front_full [of r b] ring_push_front_room [of r b] ring_wf_le [OF assms]
    by (cases "r_len r = ring_n r") auto
next
  case OpPop
  then show ?thesis
    using assms ring_fifo.pop_empty [OF assms] ring_pop_cons [OF assms]
    by (cases "ring_contents r") auto
next
  case OpPopBack
  then show ?thesis using ring_pop_back_simps [OF assms] by auto
next
  case OpFront
  then show ?thesis using assms ring_front_contents by simp
next
  case OpClear
  then show ?thesis using assms by simp
qed

lemma ring_run_deque:
  assumes "ring_wf r"
  shows "fst (run_ops ring_step r xs) = fst (run_ops (deque_step (ring_n r)) (ring_contents r) xs)
    \<and> ring_contents (snd (run_ops ring_step r xs))
        = snd (run_ops (deque_step (ring_n r)) (ring_contents r) xs)
    \<and> ring_wf (snd (run_ops ring_step r xs))"
  using assms
proof (induction xs arbitrary: r)
  case Nil
  then show ?case by simp
next
  case (Cons x xs)
  obtain y r' where r': "ring_step r x = (y, r')" by fastforce
  have step: "deque_step (ring_n r) (ring_contents r) x = (y, ring_contents r')"
      "ring_wf r'" "ring_n r' = ring_n r"
    using ring_step_deque [OF Cons.prems, of x] r' by (simp_all add: prod_eq_iff)
  then show ?case
    using Cons.IH [OF step(2)] r'
    by (simp add: case_prod_beta)
qed

text \<open>
  C35: whatever sequence of \<open>push\<close>, \<open>push_front\<close>, \<open>pop\<close>, \<open>pop_back\<close>, \<open>front\<close> and \<open>clear\<close> is
  run on a new ring of capacity \<open>n\<close>, every result it returns and the bytes it holds at the
  end are those of a deque that holds at most \<open>n\<close> bytes and refuses a byte when it is full.
\<close>

theorem tty_ring_refines_bounded_deque:
  "fst (run_ops ring_step (ring_new n) xs) = fst (run_ops (deque_step n) [] xs)
   \<and> ring_contents (snd (run_ops ring_step (ring_new n) xs)) = snd (run_ops (deque_step n) [] xs)"
  using ring_run_deque [OF ring_wf_new, of n xs] by simp

end
