(* ===== verification/Tty_Ldisc.thy ===== *)
theory Tty_Ldisc
  imports Tty_Ring
begin

text \<open>
  The N_TTY line discipline (\<open>tty/ldisc\<close>), with the termios settings it reads
  (\<open>tty/structure/termios.rs\<close>) and the window size of the terminal
  (\<open>tty/structure/winsize.rs\<close>).

  The input pipeline \<open>process_input_byte\<close> takes the discipline state, the settings, the two
  queues and one byte, and returns the effect for the caller together with the state and
  the queues after the call; the output pipeline \<open>process_output\<close> returns the number of
  consumed bytes. A result that the source discards (\<open>let _ = queue.push(b)\<close>) is discarded
  here by taking \<open>snd\<close>.
\<close>

section \<open>Termios\<close>

definition NCCS :: nat where "NCCS = 19"
definition POSIX_VDISABLE :: u8 where "POSIX_VDISABLE = 0xff"
definition MAX_CANON :: nat where "MAX_CANON = 255"

definition VINTR :: nat where "VINTR = 0"
definition VQUIT :: nat where "VQUIT = 1"
definition VERASE :: nat where "VERASE = 2"
definition VKILL :: nat where "VKILL = 3"
definition VEOF :: nat where "VEOF = 4"
definition VTIME :: nat where "VTIME = 5"
definition VMIN :: nat where "VMIN = 6"
definition VSTART :: nat where "VSTART = 8"
definition VSTOP :: nat where "VSTOP = 9"
definition VSUSP :: nat where "VSUSP = 10"
definition VEOL :: nat where "VEOL = 11"
definition VREPRINT :: nat where "VREPRINT = 12"
definition VWERASE :: nat where "VWERASE = 14"
definition VLNEXT :: nat where "VLNEXT = 15"

definition INLCR :: u32 where "INLCR = 0x0040"
definition IGNCR :: u32 where "IGNCR = 0x0080"
definition ICRNL :: u32 where "ICRNL = 0x0100"
definition IXON :: u32 where "IXON = 0x0400"
definition IXANY :: u32 where "IXANY = 0x0800"

definition OPOST :: u32 where "OPOST = 0x01"
definition ONLCR :: u32 where "ONLCR = 0x04"
definition OCRNL :: u32 where "OCRNL = 0x08"
definition ONOCR :: u32 where "ONOCR = 0x10"
definition ONLRET :: u32 where "ONLRET = 0x20"

definition ISIG :: u32 where "ISIG = 0x0001"
definition ICANON :: u32 where "ICANON = 0x0002"
definition ECHO :: u32 where "ECHO = 0x0008"
definition ECHOE :: u32 where "ECHOE = 0x0010"
definition ECHOK :: u32 where "ECHOK = 0x0020"
definition ECHONL :: u32 where "ECHONL = 0x0040"
definition IEXTEN :: u32 where "IEXTEN = 0x8000"

lemmas termios_consts =
  NCCS_def POSIX_VDISABLE_def MAX_CANON_def
  VINTR_def VQUIT_def VERASE_def VKILL_def VEOF_def VTIME_def VMIN_def VSTART_def VSTOP_def
  VSUSP_def VEOL_def VREPRINT_def VWERASE_def VLNEXT_def
  INLCR_def IGNCR_def ICRNL_def IXON_def IXANY_def
  OPOST_def ONLCR_def OCRNL_def ONOCR_def ONLRET_def
  ISIG_def ICANON_def ECHO_def ECHOE_def ECHOK_def ECHONL_def IEXTEN_def

record termios =
  c_iflag :: u32
  c_oflag :: u32
  c_cflag :: u32
  c_lflag :: u32
  c_line :: u8
  c_cc :: "u8 list"

definition termios_zeroed :: termios where
  "termios_zeroed = \<lparr>c_iflag = 0, c_oflag = 0, c_cflag = 0, c_lflag = 0, c_line = 0,
     c_cc = replicate NCCS 0\<rparr>"

text \<open>The control characters both default settings install.\<close>

definition default_cc :: "u8 list \<Rightarrow> u8 list" where
  "default_cc cc = cc[VINTR := 0x03, VQUIT := 0x1c, VERASE := 0x7f, VKILL := 0x15, VEOF := 0x04,
     VTIME := 0, VMIN := 1, VSTART := 0x11, VSTOP := 0x13, VSUSP := 0x1a,
     VEOL := POSIX_VDISABLE, VREPRINT := 0x12, VWERASE := 0x17, VLNEXT := 0x16]"

definition default_cooked :: termios where
  "default_cooked = termios_zeroed\<lparr>
     c_iflag := ICRNL OR IXON OR IXANY,
     c_oflag := OPOST OR ONLCR,
     c_lflag := ISIG OR ICANON OR ECHO OR ECHOE OR ECHOK OR ECHONL OR IEXTEN,
     c_cc := default_cc (c_cc termios_zeroed)\<rparr>"

definition default_pty_master :: termios where
  "default_pty_master = termios_zeroed\<lparr>c_cc := default_cc (c_cc termios_zeroed)\<rparr>"

section \<open>Window size\<close>

record winsize =
  ws_row :: u16
  ws_col :: u16
  ws_xpixel :: u16
  ws_ypixel :: u16

definition winsize_new :: "u16 \<Rightarrow> u16 \<Rightarrow> winsize" where
  "winsize_new rows cols = \<lparr>ws_row = rows, ws_col = cols, ws_xpixel = 0, ws_ypixel = 0\<rparr>"

definition to_u64 :: "winsize \<Rightarrow> u64" where
  "to_u64 w = push_bit 48 (ucast (ws_row w)) OR push_bit 32 (ucast (ws_col w))
     OR push_bit 16 (ucast (ws_xpixel w)) OR ucast (ws_ypixel w)"

definition from_u64 :: "u64 \<Rightarrow> winsize" where
  "from_u64 v = \<lparr>ws_row = ucast (drop_bit 48 v AND 0xffff),
     ws_col = ucast (drop_bit 32 v AND 0xffff),
     ws_xpixel = ucast (drop_bit 16 v AND 0xffff),
     ws_ypixel = ucast (v AND 0xffff)\<rparr>"

section \<open>State and effects\<close>

datatype signal_kind = SigInt | SigQuit | SigTstp

datatype flow_ctl = FlowStop | FlowStart

datatype ldisc_input_effect =
    Absorbed
  | QueuedForRead
  | LineCommitted
  | SignalFgPgrp signal_kind
  | FlowControl flow_ctl

record ldisc_state =
  cooked_buf :: tty_ring
  column :: u16
  flow_stopped :: bool
  lnext :: bool

definition ldisc_new :: ldisc_state where
  "ldisc_new = \<lparr>cooked_buf = ring_new MAX_CANON, column = 0, flow_stopped = False, lnext = False\<rparr>"

section \<open>Input pipeline\<close>

abbreviation byte_nl :: u8 where "byte_nl \<equiv> 0x0a"
abbreviation byte_cr :: u8 where "byte_cr \<equiv> 0x0d"
abbreviation byte_bs :: u8 where "byte_bs \<equiv> 0x08"
abbreviation byte_sp :: u8 where "byte_sp \<equiv> 0x20"

text \<open>\<open>cc_is t v b\<close>: the byte is the control character \<open>v\<close> and that character is enabled.\<close>

definition cc_is :: "termios \<Rightarrow> nat \<Rightarrow> u8 \<Rightarrow> bool" where
  "cc_is t v b \<longleftrightarrow> b = c_cc t ! v \<and> c_cc t ! v \<noteq> POSIX_VDISABLE"

definition translate_input :: "termios \<Rightarrow> u8 \<Rightarrow> u8 option" where
  "translate_input t b =
     (if b = byte_cr \<and> flag_set (c_iflag t) IGNCR then None
      else if b = byte_cr \<and> flag_set (c_iflag t) ICRNL then Some byte_nl
      else if b = byte_nl \<and> flag_set (c_iflag t) INLCR then Some byte_cr
      else Some b)"

definition signal_for_byte :: "termios \<Rightarrow> u8 \<Rightarrow> signal_kind option" where
  "signal_for_byte t b =
     (if cc_is t VINTR b then Some SigInt
      else if cc_is t VQUIT b then Some SigQuit
      else if cc_is t VSUSP b then Some SigTstp
      else None)"

definition echo_byte :: "termios \<Rightarrow> tty_ring \<Rightarrow> u8 \<Rightarrow> tty_ring" where
  "echo_byte t oq b = (if flag_set (c_lflag t) ECHO then snd (ring_push oq b) else oq)"

definition echo_newline :: "termios \<Rightarrow> tty_ring \<Rightarrow> tty_ring" where
  "echo_newline t oq =
     (if flag_set (c_lflag t) (ECHO OR ECHONL) then snd (ring_push oq byte_nl) else oq)"

definition echo_erase :: "termios \<Rightarrow> tty_ring \<Rightarrow> tty_ring" where
  "echo_erase t oq =
     (if \<not> flag_set (c_lflag t) ECHO then oq
      else if flag_set (c_lflag t) ECHOE then
        let oq1 = snd (ring_push oq byte_bs);
            oq2 = snd (ring_push oq1 byte_sp)
        in snd (ring_push oq2 byte_bs)
      else snd (ring_push oq (c_cc t ! VERASE)))"

definition echo_kill :: "termios \<Rightarrow> tty_ring \<Rightarrow> tty_ring" where
  "echo_kill t oq =
     (if \<not> flag_set (c_lflag t) ECHO then oq
      else if flag_set (c_lflag t) ECHOK then snd (ring_push oq byte_nl)
      else snd (ring_push oq (c_cc t ! VKILL)))"

type_synonym ldisc_result = "ldisc_input_effect \<times> ldisc_state \<times> tty_ring \<times> tty_ring"

definition handle_literal ::
  "ldisc_state \<Rightarrow> termios \<Rightarrow> tty_ring \<Rightarrow> tty_ring \<Rightarrow> u8 \<Rightarrow> ldisc_result" where
  "handle_literal s t iq oq b =
     (if flag_set (c_lflag t) ICANON then
        let oq' = echo_byte t oq b
        in (Absorbed, s\<lparr>cooked_buf := snd (ring_push (cooked_buf s) b)\<rparr>, iq, oq')
      else
        let oq' = echo_byte t oq b
        in (QueuedForRead, s, snd (ring_push iq b), oq'))"

definition process_canonical ::
  "ldisc_state \<Rightarrow> termios \<Rightarrow> tty_ring \<Rightarrow> tty_ring \<Rightarrow> u8 \<Rightarrow> ldisc_result" where
  "process_canonical s t iq oq b =
     (if cc_is t VERASE b then
        (case ring_pop_back (cooked_buf s) of
           (Some _, cb) \<Rightarrow> (Absorbed, s\<lparr>cooked_buf := cb\<rparr>, iq, echo_erase t oq)
         | (None, cb) \<Rightarrow> (Absorbed, s\<lparr>cooked_buf := cb\<rparr>, iq, oq))
      else if cc_is t VKILL b then
        (Absorbed, s\<lparr>cooked_buf := ring_clear (cooked_buf s)\<rparr>, iq, echo_kill t oq)
      else if cc_is t VEOF b then
        (case ring_drain_into (cooked_buf s) iq of
           (_, cb, iq') \<Rightarrow> (LineCommitted, s\<lparr>cooked_buf := cb\<rparr>, iq', oq))
      else if b = byte_nl \<or> cc_is t VEOL b then
        let cb = snd (ring_push (cooked_buf s) b);
            oq' = echo_newline t oq
        in (case ring_drain_into cb iq of
              (_, cb', iq') \<Rightarrow> (LineCommitted, s\<lparr>cooked_buf := cb'\<rparr>, iq', oq'))
      else if ring_is_full (cooked_buf s) then
        (case ring_drain_into (cooked_buf s) iq of
           (_, cb, iq') \<Rightarrow> (LineCommitted, s\<lparr>cooked_buf := cb\<rparr>, snd (ring_push iq' b), oq))
      else
        (Absorbed, s\<lparr>cooked_buf := snd (ring_push (cooked_buf s) b)\<rparr>, iq, echo_byte t oq b))"

definition process_raw :: "termios \<Rightarrow> tty_ring \<Rightarrow> tty_ring \<Rightarrow> u8 \<Rightarrow>
    ldisc_input_effect \<times> tty_ring \<times> tty_ring" where
  "process_raw t iq oq b =
     (let oq' = echo_byte t oq b in (QueuedForRead, snd (ring_push iq b), oq'))"

text \<open>The routing of step 6 of the pipeline.\<close>

definition process_route ::
  "ldisc_state \<Rightarrow> termios \<Rightarrow> tty_ring \<Rightarrow> tty_ring \<Rightarrow> u8 \<Rightarrow> ldisc_result" where
  "process_route s t iq oq b =
     (if flag_set (c_lflag t) ICANON \<and> flag_set (c_lflag t) IEXTEN \<and> cc_is t VLNEXT b
      then (Absorbed, s\<lparr>lnext := True\<rparr>, iq, oq)
      else if flag_set (c_lflag t) ICANON then process_canonical s t iq oq b
      else case process_raw t iq oq b of (e, iq', oq') \<Rightarrow> (e, s, iq', oq'))"

definition process_input_byte ::
  "ldisc_state \<Rightarrow> termios \<Rightarrow> tty_ring \<Rightarrow> tty_ring \<Rightarrow> u8 \<Rightarrow> ldisc_result" where
  "process_input_byte s t iq oq byte =
     (if lnext s then handle_literal (s\<lparr>lnext := False\<rparr>) t iq oq byte
      else case translate_input t byte of
        None \<Rightarrow> (Absorbed, s, iq, oq)
      | Some b \<Rightarrow>
          (case (if flag_set (c_lflag t) ISIG then signal_for_byte t b else None) of
             Some sig \<Rightarrow> (SignalFgPgrp sig, s, iq, oq)
           | None \<Rightarrow>
               if flag_set (c_iflag t) IXON then
                 if cc_is t VSTOP b then
                   (FlowControl FlowStop, s\<lparr>flow_stopped := True\<rparr>, iq, oq)
                 else if cc_is t VSTART b then
                   (FlowControl FlowStart, s\<lparr>flow_stopped := False\<rparr>, iq, oq)
                 else if flow_stopped s then
                   if flag_set (c_iflag t) IXANY
                   then process_route (s\<lparr>flow_stopped := False\<rparr>) t iq oq b
                   else (Absorbed, s, iq, oq)
                 else process_route s t iq oq b
               else process_route s t iq oq b))"

section \<open>Output pipeline\<close>

definition saturating_succ :: "u16 \<Rightarrow> u16" where
  "saturating_succ c = (if c = 0xffff then c else c + 1)"

definition push_nl :: "ldisc_state \<Rightarrow> termios \<Rightarrow> tty_ring \<Rightarrow> bool \<times> ldisc_state \<times> tty_ring" where
  "push_nl s t oq =
     (let ok = (\<lambda>oq'. (True, (if flag_set (c_oflag t) ONLRET then s\<lparr>column := 0\<rparr> else s), oq'))
      in if flag_set (c_oflag t) ONLCR then
           if ring_space oq < 2 then (False, s, oq)
           else ok (snd (ring_push (snd (ring_push oq byte_cr)) byte_nl))
         else case ring_push oq byte_nl of
                (Inl _, oq') \<Rightarrow> (False, s, oq')
              | (Inr _, oq') \<Rightarrow> ok oq')"

definition push_cr :: "ldisc_state \<Rightarrow> termios \<Rightarrow> tty_ring \<Rightarrow> bool \<times> ldisc_state \<times> tty_ring" where
  "push_cr s t oq =
     (if flag_set (c_oflag t) OCRNL then
        case ring_push oq byte_nl of
          (Inl _, oq') \<Rightarrow> (False, s, oq')
        | (Inr _, oq') \<Rightarrow> (True, (if flag_set (c_oflag t) ONLRET then s\<lparr>column := 0\<rparr> else s), oq')
      else if flag_set (c_oflag t) ONOCR \<and> column s = 0 then (True, s, oq)
      else case ring_push oq byte_cr of
             (Inl _, oq') \<Rightarrow> (False, s, oq')
           | (Inr _, oq') \<Rightarrow> (True, s\<lparr>column := 0\<rparr>, oq'))"

definition output_byte :: "ldisc_state \<Rightarrow> termios \<Rightarrow> tty_ring \<Rightarrow> u8 \<Rightarrow>
    bool \<times> ldisc_state \<times> tty_ring" where
  "output_byte s t oq b =
     (if b = byte_nl then push_nl s t oq
      else if b = byte_cr then push_cr s t oq
      else case ring_push oq b of
             (Inl _, oq') \<Rightarrow> (False, s, oq')
           | (Inr _, oq') \<Rightarrow> (True, s\<lparr>column := saturating_succ (column s)\<rparr>, oq'))"

fun output_loop :: "ldisc_state \<Rightarrow> termios \<Rightarrow> tty_ring \<Rightarrow> u8 list \<Rightarrow>
    nat \<times> ldisc_state \<times> tty_ring" where
  "output_loop s t oq [] = (0, s, oq)"
| "output_loop s t oq (b # bs) =
     (case output_byte s t oq b of
        (True, s', oq') \<Rightarrow> (case output_loop s' t oq' bs of (n, s'', oq'') \<Rightarrow> (Suc n, s'', oq''))
      | (False, s', oq') \<Rightarrow> (0, s', oq'))"

definition process_output :: "ldisc_state \<Rightarrow> termios \<Rightarrow> tty_ring \<Rightarrow> u8 list \<Rightarrow>
    nat \<times> ldisc_state \<times> tty_ring" where
  "process_output s t oq bs =
     (if \<not> flag_set (c_oflag t) OPOST then
        case ring_extend_from_slice oq bs of (n, oq') \<Rightarrow> (n, s, oq')
      else output_loop s t oq bs)"

section \<open>Settings change\<close>

definition on_termios_changed :: "ldisc_state \<Rightarrow> termios \<Rightarrow> termios \<Rightarrow> tty_ring \<Rightarrow>
    ldisc_state \<times> tty_ring" where
  "on_termios_changed s old new iq =
     (if flag_set (c_lflag old) ICANON \<and> \<not> flag_set (c_lflag new) ICANON
         \<and> \<not> ring_is_empty (cooked_buf s)
      then case ring_drain_into (cooked_buf s) iq of
             (_, cb, iq') \<Rightarrow> (s\<lparr>cooked_buf := cb\<rparr>, iq')
      else (s, iq))"

section \<open>The invariant of the discipline\<close>

definition ldisc_wf :: "ldisc_state \<Rightarrow> bool" where
  "ldisc_wf s \<longleftrightarrow> ring_wf (cooked_buf s) \<and> ring_n (cooked_buf s) = MAX_CANON"

lemma ldisc_wf_new [simp]: "ldisc_wf ldisc_new"
  by (simp add: ldisc_wf_def ldisc_new_def)

lemma ldisc_wf_flags [simp]:
  "ldisc_wf (s\<lparr>lnext := l\<rparr>) = ldisc_wf s"
  "ldisc_wf (s\<lparr>flow_stopped := f\<rparr>) = ldisc_wf s"
  "ldisc_wf (s\<lparr>column := c\<rparr>) = ldisc_wf s"
  by (simp_all add: ldisc_wf_def)

text \<open>What every step of the pipeline keeps of the state and the queues.\<close>

definition ldisc_keeps :: "tty_ring \<Rightarrow> tty_ring \<Rightarrow> ldisc_result \<Rightarrow> bool" where
  "ldisc_keeps iq oq res \<longleftrightarrow>
     (case res of (e, s', iq', oq') \<Rightarrow>
        ldisc_wf s' \<and> ring_wf iq' \<and> ring_n iq' = ring_n iq \<and> ring_wf oq' \<and> ring_n oq' = ring_n oq)"

lemma echo_keeps [ring_simps]:
  assumes "ring_wf oq"
  shows "ring_wf (echo_byte t oq b)" "ring_n (echo_byte t oq b) = ring_n oq"
    and "ring_wf (echo_newline t oq)" "ring_n (echo_newline t oq) = ring_n oq"
    and "ring_wf (echo_erase t oq)" "ring_n (echo_erase t oq) = ring_n oq"
    and "ring_wf (echo_kill t oq)" "ring_n (echo_kill t oq) = ring_n oq"
  using assms
  by (simp_all add: echo_byte_def echo_newline_def echo_erase_def echo_kill_def Let_def ring_simps)

lemma handle_literal_keeps:
  "ldisc_wf s \<Longrightarrow> ring_wf iq \<Longrightarrow> ring_wf oq \<Longrightarrow> ldisc_keeps iq oq (handle_literal s t iq oq b)"
  by (simp add: handle_literal_def ldisc_keeps_def ldisc_wf_def Let_def ring_simps)

lemma ldisc_keeps_if:
  "ldisc_keeps iq oq x \<Longrightarrow> ldisc_keeps iq oq y \<Longrightarrow> ldisc_keeps iq oq (if c then x else y)"
  by simp

lemma ldisc_keeps_drain:
  assumes "ring_wf cb" "ring_n cb = MAX_CANON" "ring_wf iq" "ring_wf oq'" "ring_n oq' = ring_n oq"
  shows "ldisc_keeps iq oq (case ring_drain_into cb iq of
      (_, cb', iq') \<Rightarrow> (e, s\<lparr>cooked_buf := cb'\<rparr>, iq', oq'))"
    and "ldisc_keeps iq oq (case ring_drain_into cb iq of
      (_, cb', iq') \<Rightarrow> (e, s\<lparr>cooked_buf := cb'\<rparr>, snd (ring_push iq' b), oq'))"
  using assms ring_drain_into_simps [OF assms(1,3)]
  by (simp_all add: ldisc_keeps_def ldisc_wf_def case_prod_beta ring_push_simps)

lemma process_canonical_keeps:
  assumes "ldisc_wf s" "ring_wf iq" "ring_wf oq"
  shows "ldisc_keeps iq oq (process_canonical s t iq oq b)"
proof -
  have cb: "ring_wf (cooked_buf s)" "ring_n (cooked_buf s) = MAX_CANON"
    using assms(1) by (simp_all add: ldisc_wf_def)
  have pushed: "ring_wf (snd (ring_push (cooked_buf s) b))"
      "ring_n (snd (ring_push (cooked_buf s) b)) = MAX_CANON"
    using cb by (simp_all add: ring_simps)
  have erase: "ldisc_keeps iq oq (case ring_pop_back (cooked_buf s) of
           (Some _, cb) \<Rightarrow> (Absorbed, s\<lparr>cooked_buf := cb\<rparr>, iq, echo_erase t oq)
         | (None, cb) \<Rightarrow> (Absorbed, s\<lparr>cooked_buf := cb\<rparr>, iq, oq))"
    using cb assms(2,3) ring_pop_back_simps(2,3) [OF cb(1)]
    by (simp add: ldisc_keeps_def ldisc_wf_def case_prod_beta echo_keeps split: option.split)
  show ?thesis
    unfolding process_canonical_def Let_def
    by (intro ldisc_keeps_if erase ldisc_keeps_drain)
      (use assms(2,3) cb pushed in
        \<open>simp_all add: ldisc_keeps_def ldisc_wf_def echo_keeps\<close>)
qed

lemma process_route_keeps:
  assumes "ldisc_wf s" "ring_wf iq" "ring_wf oq"
  shows "ldisc_keeps iq oq (process_route s t iq oq b)"
  using assms process_canonical_keeps [OF assms, of t b]
  by (auto simp: process_route_def process_raw_def ldisc_keeps_def Let_def ring_push_simps echo_keeps)

lemma process_input_byte_keeps:
  assumes "ldisc_wf s" "ring_wf iq" "ring_wf oq"
  shows "ldisc_keeps iq oq (process_input_byte s t iq oq b)"
proof -
  have base: "ldisc_keeps iq oq (e, s', iq, oq)" if "ldisc_wf s'" for e s'
    using that assms by (simp add: ldisc_keeps_def)
  show ?thesis
    using assms
    by (auto simp: process_input_byte_def intro!: base handle_literal_keeps process_route_keeps
        split: option.split)
qed

section \<open>Line editing\<close>

text \<open>The bytes of a call sequence, one \<open>process_input_byte\<close> after another.\<close>

fun process_input_bytes :: "ldisc_state \<Rightarrow> termios \<Rightarrow> tty_ring \<Rightarrow> tty_ring \<Rightarrow> u8 list \<Rightarrow>
    ldisc_input_effect list \<times> ldisc_state \<times> tty_ring \<times> tty_ring" where
  "process_input_bytes s t iq oq [] = ([], s, iq, oq)"
| "process_input_bytes s t iq oq (b # bs) =
     (case process_input_byte s t iq oq b of
        (e, s', iq', oq') \<Rightarrow>
          (case process_input_bytes s' t iq' oq' bs of (es, res) \<Rightarrow> (e # es, res)))"

lemma process_input_bytes_append:
  "process_input_bytes s t iq oq (as @ bs) =
     (case process_input_bytes s t iq oq as of
        (es, s', iq', oq') \<Rightarrow>
          (case process_input_bytes s' t iq' oq' bs of (es', res) \<Rightarrow> (es @ es', res)))"
  by (induction "as" arbitrary: s iq oq) (auto simp: case_prod_beta)

text \<open>
  The specification of canonical editing: the erase character removes the last byte of the
  line, the kill character removes the line, any other byte is added at its end.
\<close>

definition edit_byte :: "termios \<Rightarrow> u8 list \<Rightarrow> u8 \<Rightarrow> u8 list" where
  "edit_byte t line b =
     (if cc_is t VERASE b then butlast line
      else if cc_is t VKILL b then []
      else line @ [b])"

abbreviation edit_line :: "termios \<Rightarrow> u8 list \<Rightarrow> u8 list \<Rightarrow> u8 list" where
  "edit_line t \<equiv> foldl (edit_byte t)"

text \<open>
  \<open>reaches_route t b b'\<close>: typed while output is not stopped, the byte \<open>b\<close> passes
  translation, signals, flow control and the literal-next check and is routed as \<open>b'\<close>.
\<close>

definition reaches_route :: "termios \<Rightarrow> u8 \<Rightarrow> u8 \<Rightarrow> bool" where
  "reaches_route t b b' \<longleftrightarrow> translate_input t b = Some b'
     \<and> (flag_set (c_lflag t) ISIG \<longrightarrow> signal_for_byte t b' = None)
     \<and> (flag_set (c_iflag t) IXON \<longrightarrow> \<not> cc_is t VSTOP b' \<and> \<not> cc_is t VSTART b')
     \<and> \<not> (flag_set (c_lflag t) IEXTEN \<and> cc_is t VLNEXT b')"

definition editing_byte :: "termios \<Rightarrow> u8 \<Rightarrow> bool" where
  "editing_byte t b \<longleftrightarrow> reaches_route t b b
     \<and> (cc_is t VERASE b \<or> cc_is t VKILL b \<or> \<not> cc_is t VEOF b \<and> b \<noteq> byte_nl \<and> \<not> cc_is t VEOL b)"

definition commit_byte :: "termios \<Rightarrow> u8 \<Rightarrow> bool" where
  "commit_byte t b \<longleftrightarrow> reaches_route t b byte_nl
     \<and> \<not> cc_is t VERASE byte_nl \<and> \<not> cc_is t VKILL byte_nl \<and> \<not> cc_is t VEOF byte_nl"

lemma process_input_byte_route:
  assumes "flag_set (c_lflag t) ICANON" "\<not> lnext s" "\<not> flow_stopped s" "reaches_route t b b'"
  shows "process_input_byte s t iq oq b = process_canonical s t iq oq b'"
  using assms by (auto simp: process_input_byte_def process_route_def reaches_route_def)

lemma editing_byte_step:
  assumes "flag_set (c_lflag t) ICANON" "\<not> lnext s" "\<not> flow_stopped s" "ldisc_wf s"
    and "ring_wf oq" "editing_byte t b"
    and "length (ring_contents (cooked_buf s)) < MAX_CANON"
  obtains s' oq' where "process_input_byte s t iq oq b = (Absorbed, s', iq, oq')"
    and "ring_contents (cooked_buf s') = edit_byte t (ring_contents (cooked_buf s)) b"
    and "ldisc_wf s'" "ring_wf oq'" "\<not> lnext s'" "\<not> flow_stopped s'"
proof -
  have cb: "ring_wf (cooked_buf s)" "ring_n (cooked_buf s) = MAX_CANON"
    using assms(4) by (simp_all add: ldisc_wf_def)
  have r: "process_input_byte s t iq oq b = process_canonical s t iq oq b"
    using assms by (intro process_input_byte_route) (simp_all add: editing_byte_def)
  have room: "\<not> ring_is_full (cooked_buf s)" using assms(7) cb by (simp add: ring_is_full_def)
  consider "cc_is t VERASE b" | "\<not> cc_is t VERASE b" "cc_is t VKILL b"
    | "\<not> cc_is t VERASE b" "\<not> cc_is t VKILL b" by blast
  then show thesis
  proof cases
    case 1
    show thesis
    proof (cases "ring_pop_back (cooked_buf s)")
      case (Pair p c)
      then show thesis
        using that r 1 assms ring_pop_back_simps [OF cb(1)] cb
        by (cases p) (auto simp: process_canonical_def edit_byte_def ldisc_wf_def echo_keeps)
    qed
  next
    case 2
    then show thesis
      using that r assms cb by (auto simp: process_canonical_def edit_byte_def ldisc_wf_def echo_keeps)
  next
    case 3
    then have "\<not> cc_is t VEOF b" "b \<noteq> byte_nl" "\<not> cc_is t VEOL b"
      using assms(6) by (auto simp: editing_byte_def)
    then show thesis
      using that r 3 room assms cb
      by (auto simp: process_canonical_def edit_byte_def ldisc_wf_def echo_keeps ring_push_simps)
  qed
qed

lemma editing_bytes_run:
  assumes "flag_set (c_lflag t) ICANON" "\<not> lnext s" "\<not> flow_stopped s" "ldisc_wf s" "ring_wf oq"
    and "\<And>b. b \<in> set bs \<Longrightarrow> editing_byte t b"
    and "\<And>k. k \<le> length bs \<Longrightarrow>
      length (edit_line t (ring_contents (cooked_buf s)) (take k bs)) < MAX_CANON"
  obtains s' oq' where
      "process_input_bytes s t iq oq bs = (replicate (length bs) Absorbed, s', iq, oq')"
    and "ring_contents (cooked_buf s') = edit_line t (ring_contents (cooked_buf s)) bs"
    and "ldisc_wf s'" "ring_wf oq'" "\<not> lnext s'" "\<not> flow_stopped s'"
  using assms(2-)
proof (induction bs arbitrary: s oq thesis)
  case Nil
  then show ?case by simp
next
  case (Cons b bs)
  have lt: "length (ring_contents (cooked_buf s)) < MAX_CANON"
    using Cons.prems(7) [of 0] by simp
  obtain s1 oq1 where 1: "process_input_byte s t iq oq b = (Absorbed, s1, iq, oq1)"
      "ring_contents (cooked_buf s1) = edit_byte t (ring_contents (cooked_buf s)) b"
      "ldisc_wf s1" "ring_wf oq1" "\<not> lnext s1" "\<not> flow_stopped s1"
    using editing_byte_step [OF assms(1) Cons.prems(2-5) _ lt, of b] Cons.prems(6) by auto
  have "length (edit_line t (ring_contents (cooked_buf s1)) (take k bs)) < MAX_CANON"
    if "k \<le> length bs" for k
    using Cons.prems(7) [of "Suc k"] that 1(2) by simp
  then obtain s2 oq2 where 2:
      "process_input_bytes s1 t iq oq1 bs = (replicate (length bs) Absorbed, s2, iq, oq2)"
      "ring_contents (cooked_buf s2) = edit_line t (ring_contents (cooked_buf s1)) bs"
      "ldisc_wf s2" "ring_wf oq2" "\<not> lnext s2" "\<not> flow_stopped s2"
    using Cons.IH [of s1 oq1] 1 Cons.prems(6) by (metis list.set_intros(2))
  show ?case
    by (rule Cons.prems(1) [of s2 oq2]) (use 1 2 in simp_all)
qed

lemma commit_byte_step:
  assumes "flag_set (c_lflag t) ICANON" "\<not> lnext s" "\<not> flow_stopped s" "ldisc_wf s"
    and "ring_wf iq" "commit_byte t c"
    and "length (ring_contents (cooked_buf s)) < MAX_CANON"
    and "length (ring_contents iq) + length (ring_contents (cooked_buf s)) < ring_n iq"
  shows "\<exists>s' iq' oq'. process_input_byte s t iq oq c = (LineCommitted, s', iq', oq')
    \<and> ring_contents (cooked_buf s') = []
    \<and> ring_contents iq' = ring_contents iq @ ring_contents (cooked_buf s) @ [byte_nl]"
proof -
  have cb: "ring_wf (cooked_buf s)" "ring_n (cooked_buf s) = MAX_CANON"
    using assms(4) by (simp_all add: ldisc_wf_def)
  let ?cb = "snd (ring_push (cooked_buf s) byte_nl)"
  have p: "ring_wf ?cb" "ring_contents ?cb = ring_contents (cooked_buf s) @ [byte_nl]"
    using cb assms(7) by (simp_all add: ring_push_simps)
  have len: "r_len ?cb = Suc (r_len (cooked_buf s))"
    using arg_cong [OF p(2), of length] by simp
  have n: "min (r_len ?cb) (ring_n iq - r_len iq) = length (ring_contents ?cb)"
    using assms(8) len by simp
  have "process_input_byte s t iq oq c = process_canonical s t iq oq byte_nl"
    using assms by (intro process_input_byte_route) (simp_all add: commit_byte_def)
  also have "\<dots> = (LineCommitted, s\<lparr>cooked_buf := fst (snd (ring_drain_into ?cb iq))\<rparr>,
      snd (snd (ring_drain_into ?cb iq)), echo_newline t oq)"
    using assms(6) by (simp add: process_canonical_def commit_byte_def Let_def case_prod_beta)
  finally show ?thesis
    using ring_drain_into_simps(6,7) [OF p(1) assms(5)] p(2) unfolding n by simp
qed

lemmas termios_eval = default_cooked_def default_pty_master_def termios_zeroed_def default_cc_def
  termios_consts flag_set_def cc_is_def

text \<open>
  C36: canonical input. In canonical mode, with output not stopped and no literal-next
  pending, typing bytes that are ordinary, erase or kill characters and then the line end
  moves exactly the edited line and a newline to the input queue and leaves the line buffer
  empty, as long as the edited line stays below \<open>MAX_CANON\<close> while it is typed and the queue
  has room for it. All bytes but the last are absorbed; the last one reports the line.
\<close>

theorem canonical_line_is_committed:
  assumes "flag_set (c_lflag t) ICANON" "\<not> lnext s" "\<not> flow_stopped s" "ldisc_wf s"
    and "ring_wf iq" "ring_wf oq"
    and "\<forall>b \<in> set bs. editing_byte t b" "commit_byte t c"
    and "\<forall>k \<le> length bs. length (edit_line t (ring_contents (cooked_buf s)) (take k bs)) < MAX_CANON"
    and "length (ring_contents iq) + length (edit_line t (ring_contents (cooked_buf s)) bs) < ring_n iq"
  shows "\<exists>s' iq' oq'. process_input_bytes s t iq oq (bs @ [c])
      = (replicate (length bs) Absorbed @ [LineCommitted], s', iq', oq')
    \<and> ring_contents (cooked_buf s') = []
    \<and> ring_contents iq' = ring_contents iq @ edit_line t (ring_contents (cooked_buf s)) bs @ [byte_nl]"
proof -
  obtain s1 oq1 where 1:
      "process_input_bytes s t iq oq bs = (replicate (length bs) Absorbed, s1, iq, oq1)"
      "ring_contents (cooked_buf s1) = edit_line t (ring_contents (cooked_buf s)) bs"
      "ldisc_wf s1" "ring_wf oq1" "\<not> lnext s1" "\<not> flow_stopped s1"
    using editing_bytes_run [OF assms(1-4,6), of bs iq] assms(7,9) by metis
  have "length (ring_contents (cooked_buf s1)) < MAX_CANON"
    using assms(9) 1(2) by (metis order_refl take_all)
  then obtain s2 iq2 oq2 where "process_input_byte s1 t iq oq1 c = (LineCommitted, s2, iq2, oq2)"
      "ring_contents (cooked_buf s2) = []"
      "ring_contents iq2 = ring_contents iq @ ring_contents (cooked_buf s1) @ [byte_nl]"
    using commit_byte_step [OF assms(1) 1(5,6,3) assms(5,8), of oq1] assms(10) 1(2) by auto
  then show ?thesis using 1 by (simp add: process_input_bytes_append)
qed

theorem canonical_line_is_committed_witness:
  "\<exists>s' iq' oq'. process_input_bytes ldisc_new default_cooked (ring_new 8) (ring_new 8)
      [0x61, 0x62, 0x7f, 0x63, byte_cr] = ([Absorbed, Absorbed, Absorbed, Absorbed, LineCommitted], s', iq', oq')
    \<and> ring_contents (cooked_buf s') = [] \<and> ring_contents iq' = [0x61, 0x63, byte_nl]"
proof -
  have k: "\<forall>k \<le> length [0x61, 0x62, 0x7f, 0x63 :: u8]. length (edit_line default_cooked
      (ring_contents (cooked_buf ldisc_new)) (take k [0x61, 0x62, 0x7f, 0x63])) < MAX_CANON"
  proof (intro allI impI)
    fix k :: nat
    assume "k \<le> length [0x61, 0x62, 0x7f, 0x63 :: u8]"
    then have "k = 0 \<or> k = 1 \<or> k = 2 \<or> k = 3 \<or> k = 4" by auto
    then show "length (edit_line default_cooked
      (ring_contents (cooked_buf ldisc_new)) (take k [0x61, 0x62, 0x7f, 0x63])) < MAX_CANON"
      by (elim disjE) (simp_all add: termios_eval ldisc_new_def edit_byte_def)
  qed
  have b: "\<forall>b \<in> set [0x61, 0x62, 0x7f, 0x63 :: u8]. editing_byte default_cooked b"
    by (simp add: editing_byte_def reaches_route_def translate_input_def signal_for_byte_def termios_eval)
  have c: "commit_byte default_cooked byte_cr"
    by (simp add: commit_byte_def reaches_route_def translate_input_def signal_for_byte_def termios_eval)
  have ic: "flag_set (c_lflag default_cooked) ICANON" by (simp add: termios_eval)
  have e: "edit_line default_cooked (ring_contents (cooked_buf ldisc_new)) [0x61, 0x62, 0x7f, 0x63]
      = [0x61, 0x63]"
    by (simp add: termios_eval ldisc_new_def edit_byte_def)
  show ?thesis
    using canonical_line_is_committed [OF ic _ _ ldisc_wf_new _ _ b c k, of "ring_new 8" "ring_new 8"]
    unfolding e by (simp add: ldisc_new_def eval_nat_numeral)
qed

section \<open>Raw mode, echo, signals\<close>

text \<open>
  Raw input. With canonical mode, signals, flow control and input translation off and no
  literal-next pending, every byte goes unchanged and in order to the input queue until the
  queue is full, the state does not change and every byte reports readable data.
\<close>

theorem raw_mode_is_transparent:
  assumes "\<not> lnext s" "\<not> flag_set (c_lflag t) ICANON" "\<not> flag_set (c_lflag t) ISIG"
    and "\<not> flag_set (c_iflag t) IXON" "\<not> flag_set (c_iflag t) IGNCR"
    and "\<not> flag_set (c_iflag t) ICRNL" "\<not> flag_set (c_iflag t) INLCR" "ring_wf iq"
  shows "\<exists>iq' oq'. process_input_bytes s t iq oq bs = (replicate (length bs) QueuedForRead, s, iq', oq')
    \<and> ring_contents iq' = take (ring_n iq) (ring_contents iq @ bs)"
  using assms(8)
proof (induction bs arbitrary: iq oq)
  case Nil
  then show ?case using ring_wf_le [of iq] by simp
next
  case (Cons b bs)
  let ?iq = "snd (ring_push iq b)"
  have p: "ring_wf ?iq" "ring_n ?iq = ring_n iq"
      "ring_contents ?iq = take (ring_n iq) (ring_contents iq @ [b])"
    using Cons.prems by (simp_all add: ring_push_simps)
  have "process_input_byte s t iq oq b = (QueuedForRead, s, ?iq, echo_byte t oq b)"
    using assms by (simp add: process_input_byte_def process_route_def translate_input_def
        process_raw_def Let_def)
  moreover have "take (ring_n iq) (ring_contents ?iq @ bs) = take (ring_n iq) (ring_contents iq @ b # bs)"
    using ring_wf_le [OF Cons.prems] by (simp add: p(3) take_Cons')
  ultimately show ?case using Cons.IH [OF p(1), of "echo_byte t oq b"] p(2) by auto
qed

theorem raw_mode_is_transparent_witness:
  "\<exists>iq' oq'. process_input_bytes ldisc_new default_pty_master (ring_new 2) (ring_new 4) [0x03, 0x0d, 0x7f]
      = (replicate 3 QueuedForRead, ldisc_new, iq', oq') \<and> ring_contents iq' = [0x03, 0x0d]"
  using raw_mode_is_transparent [of ldisc_new default_pty_master "ring_new 2" "ring_new 4" "[0x03, 0x0d, 0x7f]"]
  by (simp add: termios_eval ldisc_new_def eval_nat_numeral)

lemma flag_set_OR: "flag_set w (a OR b) \<longleftrightarrow> flag_set w a \<or> flag_set w b"
  by (simp add: flag_set_def bit.conj_disj_distrib or_eq_0_iff)

text \<open>
  No echo. With \<open>ECHO\<close> and \<open>ECHONL\<close> off, no input byte puts anything in the output
  queue, whatever the mode, the state and the byte: a password typed at a prompt that
  turned echo off is never written to the terminal.
\<close>

theorem no_echo_no_output:
  assumes "\<not> flag_set (c_lflag t) ECHO" "\<not> flag_set (c_lflag t) ECHONL"
  shows "snd (snd (snd (process_input_byte s t iq oq b))) = oq"
proof -
  have e: "echo_byte t oq b' = oq" "echo_newline t oq = oq" "echo_erase t oq = oq"
      "echo_kill t oq = oq" for b'
    using assms by (simp_all add: echo_byte_def echo_newline_def echo_erase_def echo_kill_def flag_set_OR)
  have c: "snd (snd (snd (process_canonical s' t iq oq b'))) = oq" for s' b'
    by (simp add: process_canonical_def Let_def e case_prod_beta split: option.split)
  have r: "snd (snd (snd (process_route s' t iq oq b'))) = oq" for s' b'
    by (simp add: process_route_def process_raw_def c e Let_def)
  show ?thesis
    by (simp add: process_input_byte_def handle_literal_def e r Let_def split: option.split)
qed

theorem no_echo_no_output_witness:
  "snd (snd (snd (process_input_byte ldisc_new (default_cooked\<lparr>c_lflag := ICANON\<rparr>) (ring_new 4)
     (ring_new 4) 0x61))) = ring_new 4"
  by (rule no_echo_no_output) (simp_all add: termios_eval)


text \<open>
  Literal next. After the literal-next character in canonical mode, the following byte,
  whatever it is, is added to the line: no signal, no editing and no line end happens.
\<close>

theorem literal_next_quotes_any_byte:
  assumes "lnext s" "flag_set (c_lflag t) ICANON" "ldisc_wf s"
    and "length (ring_contents (cooked_buf s)) < MAX_CANON"
  shows "\<exists>s' oq'. process_input_byte s t iq oq b = (Absorbed, s', iq, oq') \<and> \<not> lnext s'
    \<and> ring_contents (cooked_buf s') = ring_contents (cooked_buf s) @ [b]"
  using assms
  by (simp add: process_input_byte_def handle_literal_def Let_def ldisc_wf_def ring_push_simps)

theorem literal_next_quotes_any_byte_witness:
  "\<exists>s' oq'. process_input_byte (ldisc_new\<lparr>lnext := True\<rparr>) default_cooked (ring_new 4) (ring_new 4) 0x03
      = (Absorbed, s', ring_new 4, oq') \<and> \<not> lnext s' \<and> ring_contents (cooked_buf s') = [0x03]"
proof -
  have "length (ring_contents (cooked_buf (ldisc_new\<lparr>lnext := True\<rparr>))) < MAX_CANON"
    by (simp add: ldisc_new_def MAX_CANON_def)
  then show ?thesis
    using literal_next_quotes_any_byte [of "ldisc_new\<lparr>lnext := True\<rparr>" default_cooked
        "ring_new 4" "ring_new 4" "0x03"]
    by (simp add: termios_eval ldisc_new_def) (simp add: ldisc_wf_def MAX_CANON_def)
qed

section \<open>Output post-processing\<close>

text \<open>The specification: what one byte expands to, and the column after it.\<close>

definition opost_byte :: "termios \<Rightarrow> u16 \<Rightarrow> u8 \<Rightarrow> u8 list \<times> u16" where
  "opost_byte t c b =
     (if b = byte_nl then
        (if flag_set (c_oflag t) ONLCR then [byte_cr, byte_nl] else [byte_nl],
         if flag_set (c_oflag t) ONLRET then 0 else c)
      else if b = byte_cr then
        if flag_set (c_oflag t) OCRNL then ([byte_nl], if flag_set (c_oflag t) ONLRET then 0 else c)
        else if flag_set (c_oflag t) ONOCR \<and> c = 0 then ([], 0)
        else ([byte_cr], 0)
      else ([b], saturating_succ c))"

fun opost :: "termios \<Rightarrow> u16 \<Rightarrow> u8 list \<Rightarrow> u8 list \<times> u16" where
  "opost t c [] = ([], c)"
| "opost t c (b # bs) =
     (case opost_byte t c b of (xs, c') \<Rightarrow> (case opost t c' bs of (ys, c'') \<Rightarrow> (xs @ ys, c'')))"

lemma ring_push_cases:
  assumes "ring_wf r"
  obtains "length (ring_contents r) = ring_n r" "ring_push r b = (Inl RingFull, r)"
  | r' where "length (ring_contents r) < ring_n r" "ring_push r b = (Inr (), r')" "ring_wf r'"
      "ring_n r' = ring_n r" "ring_contents r' = ring_contents r @ [b]"
  using ring_fifo.bounded [OF assms] ring_fifo.push_full [OF assms, of b]
    ring_fifo.push_room [OF assms, of b] by (metis order_le_less)

lemma ring_push_two:
  assumes "ring_wf r" "length (ring_contents r) + 2 \<le> ring_n r"
  shows "ring_contents (snd (ring_push (snd (ring_push r a)) b)) = ring_contents r @ [a, b]"
    and "ring_wf (snd (ring_push (snd (ring_push r a)) b))"
    and "ring_n (snd (ring_push (snd (ring_push r a)) b)) = ring_n r"
  using assms by (simp_all add: ring_push_simps)

text \<open>One byte is written whole, or refused with nothing written when its expansion does not fit.\<close>

lemma output_byte_spec:
  assumes "ring_wf oq" and res: "output_byte s t oq b = (ok, s', oq')"
  defines "x \<equiv> opost_byte t (column s) b"
  shows "ring_wf oq' \<and> ring_n oq' = ring_n oq
    \<and> (ok \<longrightarrow> ring_contents oq' = ring_contents oq @ fst x \<and> s' = s\<lparr>column := snd x\<rparr>)
    \<and> (\<not> ok \<longrightarrow> oq' = oq \<and> s' = s \<and> ring_n oq < length (ring_contents oq) + length (fst x))"
proof -
  consider "b = byte_nl" "flag_set (c_oflag t) ONLCR" | "b = byte_nl" "\<not> flag_set (c_oflag t) ONLCR"
    | "b = byte_cr" | "b \<noteq> byte_nl" "b \<noteq> byte_cr" by blast
  then show ?thesis
  proof cases
    case 1
    then show ?thesis
      using res assms(1) ring_push_two [OF assms(1), of byte_cr byte_nl]
      by (auto simp: output_byte_def push_nl_def opost_byte_def x_def ring_space_def Let_def
          split: if_splits)
  next
    case 2
    then show ?thesis
      using res assms(1)
      by (cases rule: ring_push_cases [OF assms(1), of byte_nl])
        (auto simp: output_byte_def push_nl_def opost_byte_def x_def Let_def split: if_splits)
  next
    case 3
    show ?thesis
      using 3 res assms(1)
      by (cases rule: ring_push_cases [OF assms(1), of byte_nl];
          cases rule: ring_push_cases [OF assms(1), of byte_cr])
        (auto simp: output_byte_def push_cr_def opost_byte_def x_def split: if_splits)
  next
    case 4
    then show ?thesis
      using res assms(1)
      by (cases rule: ring_push_cases [OF assms(1), of b])
        (auto simp: output_byte_def opost_byte_def x_def split: if_splits)
  qed
qed

lemma output_loop_spec:
  assumes "ring_wf oq" "output_loop s t oq bs = (n, s', oq')"
  shows "n \<le> length bs \<and> ring_wf oq' \<and> ring_n oq' = ring_n oq
    \<and> ring_contents oq' = ring_contents oq @ fst (opost t (column s) (take n bs))
    \<and> s' = s\<lparr>column := snd (opost t (column s) (take n bs))\<rparr>
    \<and> (n < length bs \<longrightarrow>
        ring_n oq < length (ring_contents oq') + length (fst (opost_byte t (column s') (bs ! n))))"
  using assms
proof (induction bs arbitrary: s oq n)
  case Nil
  then show ?case by simp
next
  case (Cons b bs)
  obtain ok s1 oq1 where 1: "output_byte s t oq b = (ok, s1, oq1)" by (cases "output_byte s t oq b")
  note step = output_byte_spec [OF Cons.prems(1) 1]
  show ?case
  proof (cases ok)
    case False
    then show ?thesis using Cons.prems 1 step by simp
  next
    case True
    obtain m where m: "output_loop s1 t oq1 bs = (m, s', oq')" "n = Suc m"
      using Cons.prems(2) 1 True by (auto split: prod.splits)
    have w1: "ring_wf oq1" using step by blast
    show ?thesis
      using Cons.IH [OF w1 m(1)] step True m(2)
      by (auto simp: case_prod_beta simp del: length_ring_contents)
  qed
qed

text \<open>
  C38: output. With \<open>OPOST\<close> set, \<open>process_output\<close> consumes a prefix of the bytes, appends to
  the output queue exactly the post-processed form of that prefix, and stops before the end
  only at a byte whose expansion does not fit in the space that is left: no expansion is
  ever cut in two and no byte is skipped.
\<close>

theorem process_output_spec:
  assumes "flag_set (c_oflag t) OPOST" "ring_wf oq" "process_output s t oq bs = (n, s', oq')"
  shows "n \<le> length bs
    \<and> ring_contents oq' = ring_contents oq @ fst (opost t (column s) (take n bs))
    \<and> s' = s\<lparr>column := snd (opost t (column s) (take n bs))\<rparr>
    \<and> (n < length bs \<longrightarrow>
        ring_n oq < length (ring_contents oq') + length (fst (opost_byte t (column s') (bs ! n))))"
proof -
  have "output_loop s t oq bs = (n, s', oq')" using assms(1,3) by (simp add: process_output_def)
  then show ?thesis using output_loop_spec [OF assms(2)] by blast
qed

theorem process_output_spec_witness:
  "fst (process_output ldisc_new default_cooked (ring_new 4) [0x61, 0x0a, 0x0a]) = 2
   \<and> ring_contents (snd (snd (process_output ldisc_new default_cooked (ring_new 4) [0x61, 0x0a, 0x0a])))
       = [0x61, 0x0d, 0x0a]"
proof -
  obtain n s' oq' where r: "process_output ldisc_new default_cooked (ring_new 4) [0x61, 0x0a, 0x0a] = (n, s', oq')"
    by (cases "process_output ldisc_new default_cooked (ring_new 4) [0x61, 0x0a, 0x0a]")
  have "fst (process_output ldisc_new default_cooked (ring_new 4) [0x61, 0x0a, 0x0a]) = 2" by code_simp
  then have n: "n = 2" using r by simp
  show ?thesis
    using process_output_spec [OF _ _ r] n r
    by (simp add: termios_eval opost_byte_def)
qed

section \<open>No byte of a line is lost\<close>

text \<open>
  C39: conservation. Committing a line, by the line end or by the end-of-file character,
  moves bytes from the line buffer to the input queue without losing, duplicating or
  reordering one: what the queue and the buffer hold together is what they
  held before, with the newline added. A newline typed when the line buffer already holds
  \<open>MAX_CANON\<close> bytes is the exception: the buffer refuses it and it is not in the result.
\<close>

theorem line_commit_conserves_bytes:
  assumes "ldisc_wf s" "ring_wf iq"
    and "process_canonical s t iq oq b = (e, s', iq', oq')"
    and "\<not> cc_is t VERASE b" "\<not> cc_is t VKILL b"
    and "cc_is t VEOF b \<or> b = byte_nl"
  shows "e = LineCommitted
    \<and> ring_contents iq' @ ring_contents (cooked_buf s')
        = ring_contents iq @ take MAX_CANON (ring_contents (cooked_buf s) @ (if cc_is t VEOF b then [] else [byte_nl]))"
proof -
  let ?cb = "if cc_is t VEOF b then cooked_buf s else snd (ring_push (cooked_buf s) b)"
  have cb: "ring_wf (cooked_buf s)" "ring_n (cooked_buf s) = MAX_CANON"
    using assms(1) by (simp_all add: ldisc_wf_def)
  have w: "ring_wf ?cb" using cb by (simp add: ring_push_simps)
  have c: "ring_contents ?cb
      = take MAX_CANON (ring_contents (cooked_buf s) @ (if cc_is t VEOF b then [] else [byte_nl]))"
    using cb assms(6) ring_wf_le [OF cb(1)] by (auto simp: ring_push_simps)
  have d: "e = LineCommitted \<and> iq' = snd (snd (ring_drain_into ?cb iq))
      \<and> cooked_buf s' = fst (snd (ring_drain_into ?cb iq))"
    using assms(3-6) by (auto simp: process_canonical_def Let_def case_prod_beta)
  then have "ring_contents iq' @ ring_contents (cooked_buf s') = ring_contents iq @ ring_contents ?cb"
    using ring_drain_into_simps(6,7) [OF w assms(2)] by (metis append.assoc append_take_drop_id)
  then show ?thesis using d unfolding c by blast
qed

theorem line_commit_conserves_bytes_witness:
  "ring_contents (fst (snd (snd (process_canonical ldisc_new default_cooked (ring_new 4) (ring_new 4) byte_nl))))
     @ ring_contents (cooked_buf (fst (snd (process_canonical ldisc_new default_cooked (ring_new 4) (ring_new 4) byte_nl))))
   = [byte_nl]"
proof -
  obtain e s' iq' oq' where r:
      "process_canonical ldisc_new default_cooked (ring_new 4) (ring_new 4) byte_nl = (e, s', iq', oq')"
    by (cases "process_canonical ldisc_new default_cooked (ring_new 4) (ring_new 4) byte_nl")
  show ?thesis
    using line_commit_conserves_bytes [OF ldisc_wf_new _ r] r
    by (simp add: termios_eval ldisc_new_def)
qed

text \<open>
  C40: a lost line end. When the line buffer is full, a newline
  commits the line without the newline, although the source appends it first.
\<close>

theorem full_line_loses_its_newline:
  assumes "ldisc_wf s" "ring_wf iq" "length (ring_contents (cooked_buf s)) = MAX_CANON"
    and "ring_n iq \<ge> length (ring_contents iq) + MAX_CANON"
    and "\<not> cc_is t VERASE byte_nl" "\<not> cc_is t VKILL byte_nl" "\<not> cc_is t VEOF byte_nl"
  shows "fst (process_canonical s t iq oq byte_nl) = LineCommitted
    \<and> ring_contents (fst (snd (snd (process_canonical s t iq oq byte_nl))))
        = ring_contents iq @ ring_contents (cooked_buf s)"
proof -
  have cb: "ring_wf (cooked_buf s)" "ring_n (cooked_buf s) = MAX_CANON"
    using assms(1) by (simp_all add: ldisc_wf_def)
  have "snd (ring_push (cooked_buf s) byte_nl) = cooked_buf s"
    using ring_fifo.push_full [OF cb(1)] cb(2) assms(3) by simp
  then show ?thesis
    using assms(3-) ring_drain_into_simps(7) [OF cb(1) assms(2)]
    by (simp add: process_canonical_def Let_def case_prod_beta)
qed

theorem full_line_loses_its_newline_witness:
  "fst (process_canonical (ldisc_new\<lparr>cooked_buf :=
       \<lparr>r_buf = replicate MAX_CANON 0x61, r_head = 0, r_tail = 0, r_len = MAX_CANON\<rparr>\<rparr>)
       default_cooked (ring_new 300) (ring_new 4) byte_nl) = LineCommitted
   \<and> ring_contents (fst (snd (snd (process_canonical (ldisc_new\<lparr>cooked_buf :=
       \<lparr>r_buf = replicate MAX_CANON 0x61, r_head = 0, r_tail = 0, r_len = MAX_CANON\<rparr>\<rparr>)
       default_cooked (ring_new 300) (ring_new 4) byte_nl)))) = replicate MAX_CANON 0x61"
proof -
  let ?r = "\<lparr>r_buf = replicate MAX_CANON (0x61 :: u8), r_head = 0, r_tail = 0, r_len = MAX_CANON\<rparr>"
  have c: "ring_contents ?r = replicate MAX_CANON 0x61"
    by (rule nth_equalityI) (simp_all add: ring_contents_def)
  have w: "ldisc_wf (ldisc_new\<lparr>cooked_buf := ?r\<rparr>)"
    by (simp add: ldisc_wf_def ring_wf_def)
  have cc: "\<not> cc_is default_cooked VERASE byte_nl" "\<not> cc_is default_cooked VKILL byte_nl"
      "\<not> cc_is default_cooked VEOF byte_nl"
    by (simp_all add: termios_eval)
  show ?thesis
    using full_line_loses_its_newline [OF w, of "ring_new 300" default_cooked "ring_new 4"] c cc
    by (simp add: MAX_CANON_def)
qed

section \<open>Window size\<close>

text \<open>
  The window size survives its packing into one atomic word, and every word is the
  packing of the size it unpacks to.
\<close>

theorem winsize_round_trip: "from_u64 (to_u64 w) = w \<and> to_u64 (from_u64 v) = v"
proof -
  have m: "(0xffff :: u64) = mask 16" by (simp add: mask_eq_exp_minus_1)
  have 1: "from_u64 (to_u64 w) = w"
    unfolding from_u64_def to_u64_def m
    by (rule winsize.equality; simp; rule bit_word_eqI; auto simp: bit_simps dest: bit_imp_le_length)
  have "bit (to_u64 (from_u64 v)) n = bit v n" if "n < 64" for n
  proof -
    consider "n < 16" | "16 \<le> n" "n < 32" | "32 \<le> n" "n < 48" | "48 \<le> n" by linarith
    then show ?thesis
      using that unfolding from_u64_def to_u64_def m by cases (auto simp: bit_simps)
  qed
  then have 2: "to_u64 (from_u64 v) = v" by (intro bit_word_eqI) simp
  show ?thesis using 1 2 ..
qed

end
