(* ===== verification/Timer_Index.thy ===== *)
theory Timer_Index
  imports Tx_Prelude
begin

text \<open>
  The open-addressed key index of the timer heap (\<open>key_slots\<close> of
  \<open>tx-time/src/timer/min_heap.rs\<close>): linear probing from the home cell of a key, and
  removal by shifting the rest of the probe cluster back. The index maps a timer key to
  the number of its slot.

  The loops of the source run until they meet an empty cell or the key. The model gives
  them one step for each cell of the table: after that many steps the loop has visited
  every cell and never stops, which is the value \<^term>\<open>None\<close>. The lemmas below show that on
  a table with an empty cell it is never reached.
\<close>

section \<open>Operations\<close>

type_synonym timer_key = u64

record key_slot =
  ks_key :: timer_key
  ks_slot :: nat

type_synonym key_table = "key_slot option list"

definition timer_hash :: "timer_key \<Rightarrow> nat" where
  "timer_hash key =
     (let raw = key XOR drop_bit 33 key;
          raw = raw * 0xff51afd7ed558ccd;
          raw = raw XOR drop_bit 33 raw;
          raw = raw * 0xc4ceb9fe1a85ec53
      in unat (raw XOR drop_bit 33 raw))"

abbreviation home_cell :: "nat \<Rightarrow> timer_key \<Rightarrow> nat" where
  "home_cell n key \<equiv> timer_hash key mod n"

fun key_probe :: "key_table \<Rightarrow> timer_key \<Rightarrow> nat \<Rightarrow> nat \<Rightarrow> nat option option" where
  "key_probe ks key 0 index = None"
| "key_probe ks key (Suc steps) index =
     (case ks ! index of
        Some entry \<Rightarrow>
          if ks_key entry = key then Some (Some index)
          else key_probe ks key steps ((index + 1) mod length ks)
      | None \<Rightarrow> Some None)"

definition key_slot_index :: "key_table \<Rightarrow> timer_key \<Rightarrow> nat option option" where
  "key_slot_index ks key =
     (if ks = [] then Some None
      else key_probe ks key (length ks) (timer_hash key mod length ks))"

fun insert_probe :: "key_table \<Rightarrow> timer_key \<Rightarrow> nat \<Rightarrow> nat \<Rightarrow> nat \<Rightarrow> key_table option" where
  "insert_probe ks key slot 0 index = None"
| "insert_probe ks key slot (Suc steps) index =
     (if ks ! index = None then Some (ks[index := Some \<lparr>ks_key = key, ks_slot = slot\<rparr>])
      else insert_probe ks key slot steps ((index + 1) mod length ks))"

text \<open>On an empty table the remainder by its length panics.\<close>

definition insert_key_slot_into :: "key_table \<Rightarrow> timer_key \<Rightarrow> nat \<Rightarrow> key_table option" where
  "insert_key_slot_into ks key slot =
     (if ks = [] then None
      else insert_probe ks key slot (length ks) (timer_hash key mod length ks))"

definition probe_distance :: "nat \<Rightarrow> nat \<Rightarrow> nat \<Rightarrow> nat" where
  "probe_distance home position len =
     (if position \<ge> home then position - home else len - (home - position))"

fun shift_loop :: "key_table \<Rightarrow> nat \<Rightarrow> nat \<Rightarrow> nat \<Rightarrow> (key_table \<times> nat) option" where
  "shift_loop ks 0 hole scan = None"
| "shift_loop ks (Suc steps) hole scan =
     (case ks ! scan of
        None \<Rightarrow> Some (ks, hole)
      | Some entry \<Rightarrow>
          let home = timer_hash (ks_key entry) mod length ks in
          if probe_distance home hole (length ks) < probe_distance home scan (length ks)
          then shift_loop (ks[hole := Some entry]) steps scan ((scan + 1) mod length ks)
          else shift_loop ks steps hole ((scan + 1) mod length ks))"

definition remove_key_slot :: "key_table \<Rightarrow> timer_key \<Rightarrow> (nat option \<times> key_table) option" where
  "remove_key_slot ks key =
     (case key_slot_index ks key of
        None \<Rightarrow> None
      | Some None \<Rightarrow> Some (None, ks)
      | Some (Some hole) \<Rightarrow>
          (case ks ! hole of
             None \<Rightarrow> Some (None, ks)
           | Some removed \<Rightarrow>
               (case shift_loop ks (length ks) hole ((hole + 1) mod length ks) of
                  None \<Rightarrow> None
                | Some (ks', hole') \<Rightarrow> Some (Some (ks_slot removed), ks'[hole' := None]))))"

definition slot_index :: "key_table \<Rightarrow> timer_key \<Rightarrow> nat option option" where
  "slot_index ks key =
     (case key_slot_index ks key of
        None \<Rightarrow> None
      | Some None \<Rightarrow> Some None
      | Some (Some i) \<Rightarrow> Some (map_option ks_slot (ks ! i)))"

section \<open>Cyclic distance\<close>

lemma probe_distance_less: "h < n \<Longrightarrow> i < n \<Longrightarrow> probe_distance h i n < n"
  by (auto simp: probe_distance_def)

lemma probe_distance_reaches: "h < n \<Longrightarrow> i < n \<Longrightarrow> (h + probe_distance h i n) mod n = i"
  by (auto simp: probe_distance_def)

lemma probe_distance_unique:
  assumes "h < n" "d < n" "(h + d) mod n = i"
  shows "probe_distance h i n = d"
proof -
  have "i < n" using assms by auto
  then have "(h + probe_distance h i n) mod n = (h + d) mod n"
    using assms probe_distance_reaches by simp
  then show ?thesis
    using mod_offset_inj [of "probe_distance h i n" n d h] probe_distance_less [OF assms(1) \<open>i < n\<close>] assms(2)
    by simp
qed

lemma probe_distance_eq_0_iff: "h < n \<Longrightarrow> i < n \<Longrightarrow> probe_distance h i n = 0 \<longleftrightarrow> h = i"
  by (auto simp: probe_distance_def)

text \<open>A cell on the way from \<open>h\<close> to \<open>i\<close> splits the distance.\<close>

lemma probe_distance_split:
  assumes "h < n" "m < n" "i < n" "probe_distance h m n \<le> probe_distance h i n"
  shows "probe_distance m i n = probe_distance h i n - probe_distance h m n"
proof (rule probe_distance_unique)
  show "m < n" by fact
  show "probe_distance h i n - probe_distance h m n < n"
    using probe_distance_less [OF assms(1,3)] by simp
  have "(m + (probe_distance h i n - probe_distance h m n)) mod n
      = ((h + probe_distance h m n) mod n + (probe_distance h i n - probe_distance h m n)) mod n"
    using assms by (simp add: probe_distance_reaches)
  also have "\<dots> = (h + probe_distance h m n + (probe_distance h i n - probe_distance h m n)) mod n"
    by (rule mod_add_left_eq)
  also have "\<dots> = i" using assms by (simp add: probe_distance_reaches)
  finally show "(m + (probe_distance h i n - probe_distance h m n)) mod n = i" .
qed

lemma probe_distance_Suc:
  assumes "h < n" "i < n" "Suc (probe_distance h i n) < n"
  shows "probe_distance h ((i + 1) mod n) n = Suc (probe_distance h i n)"
proof (rule probe_distance_unique)
  have "(h + Suc (probe_distance h i n)) mod n = ((h + probe_distance h i n) mod n + 1) mod n"
    by (simp add: mod_Suc_eq)
  then show "(h + Suc (probe_distance h i n)) mod n = (i + 1) mod n"
    using assms by (simp add: probe_distance_reaches)
qed (use assms in simp_all)

lemma probe_distance_step:
  assumes "i < n" "z < n" "i \<noteq> z"
  shows "probe_distance ((i + 1) mod n) z n = probe_distance i z n - 1"
proof -
  have n: "1 < n" using assms by linarith
  have "0 < probe_distance i z n" using assms probe_distance_eq_0_iff by (metis gr0I)
  moreover have 1: "probe_distance i ((i + 1) mod n) n = 1"
    using assms n by (intro probe_distance_unique) auto
  ultimately show ?thesis
    using probe_distance_split [of i n "(i + 1) mod n" z] assms n by simp
qed

section \<open>Invariant\<close>

text \<open>
  \<open>path_full ks h i\<close>: every cell from \<open>h\<close> up to, but not including, \<open>i\<close> is occupied, so a
  probe that starts at \<open>h\<close> reaches \<open>i\<close>.
\<close>

definition path_full :: "key_table \<Rightarrow> nat \<Rightarrow> nat \<Rightarrow> bool" where
  "path_full ks h i \<longleftrightarrow>
     (\<forall>d < probe_distance h i (length ks). ks ! ((h + d) mod length ks) \<noteq> None)"

definition keys_distinct :: "key_table \<Rightarrow> bool" where
  "keys_distinct ks \<longleftrightarrow>
     (\<forall>i j e f. i < length ks \<and> j < length ks \<and> ks ! i = Some e \<and> ks ! j = Some f
        \<and> ks_key e = ks_key f \<longrightarrow> i = j)"

lemma keys_distinctD:
  "keys_distinct ks \<Longrightarrow> i < length ks \<Longrightarrow> j < length ks \<Longrightarrow> ks ! i = Some e \<Longrightarrow> ks ! j = Some f
    \<Longrightarrow> ks_key e = ks_key f \<Longrightarrow> i = j"
  unfolding keys_distinct_def by blast

definition table_ok :: "key_table \<Rightarrow> bool" where
  "table_ok ks \<longleftrightarrow> keys_distinct ks
     \<and> (\<forall>i e. i < length ks \<and> ks ! i = Some e \<longrightarrow>
          path_full ks (home_cell (length ks) (ks_key e)) i)"

text \<open>The entries of the table, as a set of key and slot pairs.\<close>

definition table_entries :: "key_table \<Rightarrow> (timer_key \<times> nat) set" where
  "table_entries ks = {(ks_key e, ks_slot e) | e. Some e \<in> set ks}"

lemma table_entries_nth:
  "(k, v) \<in> table_entries ks \<longleftrightarrow>
     (\<exists>i < length ks. ks ! i = Some \<lparr>ks_key = k, ks_slot = v\<rparr>)"
proof -
  have "(\<exists>e. (k, v) = (ks_key e, ks_slot e) \<and> Some e \<in> set ks)
      \<longleftrightarrow> Some \<lparr>ks_key = k, ks_slot = v\<rparr> \<in> set ks"
    by (auto intro: exI [where x = "\<lparr>ks_key = k, ks_slot = v\<rparr>"]) (metis key_slot.surjective unit.exhaust)
  then show ?thesis by (auto simp: table_entries_def in_set_conv_nth)
qed

lemma table_entries_key_unique:
  "keys_distinct ks \<Longrightarrow> (k, v) \<in> table_entries ks \<Longrightarrow> (k, w) \<in> table_entries ks \<Longrightarrow> v = w"
  unfolding keys_distinct_def table_entries_nth by (metis key_slot.select_convs option.inject)

section \<open>Probing\<close>

text \<open>
  A probe that passes \<open>m\<close> occupied cells with other keys and then meets the key or an empty
  cell returns there, given one step more than \<open>m\<close>.
\<close>

lemma key_probe_passes:
  assumes "ks \<noteq> []" "m < steps"
    and "\<And>d. d < m \<Longrightarrow> \<exists>e. ks ! ((h + d) mod length ks) = Some e \<and> ks_key e \<noteq> key"
    and "ks ! ((h + m) mod length ks) = c" "\<And>e. c = Some e \<Longrightarrow> ks_key e = key"
  shows "key_probe ks key steps (h mod length ks)
    = Some (if c = None then None else Some ((h + m) mod length ks))"
  using assms(2-5)
proof (induction m arbitrary: h steps)
  case 0
  then obtain n where "steps = Suc n" by (cases steps) auto
  then show ?case using 0 by (cases c) auto
next
  case (Suc m)
  then obtain n where n: "steps = Suc n" "m < n" by (cases steps) auto
  obtain e where e: "ks ! (h mod length ks) = Some e" "ks_key e \<noteq> key"
    using Suc.prems(2) [of 0] by auto
  have "key_probe ks key n (Suc h mod length ks)
      = Some (if c = None then None else Some ((Suc h + m) mod length ks))"
    by (rule Suc.IH [OF n(2)]) (use Suc.prems(2) [of "Suc _"] Suc.prems(3,4) in auto)
  moreover have "key_probe ks key steps (h mod length ks) = key_probe ks key n (Suc h mod length ks)"
    using e n by (simp add: mod_Suc_eq)
  ultimately show ?case by simp
qed

text \<open>From any home cell an empty cell is reached over occupied cells only.\<close>

lemma first_empty_cell:
  assumes "h < length ks" "z < length ks" "ks ! z = None"
  obtains m where "m < length ks" "ks ! ((h + m) mod length ks) = None"
    "\<And>d. d < m \<Longrightarrow> ks ! ((h + d) mod length ks) \<noteq> None"
proof -
  let ?P = "\<lambda>d. ks ! ((h + d) mod length ks) = None"
  have z: "?P (probe_distance h z (length ks))" using assms by (simp add: probe_distance_reaches)
  define m where "m = (LEAST d. ?P d)"
  have "?P m" unfolding m_def by (rule LeastI) (rule z)
  moreover have "m \<le> probe_distance h z (length ks)" unfolding m_def by (rule Least_le) (rule z)
  moreover have "\<not> ?P d" if "d < m" for d using that not_less_Least unfolding m_def by blast
  ultimately show thesis using that probe_distance_less [OF assms(1,2)] by (metis le_less_trans)
qed

lemma key_slot_index_present:
  assumes "table_ok ks" "i < length ks" "ks ! i = Some e"
  shows "key_slot_index ks (ks_key e) = Some (Some i)"
proof -
  let ?n = "length ks" and ?h = "home_cell (length ks) (ks_key e)"
  let ?m = "probe_distance ?h i ?n"
  have n: "0 < ?n" using assms(2) by linarith
  have h: "?h < ?n" using n by simp
  have kd: "keys_distinct ks" using assms(1) by (simp add: table_ok_def)
  have r: "(?h + ?m) mod ?n = i" using probe_distance_reaches h assms(2) by blast
  have "key_probe ks (ks_key e) ?n (?h mod ?n)
      = Some (if Some e = None then None else Some ((?h + ?m) mod ?n))"
  proof (rule key_probe_passes)
    show "ks \<noteq> []" using n by auto
    show "?m < ?n" using probe_distance_less h assms(2) by blast
    show "ks ! ((?h + ?m) mod ?n) = Some e" using r assms(3) by simp
    fix d assume d: "d < ?m"
    have dn: "d < ?n" using d probe_distance_less [OF h assms(2)] by linarith
    have "path_full ks ?h i" using assms unfolding table_ok_def by blast
    then obtain f where f: "ks ! ((?h + d) mod ?n) = Some f" using d unfolding path_full_def by blast
    have "(?h + d) mod ?n \<noteq> i"
    proof
      assume "(?h + d) mod ?n = i"
      then have "?m = d" by (rule probe_distance_unique [OF h dn])
      then show False using d by simp
    qed
    then have "ks_key f \<noteq> ks_key e"
      using keys_distinctD [OF kd mod_less_divisor [OF n] assms(2) f assms(3)] by blast
    then show "\<exists>g. ks ! ((?h + d) mod ?n) = Some g \<and> ks_key g \<noteq> ks_key e" using f by blast
  qed simp
  then show ?thesis using n r by (simp add: key_slot_index_def)
qed

lemma key_slot_index_absent:
  assumes "z < length ks" "ks ! z = None"
    and "\<And>i e. i < length ks \<Longrightarrow> ks ! i = Some e \<Longrightarrow> ks_key e \<noteq> key"
  shows "key_slot_index ks key = Some None"
proof -
  let ?n = "length ks" and ?h = "home_cell (length ks) key"
  have n: "0 < ?n" using assms(1) by linarith
  then have h: "?h < ?n" by simp
  obtain m where m: "m < ?n" "ks ! ((?h + m) mod ?n) = None"
      "\<And>d. d < m \<Longrightarrow> ks ! ((?h + d) mod ?n) \<noteq> None"
    using first_empty_cell [OF h assms(1,2)] by blast
  have "key_probe ks key ?n (?h mod ?n) = Some (if (None :: key_slot option) = None then None else Some ((?h + m) mod ?n))"
  proof (rule key_probe_passes [OF _ m(1) _ m(2)])
    fix d assume "d < m"
    then show "\<exists>e. ks ! ((?h + d) mod ?n) = Some e \<and> ks_key e \<noteq> key"
      using m(3) assms(3) n by (metis mod_less_divisor not_None_eq)
  qed (use n in auto)
  then show ?thesis using n by (simp add: key_slot_index_def)
qed

lemma insert_probe_first_empty:
  assumes "ks \<noteq> []" "m < steps" "ks ! ((h + m) mod length ks) = None"
    and "\<And>d. d < m \<Longrightarrow> ks ! ((h + d) mod length ks) \<noteq> None"
  shows "insert_probe ks key slot steps (h mod length ks)
    = Some (ks[(h + m) mod length ks := Some \<lparr>ks_key = key, ks_slot = slot\<rparr>])"
  using assms(2-4)
proof (induction m arbitrary: h steps)
  case 0
  then show ?case by (cases steps) auto
next
  case (Suc m)
  then obtain n where n: "steps = Suc n" "m < n" by (cases steps) auto
  have "insert_probe ks key slot n (Suc h mod length ks)
      = Some (ks[(Suc h + m) mod length ks := Some \<lparr>ks_key = key, ks_slot = slot\<rparr>])"
    by (rule Suc.IH [OF n(2)]) (use Suc.prems(2) Suc.prems(3) [of "Suc _"] in auto)
  then show ?case using Suc.prems(3) [of 0] n by (auto simp: mod_Suc_eq)
qed

section \<open>Insertion\<close>

lemma path_full_mono:
  assumes "path_full ks h i" "length ks' = length ks"
    and "\<And>c. c < length ks \<Longrightarrow> ks ! c \<noteq> None \<Longrightarrow> ks' ! c \<noteq> None"
  shows "path_full ks' h i"
proof -
  have "ks' ! ((h + d) mod length ks') \<noteq> None" if "d < probe_distance h i (length ks')" for d
  proof (cases "ks = []")
    case False
    then have "(h + d) mod length ks < length ks" by simp
    then show ?thesis using assms that unfolding path_full_def by metis
  qed (use assms that in \<open>simp add: path_full_def\<close>)
  then show ?thesis by (simp add: path_full_def)
qed

lemma path_full_fill: "path_full ks h i \<Longrightarrow> path_full (ks[j := Some e]) h i"
  by (erule path_full_mono) (simp_all add: nth_list_update split: if_splits, metis nth_list_update_eq nth_list_update_neq)

lemma table_okD:
  assumes "table_ok ks"
  shows "keys_distinct ks"
    and "i < length ks \<Longrightarrow> ks ! i = Some e \<Longrightarrow> path_full ks (home_cell (length ks) (ks_key e)) i"
  using assms unfolding table_ok_def by blast+

lemma table_okI:
  assumes "keys_distinct ks"
    and "\<And>i e. i < length ks \<Longrightarrow> ks ! i = Some e \<Longrightarrow> path_full ks (home_cell (length ks) (ks_key e)) i"
  shows "table_ok ks"
  using assms unfolding table_ok_def by blast

lemma table_entries_fill:
  assumes "i < length ks" "ks ! i = None"
  shows "table_entries (ks[i := Some e]) = insert (ks_key e, ks_slot e) (table_entries ks)"
proof -
  have "Some f \<in> set (ks[i := Some e]) \<longleftrightarrow> f = e \<or> Some f \<in> set ks" for f
    unfolding in_set_conv_nth length_list_update
    using assms by (metis nth_list_update option.distinct(1) option.inject)
  then show ?thesis by (auto simp: table_entries_def)
qed

lemma keys_distinct_fill:
  assumes "keys_distinct ks" "\<And>j f. j < length ks \<Longrightarrow> ks ! j = Some f \<Longrightarrow> ks_key f \<noteq> ks_key e"
  shows "keys_distinct (ks[i := Some e])"
  unfolding keys_distinct_def
proof (intro allI impI)
  fix a b f g
  let ?ks = "ks[i := Some e]"
  assume *: "a < length ?ks \<and> b < length ?ks \<and> ?ks ! a = Some f \<and> ?ks ! b = Some g \<and> ks_key f = ks_key g"
  show "a = b"
  proof (cases "a = i \<or> b = i")
    case True
    then show ?thesis using * assms(2) by (metis length_list_update nth_list_update option.inject)
  next
    case False
    then show ?thesis using * keys_distinctD [OF assms(1), of a b f g] by simp
  qed
qed

lemma insert_key_slot_into_ok:
  assumes "table_ok ks" "None \<in> set ks"
    and absent: "\<And>i e. i < length ks \<Longrightarrow> ks ! i = Some e \<Longrightarrow> ks_key e \<noteq> key"
  obtains i where "i < length ks" "ks ! i = None"
    "insert_key_slot_into ks key slot = Some (ks[i := Some \<lparr>ks_key = key, ks_slot = slot\<rparr>])"
    "table_ok (ks[i := Some \<lparr>ks_key = key, ks_slot = slot\<rparr>])"
proof -
  let ?n = "length ks" and ?h = "home_cell (length ks) key"
  let ?e = "\<lparr>ks_key = key, ks_slot = slot\<rparr>"
  obtain z where z: "z < ?n" "ks ! z = None" using assms(2) by (metis in_set_conv_nth)
  have n: "0 < ?n" using z by linarith
  then have h: "?h < ?n" by simp
  obtain m where m: "m < ?n" "ks ! ((?h + m) mod ?n) = None"
      "\<And>d. d < m \<Longrightarrow> ks ! ((?h + d) mod ?n) \<noteq> None"
    using first_empty_cell [OF h z] by blast
  define i where "i = (?h + m) mod ?n"
  let ?ks = "ks[i := Some ?e]"
  have i: "i < ?n" using n by (simp add: i_def)
  have "insert_probe ks key slot ?n (?h mod ?n) = Some ?ks"
    unfolding i_def by (rule insert_probe_first_empty [OF _ m]) (use n in auto)
  then have ins: "insert_key_slot_into ks key slot = Some ?ks"
    using n by (simp add: insert_key_slot_into_def)
  have full: "path_full ks ?h i"
    unfolding path_full_def i_def using probe_distance_unique [OF h m(1) refl] m(3) by simp
  have "table_ok ?ks"
  proof (rule table_okI)
    show "keys_distinct ?ks"
      using keys_distinct_fill [OF table_okD(1) [OF assms(1)], of ?e] absent by simp
    fix j f
    assume j: "j < length ?ks" "?ks ! j = Some f"
    show "path_full ?ks (home_cell (length ?ks) (ks_key f)) j"
    proof (cases "j = i")
      case True
      then show ?thesis using j path_full_fill [OF full] i by auto
    next
      case False
      then show ?thesis using j table_okD(2) [OF assms(1), of j f] path_full_fill by simp
    qed
  qed
  with that i ins m(2) show thesis by (simp add: i_def)
qed

section \<open>Removal by backward shift\<close>

text \<open>
  The state of the shift loop: the hole holds an entry that no longer counts, and the cells
  from the hole up to the scan position are occupied by entries that may stay where they are,
  because none of their probes crosses the hole.
\<close>

definition shift_inv :: "key_table \<Rightarrow> nat \<Rightarrow> nat \<Rightarrow> nat \<Rightarrow> bool" where
  "shift_inv ks hole scan z \<longleftrightarrow>
     (let n = length ks in
        hole < n \<and> scan < n \<and> z < n \<and> ks ! z = None \<and> ks ! hole \<noteq> None
        \<and> 0 < probe_distance hole scan n \<and> probe_distance hole scan n \<le> probe_distance hole z n
        \<and> (\<forall>i e. i < n \<and> ks ! i = Some e \<and> i \<noteq> hole \<longrightarrow> path_full ks (home_cell n (ks_key e)) i)
        \<and> (\<forall>i e. i < n \<and> ks ! i = Some e \<and> 0 < probe_distance hole i n
             \<and> probe_distance hole i n < probe_distance hole scan n
             \<longrightarrow> probe_distance (home_cell n (ks_key e)) i n \<le> probe_distance (home_cell n (ks_key e)) hole n)
        \<and> (\<forall>i j e f. i < n \<and> j < n \<and> i \<noteq> hole \<and> j \<noteq> hole \<and> ks ! i = Some e \<and> ks ! j = Some f
             \<and> ks_key e = ks_key f \<longrightarrow> i = j))"

lemma shift_invI:
  assumes "n = length ks" "hole < n" "scan < n" "z < n" "ks ! z = None" "ks ! hole \<noteq> None"
    "0 < probe_distance hole scan n" "probe_distance hole scan n \<le> probe_distance hole z n"
    and "\<And>i e. i < n \<Longrightarrow> ks ! i = Some e \<Longrightarrow> i \<noteq> hole \<Longrightarrow> path_full ks (home_cell n (ks_key e)) i"
    and "\<And>i e. i < n \<Longrightarrow> ks ! i = Some e \<Longrightarrow> 0 < probe_distance hole i n
      \<Longrightarrow> probe_distance hole i n < probe_distance hole scan n
      \<Longrightarrow> probe_distance (home_cell n (ks_key e)) i n \<le> probe_distance (home_cell n (ks_key e)) hole n"
    and "\<And>i j e f. i < n \<Longrightarrow> j < n \<Longrightarrow> i \<noteq> hole \<Longrightarrow> j \<noteq> hole \<Longrightarrow> ks ! i = Some e \<Longrightarrow> ks ! j = Some f
      \<Longrightarrow> ks_key e = ks_key f \<Longrightarrow> i = j"
  shows "shift_inv ks hole scan z"
  unfolding shift_inv_def Let_def assms(1) [symmetric]
  by (intro conjI allI impI; (elim conjE)?; rule assms(2-); assumption?)

text \<open>The entries of the cells other than the hole.\<close>

definition other_entries :: "key_table \<Rightarrow> nat \<Rightarrow> key_slot set" where
  "other_entries ks hole = {e. \<exists>i < length ks. i \<noteq> hole \<and> ks ! i = Some e}"

lemma other_entriesI: "i < length ks \<Longrightarrow> i \<noteq> hole \<Longrightarrow> ks ! i = Some e \<Longrightarrow> e \<in> other_entries ks hole"
  unfolding other_entries_def by blast

lemma shift_inv_keep:
  assumes "shift_inv ks hole scan z" "ks ! scan = Some e"
    and "\<not> probe_distance (home_cell (length ks) (ks_key e)) hole (length ks)
          < probe_distance (home_cell (length ks) (ks_key e)) scan (length ks)"
  shows "shift_inv ks hole ((scan + 1) mod length ks) z"
proof -
  let ?n = "length ks" and ?s = "(scan + 1) mod length ks"
  have b: "hole < ?n" "scan < ?n" "z < ?n" "ks ! z = None"
    and d: "probe_distance hole scan ?n \<le> probe_distance hole z ?n"
    using assms(1) unfolding shift_inv_def Let_def by blast+
  have "scan \<noteq> z" using assms(2) b(4) by auto
  then have lt: "probe_distance hole scan ?n < probe_distance hole z ?n"
    using d b probe_distance_reaches by (metis le_neq_implies_less)
  then have S: "probe_distance hole ?s ?n = Suc (probe_distance hole scan ?n)"
    using b probe_distance_less [OF b(1,3)] by (intro probe_distance_Suc) simp_all
  have scanned: "i = scan \<or> probe_distance hole i ?n < probe_distance hole scan ?n"
    if "i < ?n" "probe_distance hole i ?n < probe_distance hole ?s ?n" for i
    using that S b probe_distance_reaches by (metis less_SucE)
  have "0 < ?n" using b(1) by linarith
  then have "?s < ?n" by simp
  moreover have "probe_distance (home_cell ?n (ks_key f)) i ?n \<le> probe_distance (home_cell ?n (ks_key f)) hole ?n"
    if "i < ?n" "ks ! i = Some f" "0 < probe_distance hole i ?n"
      "probe_distance hole i ?n < probe_distance hole ?s ?n" for i f
    using scanned [OF that(1,4)]
  proof
    assume "i = scan"
    then show ?thesis using assms(2,3) that(2) by simp
  next
    assume "probe_distance hole i ?n < probe_distance hole scan ?n"
    then show ?thesis using assms(1) that unfolding shift_inv_def Let_def by blast
  qed
  ultimately show ?thesis
    using assms(1) lt S unfolding shift_inv_def Let_def by simp
qed

lemma shift_inv_move:
  assumes "shift_inv ks hole scan z" "ks ! scan = Some e"
    and "probe_distance (home_cell (length ks) (ks_key e)) hole (length ks)
          < probe_distance (home_cell (length ks) (ks_key e)) scan (length ks)"
  shows "shift_inv (ks[hole := Some e]) scan ((scan + 1) mod length ks) z"
    and "other_entries (ks[hole := Some e]) scan = other_entries ks hole"
proof -
  let ?n = "length ks" and ?s = "(scan + 1) mod length ks" and ?ks = "ks[hole := Some e]"
  have b: "hole < ?n" "scan < ?n" "z < ?n" "ks ! z = None" "ks ! hole \<noteq> None"
    and full: "\<And>i f. i < ?n \<Longrightarrow> ks ! i = Some f \<Longrightarrow> i \<noteq> hole \<Longrightarrow> path_full ks (home_cell ?n (ks_key f)) i"
    and dist: "\<And>i j f g. i < ?n \<Longrightarrow> j < ?n \<Longrightarrow> i \<noteq> hole \<Longrightarrow> j \<noteq> hole \<Longrightarrow> ks ! i = Some f
      \<Longrightarrow> ks ! j = Some g \<Longrightarrow> ks_key f = ks_key g \<Longrightarrow> i = j"
    and d: "0 < probe_distance hole scan ?n"
    using assms(1) unfolding shift_inv_def Let_def by blast+
  have ne: "scan \<noteq> z" "hole \<noteq> z" "hole \<noteq> scan"
    using assms(2) b d by (auto simp: probe_distance_def)
  then have n: "1 < ?n" using b by linarith
  have s1: "probe_distance scan ?s ?n = 1"
    using b n by (intro probe_distance_unique) auto
  have z1: "0 < probe_distance scan z ?n"
    using probe_distance_eq_0_iff [OF b(2,3)] ne by simp
  have grow: "path_full ?ks h i" if "path_full ks h i" for h i
    using that by (rule path_full_fill)
  have moved: "path_full ks (home_cell ?n (ks_key e)) hole"
    using full [OF b(2) assms(2) ne(3) [symmetric]] assms(3) unfolding path_full_def
    by (meson less_trans)
  show "shift_inv ?ks scan ?s z"
  proof (rule shift_invI [where n = ?n])
    show "path_full ?ks (home_cell ?n (ks_key f)) i" if "i < ?n" "?ks ! i = Some f" "i \<noteq> scan" for i f
    proof (cases "i = hole")
      case True
      then show ?thesis using that grow [OF moved] b by simp
    next
      case False
      then show ?thesis using that grow [OF full [of i f]] by simp
    qed
    show "i = j" if "i < ?n" "j < ?n" "i \<noteq> scan" "j \<noteq> scan" "?ks ! i = Some f" "?ks ! j = Some g"
        "ks_key f = ks_key g" for i j f g
    proof -
      let ?from = "\<lambda>i. if i = hole then scan else i"
      have "ks ! ?from i = Some f" "ks ! ?from j = Some g"
        using that assms(2) b(1) by (auto split: if_splits)
      then have "?from i = ?from j" using that b ne by (intro dist [of _ _ f g]) auto
      then show "i = j" using that(3,4) by (metis (full_types))
    qed
    show "?s < ?n" using n by (intro mod_less_divisor) linarith
    show "0 < probe_distance scan ?s ?n" "probe_distance scan ?s ?n \<le> probe_distance scan z ?n"
      using z1 unfolding s1 by simp_all
    show "probe_distance (home_cell ?n (ks_key f)) i ?n \<le> probe_distance (home_cell ?n (ks_key f)) scan ?n"
      if "0 < probe_distance scan i ?n" "probe_distance scan i ?n < probe_distance scan ?s ?n" for i f
      using that unfolding s1 by linarith
    show "?ks ! z = None" "?ks ! scan \<noteq> None" using b(4) ne assms(2) by simp_all
  qed (use b in simp_all)
  show "other_entries ?ks scan = other_entries ks hole"
  proof (intro set_eqI iffI)
    fix f
    assume "f \<in> other_entries ?ks scan"
    then obtain i where i: "i < ?n" "i \<noteq> scan" "?ks ! i = Some f"
      unfolding other_entries_def by auto
    then show "f \<in> other_entries ks hole"
      using assms(2) b ne(3) by (cases "i = hole") (auto intro: other_entriesI)
  next
    fix f
    assume "f \<in> other_entries ks hole"
    then obtain i where i: "i < ?n" "i \<noteq> hole" "ks ! i = Some f"
      unfolding other_entries_def by auto
    then show "f \<in> other_entries ?ks scan"
      using assms(2) b ne(3) by (cases "i = scan") (auto intro: other_entriesI [of hole] other_entriesI [of i])
  qed
qed

lemma shift_inv_exit:
  assumes "shift_inv ks hole scan z" "ks ! scan = None"
  shows "table_ok (ks[hole := None])"
proof -
  let ?n = "length ks" and ?ks = "ks[hole := None]"
  have b: "hole < ?n" "scan < ?n"
    and full: "\<And>i f. i < ?n \<Longrightarrow> ks ! i = Some f \<Longrightarrow> i \<noteq> hole \<Longrightarrow> path_full ks (home_cell ?n (ks_key f)) i"
    and stay: "\<And>i f. i < ?n \<Longrightarrow> ks ! i = Some f \<Longrightarrow> 0 < probe_distance hole i ?n
      \<Longrightarrow> probe_distance hole i ?n < probe_distance hole scan ?n
      \<Longrightarrow> probe_distance (home_cell ?n (ks_key f)) i ?n \<le> probe_distance (home_cell ?n (ks_key f)) hole ?n"
    using assms(1) unfolding shift_inv_def Let_def by blast+
  have path: "path_full ?ks (home_cell ?n (ks_key f)) i" if i: "i < ?n" "ks ! i = Some f" "i \<noteq> hole" for i f
  proof -
    let ?h = "home_cell ?n (ks_key f)"
    have n: "0 < ?n" using i by linarith
    then have h: "?h < ?n" by simp
    have "\<not> probe_distance ?h hole ?n < probe_distance ?h i ?n"
    proof
      assume lt: "probe_distance ?h hole ?n < probe_distance ?h i ?n"
      then have split: "probe_distance hole i ?n = probe_distance ?h i ?n - probe_distance ?h hole ?n"
        using probe_distance_split [OF h b(1) i(1)] by simp
      have "\<not> probe_distance hole scan ?n \<le> probe_distance hole i ?n"
      proof
        assume le: "probe_distance hole scan ?n \<le> probe_distance hole i ?n"
        let ?d = "probe_distance ?h hole ?n + probe_distance hole scan ?n"
        have "(?h + ?d) mod ?n = ((?h + probe_distance ?h hole ?n) mod ?n + probe_distance hole scan ?n) mod ?n"
          by (subst mod_add_left_eq) (simp only: add.assoc)
        then have at: "(?h + ?d) mod ?n = scan" using h b by (simp only: probe_distance_reaches)
        have "?d \<noteq> probe_distance ?h i ?n"
          using at probe_distance_reaches [OF h i(1)] i(2) assms(2) by (metis option.distinct(1))
        then have "?d < probe_distance ?h i ?n" using le split lt by linarith
        then have "ks ! ((?h + ?d) mod ?n) \<noteq> None"
          using full [OF i] unfolding path_full_def by blast
        then show False using at assms(2) by simp
      qed
      then have "probe_distance ?h i ?n \<le> probe_distance ?h hole ?n"
        using split lt by (intro stay [OF i(1,2)]) linarith+
      then show False using lt by linarith
    qed
    then have "(?h + d) mod ?n \<noteq> hole" if "d < probe_distance ?h i ?n" for d
      using that probe_distance_unique [OF h, of d hole] probe_distance_less [OF h i(1)] by linarith
    then show ?thesis using full [OF i] unfolding path_full_def length_list_update
      by (metis nth_list_update_neq)
  qed
  have live: "i \<noteq> hole" "ks ! i = Some f" if "i < ?n" "?ks ! i = Some f" for i f
    using that b(1) by (auto simp: nth_list_update split: if_splits)
  have dist: "i = j" if "i < ?n" "j < ?n" "i \<noteq> hole" "j \<noteq> hole" "ks ! i = Some e" "ks ! j = Some f"
      "ks_key e = ks_key f" for i j e f
    using assms(1) that unfolding shift_inv_def Let_def by blast
  show ?thesis
  proof (rule table_okI)
    show "keys_distinct ?ks"
      unfolding keys_distinct_def length_list_update
      by (intro allI impI, elim conjE) (rule dist; (rule live)?; assumption)
    show "path_full ?ks (home_cell (length ?ks) (ks_key f)) i" if "i < length ?ks" "?ks ! i = Some f" for i f
      using that path [OF _ live(2,1)] unfolding length_list_update by blast
  qed
qed

lemma shift_loop_terminates:
  assumes "shift_inv ks hole scan z" "probe_distance scan z (length ks) < steps"
  shows "\<exists>ks' hole'. shift_loop ks steps hole scan = Some (ks', hole')
    \<and> length ks' = length ks \<and> hole' < length ks \<and> table_ok (ks'[hole' := None])
    \<and> other_entries ks' hole' = other_entries ks hole"
  using assms
proof (induction steps arbitrary: ks hole scan)
  case (Suc steps)
  let ?n = "length ks" and ?s = "(scan + 1) mod length ks"
  have b: "hole < ?n" "scan < ?n" "z < ?n" "ks ! z = None"
    using Suc.prems(1) unfolding shift_inv_def Let_def by blast+
  show ?case
  proof (cases "ks ! scan")
    case None
    then show ?thesis using shift_inv_exit [OF Suc.prems(1)] b by simp
  next
    case (Some e)
    then have ne: "scan \<noteq> z" using b(4) by auto
    have "probe_distance ?s z ?n < steps"
      using Suc.prems(2) probe_distance_step [OF b(2,3) ne] probe_distance_eq_0_iff [OF b(2,3)] ne
      by linarith
    note nearer = this
    let ?h = "home_cell ?n (ks_key e)"
    show ?thesis
    proof (cases "probe_distance ?h hole ?n < probe_distance ?h scan ?n")
      case True
      have "\<exists>ks' hole'. shift_loop (ks[hole := Some e]) steps scan ?s = Some (ks', hole')
          \<and> length ks' = ?n \<and> hole' < ?n \<and> table_ok (ks'[hole' := None])
          \<and> other_entries ks' hole' = other_entries (ks[hole := Some e]) scan"
        using Suc.IH [OF shift_inv_move(1) [OF Suc.prems(1) Some True]] nearer by simp
      then show ?thesis using Some True shift_inv_move(2) [OF Suc.prems(1) Some True] by simp
    next
      case False
      have "\<exists>ks' hole'. shift_loop ks steps hole ?s = Some (ks', hole')
          \<and> length ks' = ?n \<and> hole' < ?n \<and> table_ok (ks'[hole' := None])
          \<and> other_entries ks' hole' = other_entries ks hole"
        using Suc.IH [OF shift_inv_keep [OF Suc.prems(1) Some False] nearer] .
      then show ?thesis using Some False by simp
    qed
  qed
qed simp

lemma shift_inv_start:
  assumes "table_ok ks" "hole < length ks" "ks ! hole \<noteq> None" "z < length ks" "ks ! z = None"
  shows "shift_inv ks hole ((hole + 1) mod length ks) z"
    and "probe_distance ((hole + 1) mod length ks) z (length ks) < length ks"
proof -
  let ?n = "length ks" and ?s = "(hole + 1) mod length ks"
  have ne: "hole \<noteq> z" using assms by auto
  then have n: "1 < ?n" using assms(2,4) by linarith
  have s: "?s < ?n" using n by (intro mod_less_divisor) linarith
  then show "probe_distance ?s z ?n < ?n" using assms(4) by (rule probe_distance_less)
  have s1: "probe_distance hole ?s ?n = 1"
    using assms(2) n by (intro probe_distance_unique) auto
  have z1: "0 < probe_distance hole z ?n"
    using probe_distance_eq_0_iff [OF assms(2,4)] ne by simp
  show "shift_inv ks hole ?s z"
  proof (rule shift_invI [OF refl assms(2) s assms(4,5,3)])
    show "0 < probe_distance hole ?s ?n" "probe_distance hole ?s ?n \<le> probe_distance hole z ?n"
      using z1 unfolding s1 by simp_all
    show "path_full ks (home_cell ?n (ks_key e)) i" if "i < ?n" "ks ! i = Some e" for i e
      using that by (rule table_okD [OF assms(1)])
    show "i = j" if "i < ?n" "j < ?n" "ks ! i = Some e" "ks ! j = Some f" "ks_key e = ks_key f" for i j e f
      using table_okD(1) [OF assms(1)] that by (rule keys_distinctD)
    show "probe_distance (home_cell ?n (ks_key f)) i ?n \<le> probe_distance (home_cell ?n (ks_key f)) hole ?n"
      if "0 < probe_distance hole i ?n" "probe_distance hole i ?n < probe_distance hole ?s ?n" for i f
      using that unfolding s1 by linarith
  qed
qed

section \<open>The index as a map\<close>

definition table_list :: "key_table \<Rightarrow> (timer_key \<times> nat) list" where
  "table_list ks = map (\<lambda>e. (ks_key e, ks_slot e)) (map the (filter (\<lambda>c. c \<noteq> None) ks))"

definition table_map :: "key_table \<Rightarrow> timer_key \<Rightarrow> nat option" where
  "table_map ks = map_of (table_list ks)"

lemma set_table_list: "set (table_list ks) = table_entries ks"
  by (force simp: table_list_def table_entries_def)

lemma table_map_SomeD: "table_map ks k = Some v \<Longrightarrow> (k, v) \<in> table_entries ks"
  unfolding table_map_def by (drule map_of_SomeD) (simp only: set_table_list)

lemma table_map_eq_Some:
  assumes "keys_distinct ks"
  shows "table_map ks k = Some v \<longleftrightarrow> (k, v) \<in> table_entries ks"
proof
  assume kv: "(k, v) \<in> table_entries ks"
  then have "k \<in> fst ` set (table_list ks)" by (force simp: set_table_list)
  then obtain w where w: "table_map ks k = Some w"
    by (cases "table_map ks k") (simp_all add: table_map_def map_of_eq_None_iff)
  then show "table_map ks k = Some v"
    using table_entries_key_unique [OF assms kv table_map_SomeD [OF w]] by simp
qed (rule table_map_SomeD)

lemma table_map_nth:
  "keys_distinct ks \<Longrightarrow> i < length ks \<Longrightarrow> ks ! i = Some e \<Longrightarrow> table_map ks (ks_key e) = Some (ks_slot e)"
  by (auto simp: table_map_eq_Some table_entries_nth)

lemma table_map_eq_None:
  "keys_distinct ks \<Longrightarrow> table_map ks k = None \<Longrightarrow> i < length ks \<Longrightarrow> ks ! i = Some e \<Longrightarrow> ks_key e \<noteq> k"
  using table_map_nth by fastforce

lemma table_mapI:
  assumes "keys_distinct ks" "\<And>k v. m k = Some v \<longleftrightarrow> (k, v) \<in> table_entries ks"
  shows "table_map ks = m"
  using assms table_map_eq_Some by (intro ext) (metis option.exhaust)

text \<open>An index of \<open>n\<close> cells with fewer than \<open>n\<close> entries has an empty cell.\<close>

lemma dom_table_map: "dom (table_map ks) = fst ` table_entries ks"
  by (simp add: table_map_def dom_map_of_conv_image_fst set_table_list)

lemma finite_dom_table_map [simp]: "finite (dom (table_map ks))"
  by (simp add: dom_table_map set_table_list [symmetric])

lemma full_table_card:
  assumes "keys_distinct ks" "None \<notin> set ks"
  shows "card (dom (table_map ks)) = length ks"
proof -
  let ?key = "\<lambda>i. ks_key (the (ks ! i))"
  have some: "ks ! i = Some (the (ks ! i))" if "i < length ks" for i
    using that assms(2) by (metis nth_mem option.collapse)
  have "inj_on ?key {..< length ks}"
    using keys_distinctD [OF assms(1) _ _ some some] by (intro inj_onI) simp
  moreover have "dom (table_map ks) = ?key ` {..< length ks}"
  proof (intro set_eqI iffI)
    fix k assume "k \<in> dom (table_map ks)"
    then obtain v where "(k, v) \<in> table_entries ks" using table_map_SomeD by blast
    then obtain i where i: "i < length ks" "ks ! i = Some \<lparr>ks_key = k, ks_slot = v\<rparr>"
      unfolding table_entries_nth by blast
    have "k = ?key i" unfolding i(2) by simp
    then show "k \<in> ?key ` {..< length ks}" using i(1) by blast
  next
    fix k assume "k \<in> ?key ` {..< length ks}"
    then show "k \<in> dom (table_map ks)" using table_map_nth [OF assms(1) _ some] by blast
  qed
  ultimately show ?thesis by (simp add: card_image)
qed

text \<open>
  The index holds its invariant when probes reach their keys and, unless it has no cells at
  all, one cell is empty, so that every probe ends.
\<close>

definition index_ok :: "key_table \<Rightarrow> bool" where
  "index_ok ks \<longleftrightarrow> table_ok ks \<and> (ks \<noteq> [] \<longrightarrow> None \<in> set ks)"

lemma index_okI:
  assumes "table_ok ks" "card (dom (table_map ks)) < length ks"
  shows "index_ok ks"
  using assms full_table_card [OF table_okD(1) [OF assms(1)]] by (auto simp: index_ok_def)

lemma key_slot_index_map:
  assumes "index_ok ks"
  shows "table_map ks key = None \<Longrightarrow> key_slot_index ks key = Some None"
    and "table_map ks key = Some v \<Longrightarrow> \<exists>i < length ks.
      key_slot_index ks key = Some (Some i) \<and> ks ! i = Some \<lparr>ks_key = key, ks_slot = v\<rparr>"
proof -
  have ok: "table_ok ks" and kd: "keys_distinct ks"
    using assms table_okD(1) by (simp_all add: index_ok_def)
  show "key_slot_index ks key = Some None" if "table_map ks key = None"
  proof (cases "ks = []")
    case False
    then obtain z where z: "z < length ks" "ks ! z = None"
      using assms by (metis index_ok_def in_set_conv_nth)
    show ?thesis
      using z table_map_eq_None [OF kd that] by (rule key_slot_index_absent)
  qed (simp add: key_slot_index_def)
  assume "table_map ks key = Some v"
  then obtain i where i: "i < length ks" "ks ! i = Some \<lparr>ks_key = key, ks_slot = v\<rparr>"
    using table_map_SomeD table_entries_nth by blast
  with key_slot_index_present [OF ok i] show "\<exists>i < length ks.
      key_slot_index ks key = Some (Some i) \<and> ks ! i = Some \<lparr>ks_key = key, ks_slot = v\<rparr>"
    by auto
qed

lemma slot_index_map: "index_ok ks \<Longrightarrow> slot_index ks key = Some (table_map ks key)"
  using key_slot_index_map [of ks key] by (cases "table_map ks key") (auto simp: slot_index_def)

lemma insert_key_slot_into_map:
  assumes "index_ok ks" "table_map ks key = None" "Suc (card (dom (table_map ks))) < length ks"
  shows "\<exists>ks'. insert_key_slot_into ks key slot = Some ks' \<and> index_ok ks'
    \<and> length ks' = length ks \<and> table_map ks' = (table_map ks)(key \<mapsto> slot)"
proof -
  let ?e = "\<lparr>ks_key = key, ks_slot = slot\<rparr>"
  have ok: "table_ok ks" "None \<in> set ks" using assms by (auto simp: index_ok_def)
  then have kd: "keys_distinct ks" using table_okD(1) by blast
  obtain i where i: "i < length ks" "ks ! i = None"
      "insert_key_slot_into ks key slot = Some (ks[i := Some ?e])" "table_ok (ks[i := Some ?e])"
    using insert_key_slot_into_ok [OF ok, of key slot] table_map_eq_None [OF kd assms(2)] by blast
  have fresh: "(key, v) \<notin> table_entries ks" for v
    using assms(2) table_map_eq_Some [OF kd, of key v] by simp
  have m: "table_map (ks[i := Some ?e]) = (table_map ks)(key \<mapsto> slot)"
    using fresh
    by (intro table_mapI table_okD(1) [OF i(4)]) (auto simp: table_entries_fill [OF i(1,2)] table_map_eq_Some [OF kd])
  have "index_ok (ks[i := Some ?e])"
    using assms by (intro index_okI [OF i(4)]) (simp add: m domIff)
  with i m show ?thesis by simp
qed

lemma table_entries_clear:
  assumes "hole < length ks"
  shows "(k, v) \<in> table_entries (ks[hole := None])
    \<longleftrightarrow> \<lparr>ks_key = k, ks_slot = v\<rparr> \<in> other_entries ks hole"
proof -
  have "i < length ks \<and> ks[hole := None] ! i = Some e \<longleftrightarrow> i < length ks \<and> i \<noteq> hole \<and> ks ! i = Some e" for i e
    using assms by (cases "i = hole") auto
  then show ?thesis unfolding table_entries_nth other_entries_def length_list_update by simp
qed

lemma other_entries_iff:
  assumes "keys_distinct ks" "hole < length ks" "ks ! hole = Some e"
  shows "\<lparr>ks_key = k, ks_slot = v\<rparr> \<in> other_entries ks hole
    \<longleftrightarrow> (k, v) \<in> table_entries ks \<and> k \<noteq> ks_key e"
proof -
  have "i \<noteq> hole \<longleftrightarrow> k \<noteq> ks_key e" if "i < length ks" "ks ! i = Some \<lparr>ks_key = k, ks_slot = v\<rparr>" for i
    using keys_distinctD [OF assms(1) that(1) assms(2) that(2) assms(3)] that assms(3) by auto
  then show ?thesis unfolding table_entries_nth other_entries_def mem_Collect_eq by metis
qed

lemma remove_key_slot_map:
  assumes "index_ok ks"
  shows "\<exists>ks'. remove_key_slot ks key = Some (table_map ks key, ks') \<and> index_ok ks'
    \<and> length ks' = length ks \<and> table_map ks' = (table_map ks)(key := None)"
proof (cases "table_map ks key")
  case None
  then show ?thesis
    using assms key_slot_index_map(1) [OF assms None] by (simp add: remove_key_slot_def fun_upd_idem)
next
  case (Some v)
  let ?e = "\<lparr>ks_key = key, ks_slot = v\<rparr>"
  obtain hole where hole: "hole < length ks" "key_slot_index ks key = Some (Some hole)" "ks ! hole = Some ?e"
    using key_slot_index_map(2) [OF assms Some] by blast
  have ok: "table_ok ks" and kd: "keys_distinct ks"
    using assms table_okD(1) by (simp_all add: index_ok_def)
  obtain z where z: "z < length ks" "ks ! z = None"
    using assms hole(1) by (metis index_ok_def in_set_conv_nth list.size(3) not_less_zero)
  obtain ks' hole' where loop: "shift_loop ks (length ks) hole ((hole + 1) mod length ks) = Some (ks', hole')"
    and len: "length ks' = length ks" "hole' < length ks'"
    and ok': "table_ok (ks'[hole' := None])" and other: "other_entries ks' hole' = other_entries ks hole"
    using shift_loop_terminates [OF shift_inv_start [OF ok hole(1) _ z]] hole(3) by auto
  let ?ks = "ks'[hole' := None]"
  have "remove_key_slot ks key = Some (Some v, ?ks)"
    using hole loop by (simp add: remove_key_slot_def)
  moreover have "index_ok ?ks"
    using ok' len(2) by (simp add: index_ok_def set_update_memI)
  moreover have "table_map ?ks = (table_map ks)(key := None)"
  proof (rule table_mapI [OF table_okD(1) [OF ok']])
    fix k w
    show "((table_map ks)(key := None)) k = Some w \<longleftrightarrow> (k, w) \<in> table_entries ?ks"
      unfolding table_entries_clear [OF len(2)] other other_entries_iff [OF kd hole(1,3)]
      by (simp add: table_map_eq_Some [OF kd])
  qed
  ultimately show ?thesis using Some len by simp
qed

section \<open>The index as an interface\<close>

text \<open>
  What the heap relies on: operations that return (the value \<^term>\<open>None\<close> is a loop that does not
  end) and behave as those of a finite map, as long as one cell stays empty.
\<close>

primrec put_all :: "('t \<Rightarrow> 'k \<Rightarrow> 'v \<Rightarrow> 't option) \<Rightarrow> 't \<Rightarrow> ('k \<times> 'v) list \<Rightarrow> 't option" where
  "put_all put t [] = Some t"
| "put_all put t (kv # kvs) =
     do {
       t \<leftarrow> put t (fst kv) (snd kv);
       put_all put t kvs
     }"

locale key_index =
  fixes ok :: "'t \<Rightarrow> bool"
    and cells :: "'t \<Rightarrow> nat"
    and to_map :: "'t \<Rightarrow> 'k \<Rightarrow> 'v option"
    and find :: "'t \<Rightarrow> 'k \<Rightarrow> 'v option option"
    and put :: "'t \<Rightarrow> 'k \<Rightarrow> 'v \<Rightarrow> 't option"
    and take :: "'t \<Rightarrow> 'k \<Rightarrow> ('v option \<times> 't) option"
  assumes find_map: "ok t \<Longrightarrow> find t k = Some (to_map t k)"
    and put_map: "ok t \<Longrightarrow> to_map t k = None \<Longrightarrow> Suc (card (dom (to_map t))) < cells t
      \<Longrightarrow> \<exists>t'. put t k v = Some t' \<and> ok t' \<and> cells t' = cells t \<and> to_map t' = (to_map t)(k \<mapsto> v)"
    and take_map: "ok t
      \<Longrightarrow> \<exists>t'. take t k = Some (to_map t k, t') \<and> ok t' \<and> cells t' = cells t \<and> to_map t' = (to_map t)(k := None)"
    and finite_map: "finite (dom (to_map t))"
begin

lemma find_after_put:
  assumes "ok t" "to_map t k = None" "Suc (card (dom (to_map t))) < cells t"
  shows "\<exists>t'. put t k v = Some t' \<and> find t' k' = Some (if k' = k then Some v else to_map t k')"
  using put_map [OF assms, of v] find_map by auto

lemma take_after_put:
  assumes "ok t" "to_map t k = None" "Suc (card (dom (to_map t))) < cells t"
  shows "\<exists>t' t''. put t k v = Some t' \<and> take t' k = Some (Some v, t'') \<and> to_map t'' = to_map t"
proof -
  obtain t' where t': "put t k v = Some t'" "ok t'" "to_map t' = (to_map t)(k \<mapsto> v)"
    using put_map [OF assms, of v] by blast
  obtain t'' where "take t' k = Some (to_map t' k, t'')" "to_map t'' = (to_map t')(k := None)"
    using take_map [OF t'(2)] by blast
  then show ?thesis using t' assms(2) by (auto simp: fun_upd_idem)
qed

lemma find_after_take:
  assumes "ok t"
  shows "\<exists>t'. take t k = Some (to_map t k, t') \<and> find t' k' = Some (if k' = k then None else to_map t k')"
  using take_map [OF assms, of k] find_map by auto

text \<open>A table is filled with a list of entries, as the rehashing loop does.\<close>

lemma fill_map:
  assumes "ok t" "distinct (map fst kvs)" "fst ` set kvs \<inter> dom (to_map t) = {}"
    and "card (dom (to_map t)) + length kvs < cells t"
  shows "\<exists>t'. put_all put t kvs = Some t' \<and> ok t' \<and> cells t' = cells t
    \<and> to_map t' = to_map t ++ map_of kvs"
  using assms
proof (induction kvs arbitrary: t)
  case (Cons kv kvs)
  obtain k v where kv: "kv = (k, v)" by force
  have none: "to_map t k = None" using Cons.prems(3) kv by auto
  obtain t1 where t1: "put t k v = Some t1" "ok t1" "cells t1 = cells t" "to_map t1 = (to_map t)(k \<mapsto> v)"
    using put_map [OF Cons.prems(1) none, of v] Cons.prems(4) by auto
  have card: "card (dom (to_map t1)) = Suc (card (dom (to_map t)))"
    using t1(4) none finite_map [of t] by (simp add: domIff)
  have dom: "dom (to_map t1) = insert k (dom (to_map t))" using t1(4) by simp
  have "fst ` set kvs \<inter> dom (to_map t1) = {}" "card (dom (to_map t1)) + length kvs < cells t1"
    unfolding card t1(3) using Cons.prems(2,3,4) kv dom by auto
  then obtain t2 where "put_all put t1 kvs = Some t2" "ok t2" "cells t2 = cells t1"
      "to_map t2 = to_map t1 ++ map_of kvs"
    using Cons.IH [OF t1(2)] Cons.prems(2) by auto
  moreover have "(to_map t)(k \<mapsto> v) ++ map_of kvs = to_map t ++ map_of (kv # kvs)"
    using Cons.prems(2) kv by (simp add: map_add_upd_left dom_map_of_conv_image_fst)
  ultimately show ?case using t1 kv by (simp del: map_of.simps)
qed simp

end

interpretation timer_index: key_index index_ok length table_map slot_index insert_key_slot_into remove_key_slot
  by unfold_locales (simp_all add: slot_index_map insert_key_slot_into_map remove_key_slot_map)

section \<open>Properties of the key index\<close>

text \<open>
  C10: Looking a key up, inserting one and removing one always end, and are the operations of a
  finite map. In particular the backward shift of a removal keeps every other key reachable from
  its home cell although lookups stop at the first empty cell.
\<close>

theorem key_index_is_a_map:
  assumes "index_ok ks"
  shows "slot_index ks key = Some (table_map ks key)
    \<and> (\<exists>ks'. remove_key_slot ks key = Some (table_map ks key, ks') \<and> index_ok ks' \<and> length ks' = length ks
        \<and> (\<forall>k. slot_index ks' k = Some (if k = key then None else table_map ks k)))
    \<and> (table_map ks key = None \<and> Suc (card (dom (table_map ks))) < length ks \<longrightarrow>
        (\<exists>ks'. insert_key_slot_into ks key slot = Some ks' \<and> index_ok ks' \<and> length ks' = length ks
          \<and> (\<forall>k. slot_index ks' k = Some (if k = key then Some slot else table_map ks k))))"
proof (intro conjI impI)
  show "slot_index ks key = Some (table_map ks key)" using assms by (rule timer_index.find_map)
  obtain ks' where "remove_key_slot ks key = Some (table_map ks key, ks')" "index_ok ks'" "length ks' = length ks"
      "table_map ks' = (table_map ks)(key := None)"
    using timer_index.take_map [OF assms] by blast
  then show "\<exists>ks'. remove_key_slot ks key = Some (table_map ks key, ks') \<and> index_ok ks' \<and> length ks' = length ks
      \<and> (\<forall>k. slot_index ks' k = Some (if k = key then None else table_map ks k))"
    using timer_index.find_map by auto
  assume "table_map ks key = None \<and> Suc (card (dom (table_map ks))) < length ks"
  then obtain ks' where "insert_key_slot_into ks key slot = Some ks'" "index_ok ks'" "length ks' = length ks"
      "table_map ks' = (table_map ks)(key \<mapsto> slot)"
    using timer_index.put_map [OF assms, of key slot] by blast
  then show "\<exists>ks'. insert_key_slot_into ks key slot = Some ks' \<and> index_ok ks' \<and> length ks' = length ks
      \<and> (\<forall>k. slot_index ks' k = Some (if k = key then Some slot else table_map ks k))"
    using timer_index.find_map by auto
qed

theorem key_index_is_a_map_witness:
  "\<exists>ks ks' ks''. insert_key_slot_into (replicate 4 None) 1 10 = Some ks \<and> insert_key_slot_into ks 2 20 = Some ks'
     \<and> remove_key_slot ks' 1 = Some (Some 10, ks'') \<and> slot_index ks'' 2 = Some (Some 20) \<and> slot_index ks'' 1 = Some None"
proof -
  have ok0: "index_ok (replicate 4 None)" by (auto simp: index_ok_def table_ok_def keys_distinct_def)
  have m0: "table_map (replicate 4 None) = Map.empty" by (simp add: table_map_def table_list_def)
  obtain ks where ks: "insert_key_slot_into (replicate 4 None) 1 10 = Some ks" "index_ok ks" "length ks = 4"
      "\<And>k. slot_index ks k = Some (if k = 1 then Some 10 else None)"
    using key_index_is_a_map [OF ok0, of 1 10] m0 by auto
  have m1: "table_map ks = [1 \<mapsto> 10]" using ks(2,4) timer_index.find_map [OF ks(2)] by (auto simp: fun_eq_iff)
  obtain ks' where ks': "insert_key_slot_into ks 2 20 = Some ks'" "index_ok ks'"
      "\<And>k. slot_index ks' k = Some (if k = 2 then Some 20 else [1 \<mapsto> 10] k)"
    using key_index_is_a_map [OF ks(2), of 2 20] m1 ks(3) by auto
  have m2: "table_map ks' k = (if k = 2 then Some 20 else [1 \<mapsto> 10] k)" for k
    using ks'(3) [of k] timer_index.find_map [OF ks'(2), of k] by simp
  show ?thesis using key_index_is_a_map [OF ks'(2), of 1] m2 ks(1) ks'(1) by auto
qed

end
