(* ===== verification/Heap_Order.thy ===== *)
theory Heap_Order
  imports Tx_Prelude "HOL-Library.Multiset"
begin

text \<open>
  The reference side of the timer heap: binary heaps in a list, ordered by a rank function
  into a linear order. The sift functions here work on the list alone; the functions of the
  timer heap also keep the slot table up to date, and are shown to compute these lists.
\<close>

section \<open>Lists\<close>

definition swap_list :: "'a list \<Rightarrow> nat \<Rightarrow> nat \<Rightarrow> 'a list" where
  "swap_list xs i j = xs[i := xs ! j, j := xs ! i]"

lemma length_swap_list [simp]: "length (swap_list xs i j) = length xs"
  by (simp add: swap_list_def)

lemma nth_swap_list:
  "i < length xs \<Longrightarrow> j < length xs \<Longrightarrow>
   swap_list xs i j ! k = (if k = i then xs ! j else if k = j then xs ! i else xs ! k)"
  by (auto simp: swap_list_def nth_list_update)

lemma mset_swap_list [simp]:
  "i < length xs \<Longrightarrow> j < length xs \<Longrightarrow> mset (swap_list xs i j) = mset xs"
  by (simp add: swap_list_def mset_swap)

lemma set_swap_list [simp]:
  "i < length xs \<Longrightarrow> j < length xs \<Longrightarrow> set (swap_list xs i j) = set xs"
  by (metis mset_swap_list set_mset_mset)

definition parent_of :: "nat \<Rightarrow> nat" where
  "parent_of i = (i - 1) div 2"

lemma parent_of_less: "0 < i \<Longrightarrow> parent_of i < i"
  unfolding parent_of_def by linarith

lemma parent_of_le: "parent_of i \<le> i"
  unfolding parent_of_def by linarith

lemma parent_of_eq_iff: "0 < j \<Longrightarrow> parent_of j = i \<longleftrightarrow> j = i * 2 + 1 \<or> j = i * 2 + 2"
  unfolding parent_of_def by linarith

section \<open>Heap order\<close>

definition is_heap :: "('a \<Rightarrow> 'r::linorder) \<Rightarrow> 'a list \<Rightarrow> bool" where
  "is_heap f xs \<longleftrightarrow> (\<forall>j < length xs. 0 < j \<longrightarrow> f (xs ! parent_of j) \<le> f (xs ! j))"

text \<open>Ordered but for the edge above \<open>i\<close>.\<close>

definition up_inv :: "('a \<Rightarrow> 'r::linorder) \<Rightarrow> 'a list \<Rightarrow> nat \<Rightarrow> bool" where
  "up_inv f xs i \<longleftrightarrow> i < length xs
     \<and> (\<forall>j < length xs. 0 < j \<and> j \<noteq> i \<longrightarrow> f (xs ! parent_of j) \<le> f (xs ! j))
     \<and> (\<forall>j < length xs. 0 < i \<and> 0 < j \<and> parent_of j = i \<longrightarrow> f (xs ! parent_of i) \<le> f (xs ! j))"

text \<open>Ordered but for the edges below \<open>i\<close>.\<close>

definition down_inv :: "('a \<Rightarrow> 'r::linorder) \<Rightarrow> 'a list \<Rightarrow> nat \<Rightarrow> bool" where
  "down_inv f xs i \<longleftrightarrow>
     (\<forall>j < length xs. 0 < j \<and> parent_of j \<noteq> i \<longrightarrow> f (xs ! parent_of j) \<le> f (xs ! j))
     \<and> (\<forall>j < length xs. 0 < i \<and> 0 < j \<and> parent_of j = i \<longrightarrow> f (xs ! parent_of i) \<le> f (xs ! j))"

text \<open>Ordered but for the edges at \<open>i\<close>: the state after the entry at \<open>i\<close> was replaced.\<close>

definition hole_inv :: "('a \<Rightarrow> 'r::linorder) \<Rightarrow> 'a list \<Rightarrow> nat \<Rightarrow> bool" where
  "hole_inv f xs i \<longleftrightarrow>
     (\<forall>j < length xs. 0 < j \<and> j \<noteq> i \<and> parent_of j \<noteq> i \<longrightarrow> f (xs ! parent_of j) \<le> f (xs ! j))
     \<and> (\<forall>j < length xs. 0 < i \<and> 0 < j \<and> parent_of j = i \<longrightarrow> f (xs ! parent_of i) \<le> f (xs ! j))"

lemma is_heap_root:
  assumes "is_heap f xs" "i < length xs"
  shows "f (xs ! 0) \<le> f (xs ! i)"
  using assms(2)
proof (induction i rule: less_induct)
  case (less i)
  show ?case
  proof (cases "i = 0")
    case False
    then have p: "parent_of i < i" by (intro parent_of_less) simp
    then have "f (xs ! 0) \<le> f (xs ! parent_of i)" using less by simp
    also have "\<dots> \<le> f (xs ! i)" using assms(1) less.prems False by (simp add: is_heap_def)
    finally show ?thesis .
  qed simp
qed

lemma is_heap_hd_Min:
  assumes "is_heap f xs" "xs \<noteq> []"
  shows "f (hd xs) = Min (f ` set xs)"
proof (rule Min_eqI [symmetric])
  fix y assume "y \<in> f ` set xs"
  then obtain i where "i < length xs" "y = f (xs ! i)" by (auto simp: in_set_conv_nth)
  then show "f (hd xs) \<le> y" using is_heap_root [OF assms(1)] assms(2) by (simp add: hd_conv_nth)
qed (use assms in auto)

section \<open>Sifting a list\<close>

function sift_up_list :: "('a \<Rightarrow> 'r::linorder) \<Rightarrow> 'a list \<Rightarrow> nat \<Rightarrow> 'a list" where
  "sift_up_list f xs i =
     (if i = 0 \<or> f (xs ! parent_of i) \<le> f (xs ! i) then xs
      else sift_up_list f (swap_list xs i (parent_of i)) (parent_of i))"
  by pat_completeness auto
termination by (relation "measure (\<lambda>(f, xs, i). i)") (auto intro: parent_of_less)

definition least_child :: "('a \<Rightarrow> 'r::linorder) \<Rightarrow> 'a list \<Rightarrow> nat \<Rightarrow> nat" where
  "least_child f xs i =
     (if i * 2 + 2 < length xs \<and> f (xs ! (i * 2 + 2)) < f (xs ! (i * 2 + 1))
      then i * 2 + 2 else i * 2 + 1)"

lemma least_child_greater: "i < least_child f xs i"
  by (simp add: least_child_def)

lemma least_child_less: "i * 2 + 1 < length xs \<Longrightarrow> least_child f xs i < length xs"
  by (simp add: least_child_def)

lemma parent_of_least_child: "parent_of (least_child f xs i) = i"
  by (simp add: least_child_def parent_of_def)

lemma least_child_le:
  assumes "j < length xs" "0 < j" "parent_of j = i"
  shows "f (xs ! least_child f xs i) \<le> f (xs ! j)"
proof -
  have "j = i * 2 + 1 \<or> j = i * 2 + 2" using assms(2,3) parent_of_eq_iff by simp
  then show ?thesis using assms(1) by (auto simp: least_child_def)
qed

function sift_down_list :: "('a \<Rightarrow> 'r::linorder) \<Rightarrow> 'a list \<Rightarrow> nat \<Rightarrow> 'a list" where
  "sift_down_list f xs i =
     (if length xs \<le> i * 2 + 1 \<or> f (xs ! i) \<le> f (xs ! least_child f xs i) then xs
      else sift_down_list f (swap_list xs i (least_child f xs i)) (least_child f xs i))"
  by pat_completeness auto
termination
  by (relation "measure (\<lambda>(f, xs, i). length xs - i)")
    (auto intro!: diff_less_mono2 least_child_greater)

declare sift_up_list.simps [simp del] sift_down_list.simps [simp del]

lemma sift_up_list_mset: "i < length xs \<Longrightarrow> mset (sift_up_list f xs i) = mset xs"
proof (induction f xs i rule: sift_up_list.induct)
  case (1 f xs i)
  show ?case
  proof (cases "i = 0 \<or> f (xs ! parent_of i) \<le> f (xs ! i)")
    case False
    then have p: "parent_of i < i" by (intro parent_of_less) simp
    with 1 False show ?thesis by (subst sift_up_list.simps) simp
  qed (simp add: sift_up_list.simps [of f xs i])
qed

lemma sift_down_list_mset: "i < length xs \<Longrightarrow> mset (sift_down_list f xs i) = mset xs"
proof (induction f xs i rule: sift_down_list.induct)
  case (1 f xs i)
  show ?case
  proof (cases "length xs \<le> i * 2 + 1 \<or> f (xs ! i) \<le> f (xs ! least_child f xs i)")
    case False
    then have "least_child f xs i < length xs" by (simp add: least_child_less)
    with 1 False show ?thesis by (subst sift_down_list.simps) simp
  qed (simp add: sift_down_list.simps [of f xs i])
qed

lemma up_inv_swap:
  assumes "up_inv f xs i" "0 < i" "f (xs ! i) < f (xs ! parent_of i)"
  shows "up_inv f (swap_list xs i (parent_of i)) (parent_of i)"
proof -
  let ?p = "parent_of i"
  let ?ys = "swap_list xs i ?p"
  have i: "i < length xs" and p: "?p < i" "?p < length xs"
    using assms(1,2) parent_of_less [of i] by (auto simp: up_inv_def)
  have edge: "f (xs ! parent_of j) \<le> f (xs ! j)" if "j < length xs" "0 < j" "j \<noteq> i" for j
    using assms(1) that by (simp add: up_inv_def)
  have skip: "f (xs ! ?p) \<le> f (xs ! j)" if "j < length xs" "0 < j" "parent_of j = i" for j
    using assms(1,2) that unfolding up_inv_def by blast
  have nth: "?ys ! k = (if k = i then xs ! ?p else if k = ?p then xs ! i else xs ! k)" for k
    using i p by (simp add: nth_swap_list)
  have "f (?ys ! parent_of j) \<le> f (?ys ! j)" if j: "j < length xs" "0 < j" "j \<noteq> ?p" for j
  proof -
    have pj: "parent_of j < j" using j(2) by (rule parent_of_less)
    consider "j = i" | "j \<noteq> i" "parent_of j = i" | "j \<noteq> i" "parent_of j = ?p" | "j \<noteq> i" "parent_of j \<noteq> i" "parent_of j \<noteq> ?p"
      by blast
    then show ?thesis
    proof cases
      case 1
      then show ?thesis using nth p assms(3) by simp
    next
      case 2
      then show ?thesis using nth skip [OF j(1,2)] j(3) by simp
    next
      case 3
      then show ?thesis using nth edge [OF j(1,2)] assms(3) j(3) p by simp
    next
      case 4
      then show ?thesis using nth edge [OF j(1,2)] j(3) by simp
    qed
  qed
  moreover have "f (?ys ! parent_of ?p) \<le> f (?ys ! j)" if "0 < ?p" and j: "j < length xs" "0 < j" "parent_of j = ?p" for j
  proof -
    have pp: "parent_of ?p < ?p" using that(1) by (rule parent_of_less)
    have gp: "f (xs ! parent_of ?p) \<le> f (xs ! ?p)" using edge [of ?p] p that(1) by simp
    have "?p < j" using parent_of_less [OF j(2)] j(3) by simp
    moreover have "?ys ! parent_of ?p = xs ! parent_of ?p" using nth pp p(1) by simp
    moreover have "f (xs ! parent_of ?p) \<le> f (xs ! j)" if "j \<noteq> i"
      using gp edge [OF j(1,2) that] unfolding j(3) by (rule order_trans)
    ultimately show ?thesis using nth [of j] gp by (cases "j = i") simp_all
  qed
  ultimately show ?thesis using p unfolding up_inv_def length_swap_list by meson
qed

lemma sift_up_list_heap: "up_inv f xs i \<Longrightarrow> is_heap f (sift_up_list f xs i)"
proof (induction f xs i rule: sift_up_list.induct)
  case (1 f xs i)
  show ?case
  proof (cases "i = 0 \<or> f (xs ! parent_of i) \<le> f (xs ! i)")
    case True
    have "is_heap f xs" unfolding is_heap_def
    proof (intro allI impI)
      fix j assume "j < length xs" "0 < j"
      then show "f (xs ! parent_of j) \<le> f (xs ! j)"
        using 1(2) True by (cases "j = i") (auto simp: up_inv_def)
    qed
    then show ?thesis using True by (simp add: sift_up_list.simps [of f xs i])
  next
    case False
    then have "up_inv f (swap_list xs i (parent_of i)) (parent_of i)"
      using 1(2) by (intro up_inv_swap) auto
    then show ?thesis using 1(1) [OF False] False by (simp add: sift_up_list.simps [of f xs i])
  qed
qed

lemma down_inv_swap:
  assumes "down_inv f xs i" "i * 2 + 1 < length xs" "f (xs ! least_child f xs i) < f (xs ! i)"
  shows "down_inv f (swap_list xs i (least_child f xs i)) (least_child f xs i)"
proof -
  let ?c = "least_child f xs i"
  let ?ys = "swap_list xs i ?c"
  have c: "i < ?c" "?c < length xs" "parent_of ?c = i" and i: "i < length xs"
    using assms(2) by (simp_all add: least_child_greater least_child_less parent_of_least_child)
  have edge: "f (xs ! parent_of j) \<le> f (xs ! j)" if "j < length xs" "0 < j" "parent_of j \<noteq> i" for j
    using assms(1) that by (simp add: down_inv_def)
  have skip: "f (xs ! parent_of i) \<le> f (xs ! j)" if "0 < i" "j < length xs" "0 < j" "parent_of j = i" for j
    using assms(1) that unfolding down_inv_def by blast
  have nth: "?ys ! k = (if k = i then xs ! ?c else if k = ?c then xs ! i else xs ! k)" for k
    using i c by (simp add: nth_swap_list)
  have "f (?ys ! parent_of j) \<le> f (?ys ! j)" if j: "j < length xs" "0 < j" "parent_of j \<noteq> ?c" for j
  proof -
    have pj: "parent_of j < j" using j(2) by (rule parent_of_less)
    consider "parent_of j = i" | "parent_of j \<noteq> i" "j = i" | "parent_of j \<noteq> i" "j \<noteq> i" by blast
    then show ?thesis
    proof cases
      case 1
      then have "j \<noteq> i" using pj by simp
      then show ?thesis using 1 nth least_child_le [OF j(1,2) 1, of f] assms(3) by auto
    next
      case 2
      then show ?thesis using nth pj skip [of ?c] c j by auto
    next
      case 3
      then show ?thesis using nth j edge [OF j(1,2) 3(1)] c(3) by auto
    qed
  qed
  moreover have "f (?ys ! parent_of ?c) \<le> f (?ys ! j)" if j: "j < length xs" "0 < j" "parent_of j = ?c" for j
  proof -
    have "?c < j" using parent_of_less [OF j(2)] j(3) by simp
    then show ?thesis using nth c edge [OF j(1,2)] j(3) by auto
  qed
  ultimately show ?thesis unfolding down_inv_def length_swap_list by blast
qed

lemma sift_down_list_heap: "down_inv f xs i \<Longrightarrow> is_heap f (sift_down_list f xs i)"
proof (induction f xs i rule: sift_down_list.induct)
  case (1 f xs i)
  show ?case
  proof (cases "length xs \<le> i * 2 + 1 \<or> f (xs ! i) \<le> f (xs ! least_child f xs i)")
    case True
    have "is_heap f xs" unfolding is_heap_def
    proof (intro allI impI)
      fix j assume j: "j < length xs" "0 < j"
      show "f (xs ! parent_of j) \<le> f (xs ! j)"
      proof (cases "parent_of j = i")
        case child: True
        then have "f (xs ! i) \<le> f (xs ! least_child f xs i)"
          using True j parent_of_eq_iff [OF j(2), of i] by auto
        then show ?thesis using least_child_le [OF j child, of f] child by simp
      qed (use 1(2) j in \<open>simp add: down_inv_def\<close>)
    qed
    then show ?thesis using True by (simp add: sift_down_list.simps [of f xs i])
  next
    case False
    then have "down_inv f (swap_list xs i (least_child f xs i)) (least_child f xs i)"
      using 1(2) by (intro down_inv_swap) auto
    then show ?thesis using 1(1) [OF False] False by (simp add: sift_down_list.simps [of f xs i])
  qed
qed

section \<open>Repairing one place\<close>

definition repair_list :: "('a \<Rightarrow> 'r::linorder) \<Rightarrow> 'a list \<Rightarrow> nat \<Rightarrow> 'a list" where
  "repair_list f xs i =
     (if i \<noteq> 0 \<and> f (xs ! i) < f (xs ! parent_of i) then sift_up_list f xs i else sift_down_list f xs i)"

lemma repair_list_mset: "i < length xs \<Longrightarrow> mset (repair_list f xs i) = mset xs"
  by (simp add: repair_list_def sift_up_list_mset sift_down_list_mset)

lemma repair_list_heap:
  assumes "hole_inv f xs i" "i < length xs"
  shows "is_heap f (repair_list f xs i)"
proof (cases "i \<noteq> 0 \<and> f (xs ! i) < f (xs ! parent_of i)")
  case True
  then have "f (xs ! i) \<le> f (xs ! j)" if "j < length xs" "0 < j" "parent_of j = i" for j
    using assms(1) that unfolding hole_inv_def by fastforce
  then have "up_inv f xs i"
    using assms unfolding hole_inv_def up_inv_def by metis
  then show ?thesis using True by (simp add: repair_list_def sift_up_list_heap)
next
  case False
  then have "down_inv f xs i"
    using assms unfolding hole_inv_def down_inv_def by (metis linorder_not_less not_gr_zero)
  then show ?thesis unfolding repair_list_def if_not_P [OF False] by (rule sift_down_list_heap)
qed

lemma heap_update_hole:
  assumes "is_heap f xs" "i < length xs"
  shows "hole_inv f (xs[i := x]) i"
proof -
  have edge: "f (xs ! parent_of j) \<le> f (xs ! j)" if "j < length xs" "0 < j" for j
    using assms(1) that by (simp add: is_heap_def)
  have "f (xs[i := x] ! parent_of i) \<le> f (xs[i := x] ! j)"
    if "0 < i" "j < length xs" "0 < j" "parent_of j = i" for j
  proof -
    have ne: "i \<noteq> j" "i \<noteq> parent_of i"
      using parent_of_less [OF that(1)] parent_of_less [OF that(3)] that(4) by auto
    have "f (xs ! parent_of i) \<le> f (xs ! i)" using edge that(1) assms(2) by blast
    also have "f (xs ! i) \<le> f (xs ! j)" using edge [OF that(2,3)] that(4) by simp
    finally show ?thesis unfolding nth_list_update_neq [OF ne(1)] nth_list_update_neq [OF ne(2)] .
  qed
  then show ?thesis using edge by (simp add: hole_inv_def)
qed

lemma heap_append_up:
  assumes "is_heap f xs"
  shows "up_inv f (xs @ [x]) (length xs)"
proof -
  have near: "parent_of j < length xs" if "j < length (xs @ [x])" "0 < j" for j
    using that parent_of_less [of j] by simp
  have "f ((xs @ [x]) ! parent_of j) \<le> f ((xs @ [x]) ! j)" if "j < length (xs @ [x])" "0 < j" "j \<noteq> length xs" for j
    using assms near [OF that(1,2)] that by (simp add: is_heap_def nth_append)
  moreover have "parent_of j \<noteq> length xs" if "j < length (xs @ [x])" "0 < j" for j
    using near [OF that] by simp
  ultimately show ?thesis unfolding up_inv_def by (intro conjI allI impI) (simp, blast, blast)
qed

lemma is_heap_butlast:
  assumes "is_heap f xs"
  shows "is_heap f (butlast xs)"
proof -
  have "parent_of j < length xs - 1" if "j < length xs - 1" for j
    using that parent_of_le le_less_trans by blast
  then show ?thesis using assms by (simp add: is_heap_def nth_butlast)
qed

lemma hole_inv_butlast:
  assumes "hole_inv f xs i"
  shows "hole_inv f (butlast xs) i"
proof -
  have "parent_of j < length xs - 1" if "j < length xs - 1" for j
    using that parent_of_le le_less_trans by blast
  moreover have "parent_of i < length xs - 1" if "j < length xs - 1" "parent_of j = i" for j
    using that parent_of_le [of j] parent_of_le [of i] by linarith
  ultimately show ?thesis using assms by (simp add: hole_inv_def nth_butlast)
qed

end
