(* ===== verification/Timer_Heap.thy ===== *)
theory Timer_Heap
  imports Timer_Index Heap_Order "HOL-Library.Product_Lexorder"
begin

text \<open>
  The indexed binary min-heap of the timer engine (\<open>tx-time/src/timer/min_heap.rs\<close>): a heap
  of entries ordered by deadline and key, a table of slots that records where in the heap an
  entry is, the key index of \<^typ>\<open>key_table\<close> from keys to slots, and a free list threaded
  through the dead slots.

  Every operation is in the option monad; \<^term>\<open>None\<close> is a panic (a failed \<open>assert!\<close> or
  \<open>expect\<close>, an index out of range, a capacity overflow) or a probe that never ends. The
  capacities of the two vectors are part of the state, since the source asks for them.
\<close>

section \<open>State\<close>

record heap_entry =
  he_key :: timer_key
  he_deadline :: u64
  he_generation :: u64

record timer_slot =
  sl_key :: timer_key
  sl_deadline :: u64
  sl_generation :: u64
  sl_heap_index :: nat
  sl_live :: bool

definition NO_FREE_SLOT :: nat where
  "NO_FREE_SLOT = usize_max"

record min_heap =
  mh_heap :: "heap_entry list"
  mh_heap_cap :: nat
  mh_slots :: "timer_slot list"
  mh_slots_cap :: nat
  mh_key_slots :: key_table
  mh_free_head :: nat

definition min_heap_new :: min_heap where
  "min_heap_new = \<lparr>mh_heap = [], mh_heap_cap = 0, mh_slots = [], mh_slots_cap = 0,
     mh_key_slots = [], mh_free_head = NO_FREE_SLOT\<rparr>"

section \<open>Vector capacity\<close>

text \<open>
  \<open>Vec::reserve(additional)\<close>: nothing when the capacity is enough, otherwise the amortised
  growth of the standard library (at least double, at least four elements), with a panic when
  the new size exceeds \<open>isize::MAX\<close> bytes.
\<close>

definition isize_max :: nat where
  "isize_max = 2 ^ 63 - 1"

definition vec_reserve :: "nat \<Rightarrow> nat \<Rightarrow> nat \<Rightarrow> nat \<Rightarrow> nat option" where
  "vec_reserve elem_size len cap additional =
     (if additional \<le> cap - len then Some cap
      else do {
        required \<leftarrow> checked_add len additional;
        let cap' = max (max (cap * 2) required) 4;
        assert_that (cap' * elem_size \<le> isize_max);
        Some cap'
      })"

definition HEAP_ENTRY_SIZE :: nat where "HEAP_ENTRY_SIZE = 24"
definition SLOT_SIZE :: nat where "SLOT_SIZE = 40"
definition KEY_SLOT_SIZE :: nat where "KEY_SLOT_SIZE = 24"

section \<open>Operations\<close>

text \<open>Twice the entries there will be after one more insertion.\<close>

definition required_cells :: "min_heap \<Rightarrow> nat option" where
  "required_cells h = checked_add (length (mh_heap h)) 1 \<bind> (\<lambda>count. checked_mul count 2)"

definition key_slots_can_insert :: "min_heap \<Rightarrow> bool" where
  "key_slots_can_insert h =
     (mh_key_slots h \<noteq> [] \<and>
      (case required_cells h of
         Some required \<Rightarrow> required \<le> length (mh_key_slots h)
       | None \<Rightarrow> False))"

definition has_insert_capacity :: "min_heap \<Rightarrow> bool" where
  "has_insert_capacity h =
     (length (mh_heap h) < mh_heap_cap h
      \<and> (mh_free_head h \<noteq> NO_FREE_SLOT \<or> length (mh_slots h) < mh_slots_cap h)
      \<and> key_slots_can_insert h)"

fun rehash_live :: "key_table \<Rightarrow> (nat \<times> timer_slot) list \<Rightarrow> key_table option" where
  "rehash_live ks [] = Some ks"
| "rehash_live ks ((index, slot) # rest) =
     (if sl_live slot
      then do {
        ks \<leftarrow> insert_key_slot_into ks (sl_key slot) index;
        rehash_live ks rest
      }
      else rehash_live ks rest)"

definition reserve_slots :: "min_heap \<Rightarrow> nat option" where
  "reserve_slots h =
     (if mh_free_head h = NO_FREE_SLOT
      then vec_reserve SLOT_SIZE (length (mh_slots h)) (mh_slots_cap h) 1
      else Some (mh_slots_cap h))"

definition reserve_for_insert :: "min_heap \<Rightarrow> min_heap option" where
  "reserve_for_insert h =
     do {
       heap_cap \<leftarrow> vec_reserve HEAP_ENTRY_SIZE (length (mh_heap h)) (mh_heap_cap h) 1;
       slots_cap \<leftarrow> reserve_slots h;
       let h = h\<lparr>mh_heap_cap := heap_cap, mh_slots_cap := slots_cap\<rparr>;
       if key_slots_can_insert h then Some h
       else do {
         required \<leftarrow> required_cells h;
         let required = max required 8;
         assert_that (required * KEY_SLOT_SIZE \<le> isize_max);
         key_slots \<leftarrow> rehash_live (replicate required None) (enumerate 0 (mh_slots h));
         Some (h\<lparr>mh_key_slots := key_slots\<rparr>)
       }
     }"

definition due_count :: "min_heap \<Rightarrow> u64 \<Rightarrow> nat" where
  "due_count h now_ns = length (filter (\<lambda>entry. he_deadline entry \<le> now_ns) (mh_heap h))"

text \<open>The slot of a key, or where it is; \<open>get\<close> and \<open>get_mut\<close> check the range.\<close>

definition slot_mut :: "min_heap \<Rightarrow> timer_key \<Rightarrow> nat option option" where
  "slot_mut h key =
     do {
       found \<leftarrow> slot_index (mh_key_slots h) key;
       Some (case found of
               Some index \<Rightarrow> if index < length (mh_slots h) then Some index else None
             | None \<Rightarrow> None)
     }"

definition slot_of :: "min_heap \<Rightarrow> timer_key \<Rightarrow> timer_slot option option" where
  "slot_of h key =
     do {
       found \<leftarrow> slot_mut h key;
       Some (map_option (\<lambda>index. mh_slots h ! index) found)
     }"

definition less_entry :: "heap_entry \<Rightarrow> heap_entry \<Rightarrow> bool" where
  "less_entry left right =
     ((he_deadline left, he_key left) < (he_deadline right, he_key right))"

text \<open>\<open>slot_mut(key).expect(..).heap_index = index\<close>.\<close>

definition set_heap_index :: "min_heap \<Rightarrow> timer_key \<Rightarrow> nat \<Rightarrow> min_heap option" where
  "set_heap_index h key index =
     do {
       found \<leftarrow> slot_mut h key;
       s \<leftarrow> found;
       Some (h\<lparr>mh_slots := (mh_slots h)[s := (mh_slots h ! s)\<lparr>sl_heap_index := index\<rparr>]\<rparr>)
     }"

definition swap_entries :: "min_heap \<Rightarrow> nat \<Rightarrow> nat \<Rightarrow> min_heap option" where
  "swap_entries h left right =
     do {
       assert_that (left < length (mh_heap h) \<and> right < length (mh_heap h));
       let h = h\<lparr>mh_heap := swap_list (mh_heap h) left right\<rparr>;
       let left_key = he_key (mh_heap h ! left);
       let right_key = he_key (mh_heap h ! right);
       h \<leftarrow> set_heap_index h left_key left;
       set_heap_index h right_key right
     }"

function sift_up :: "min_heap \<Rightarrow> nat \<Rightarrow> min_heap option" where
  "sift_up h index =
     (if index = 0 then Some h
      else let parent = (index - 1) div 2 in
        do {
          child_entry \<leftarrow> idx (mh_heap h) index;
          parent_entry \<leftarrow> idx (mh_heap h) parent;
          if \<not> less_entry child_entry parent_entry then Some h
          else do {
            h \<leftarrow> swap_entries h index parent;
            sift_up h parent
          }
        })"
  by pat_completeness auto
termination by (relation "measure snd") auto

lemma set_heap_index_length:
  "set_heap_index h key index = Some h' \<Longrightarrow> mh_heap h' = mh_heap h"
  by (auto simp: set_heap_index_def split: bind_splits)

lemma swap_entries_length:
  "swap_entries h l r = Some h' \<Longrightarrow> length (mh_heap h') = length (mh_heap h)"
  by (auto simp: swap_entries_def swap_list_def Let_def dest!: set_heap_index_length split: bind_splits)

function sift_down :: "min_heap \<Rightarrow> nat \<Rightarrow> min_heap option" where
  "sift_down h index =
     (let left = index * 2 + 1 in
      if left \<ge> length (mh_heap h) then Some h
      else let right = left + 1;
               child = (if right < length (mh_heap h)
                          \<and> less_entry (mh_heap h ! right) (mh_heap h ! left)
                        then right else left)
        in if \<not> less_entry (mh_heap h ! child) (mh_heap h ! index) then Some h
        else do {
          h \<leftarrow> swap_entries h index child;
          sift_down h child
        })"
  by pat_completeness auto
termination
  by (relation "measure (\<lambda>(h, i). length (mh_heap h) - i)") (auto dest!: swap_entries_length)

declare sift_up.simps [simp del] sift_down.simps [simp del]

definition repair :: "min_heap \<Rightarrow> nat \<Rightarrow> min_heap option" where
  "repair h index =
     do {
       entry \<leftarrow> idx (mh_heap h) index;
       if index \<noteq> 0 \<and> less_entry entry (mh_heap h ! ((index - 1) div 2))
       then sift_up h index
       else sift_down h index
     }"

text \<open>\<open>Vec::swap_remove\<close>: the last element takes the place of the removed one.\<close>

definition swap_remove :: "'a list \<Rightarrow> nat \<Rightarrow> ('a \<times> 'a list) option" where
  "swap_remove xs i =
     do {
       x \<leftarrow> idx xs i;
       Some (x, butlast (xs[i := last xs]))
     }"

definition remove_at :: "min_heap \<Rightarrow> nat \<Rightarrow> (heap_entry \<times> min_heap) option" where
  "remove_at h index =
     do {
       (removed, heap) \<leftarrow> swap_remove (mh_heap h) index;
       let h = h\<lparr>mh_heap := heap\<rparr>;
       if index < length heap
       then do {
         let moved_key = he_key (heap ! index);
         h \<leftarrow> set_heap_index h moved_key index;
         h \<leftarrow> repair h index;
         Some (removed, h)
       }
       else Some (removed, h)
     }"

definition recycle_slot :: "min_heap \<Rightarrow> timer_key \<Rightarrow> min_heap option" where
  "recycle_slot h key =
     do {
       (found, key_slots) \<leftarrow> remove_key_slot (mh_key_slots h) key;
       let h = h\<lparr>mh_key_slots := key_slots\<rparr>;
       s \<leftarrow> found;
       slot \<leftarrow> idx (mh_slots h) s;
       assert_that (sl_live slot);
       let slot = slot\<lparr>sl_live := False, sl_heap_index := mh_free_head h\<rparr>;
       Some (h\<lparr>mh_slots := (mh_slots h)[s := slot], mh_free_head := s\<rparr>)
     }"

text \<open>The slot of a new timer: a free one when there is one, else a new one at the end.\<close>

definition alloc_slot :: "min_heap \<Rightarrow> timer_slot \<Rightarrow> (nat \<times> min_heap) option" where
  "alloc_slot h slot =
     (if mh_free_head h = NO_FREE_SLOT
      then Some (length (mh_slots h), h\<lparr>mh_slots := mh_slots h @ [slot]\<rparr>)
      else do {
        let index = mh_free_head h;
        free \<leftarrow> idx (mh_slots h) index;
        Some (index, h\<lparr>mh_free_head := sl_heap_index free, mh_slots := (mh_slots h)[index := slot]\<rparr>)
      })"

definition heap_insert :: "min_heap \<Rightarrow> timer_key \<Rightarrow> u64 \<Rightarrow> min_heap option" where
  "heap_insert h key deadline_ns =
     do {
       assert_that (has_insert_capacity h);
       let heap_index = length (mh_heap h);
       let slot = \<lparr>sl_key = key, sl_deadline = deadline_ns, sl_generation = 0,
                   sl_heap_index = heap_index, sl_live = True\<rparr>;
       (index, h) \<leftarrow> alloc_slot h slot;
       key_slots \<leftarrow> insert_key_slot_into (mh_key_slots h) key index;
       let h = h\<lparr>mh_key_slots := key_slots\<rparr>;
       let h = h\<lparr>mh_heap := mh_heap h @ [\<lparr>he_key = key, he_deadline = deadline_ns, he_generation = 0\<rparr>]\<rparr>;
       sift_up h heap_index
     }"

definition heap_remove :: "min_heap \<Rightarrow> timer_key \<Rightarrow> (bool \<times> min_heap) option" where
  "heap_remove h key =
     do {
       found \<leftarrow> slot_of h key;
       case found of
         None \<Rightarrow> Some (False, h)
       | Some slot \<Rightarrow>
           if \<not> sl_live slot then Some (False, h)
           else do {
             let heap_index = sl_heap_index slot;
             (removed, h) \<leftarrow> remove_at h heap_index;
             h \<leftarrow> recycle_slot h key;
             Some (True, h)
           }
     }"

definition heap_rearm :: "min_heap \<Rightarrow> timer_key \<Rightarrow> u64 \<Rightarrow> (bool \<times> min_heap) option" where
  "heap_rearm h key deadline_ns =
     do {
       found \<leftarrow> slot_mut h key;
       case found of
         None \<Rightarrow> Some (False, h)
       | Some s \<Rightarrow>
           let slot = mh_slots h ! s in
           if \<not> sl_live slot then Some (False, h)
           else do {
             let slot = slot\<lparr>sl_generation := sl_generation slot + 1, sl_deadline := deadline_ns\<rparr>;
             let h = h\<lparr>mh_slots := (mh_slots h)[s := slot]\<rparr>;
             let heap_index = sl_heap_index slot;
             let generation = sl_generation slot;
             assert_that (heap_index < length (mh_heap h));
             let h = h\<lparr>mh_heap := (mh_heap h)[heap_index :=
               \<lparr>he_key = key, he_deadline = deadline_ns, he_generation = generation\<rparr>]\<rparr>;
             h \<leftarrow> repair h heap_index;
             Some (True, h)
           }
     }"

text \<open>The heap shrinks by one entry in each round of \<open>drain_due\<close>, so the loop ends.\<close>

lemma sift_up_length: "sift_up h i = Some h' \<Longrightarrow> length (mh_heap h') = length (mh_heap h)"
proof (induction i arbitrary: h rule: less_induct)
  case (less i)
  have "(i - 1) div 2 < i" if "i \<noteq> 0" using that by linarith
  with less.prems [unfolded sift_up.simps [of h i]] less.IH [of "(i - 1) div 2"] show ?case
    by (auto simp: Let_def dest: swap_entries_length split: if_splits bind_splits)
qed

lemma sift_down_length: "sift_down h i = Some h' \<Longrightarrow> length (mh_heap h') = length (mh_heap h)"
proof (induction "length (mh_heap h) - i" arbitrary: h i rule: less_induct)
  case less
  define child where "child = (if i * 2 + 2 < length (mh_heap h)
    \<and> less_entry (mh_heap h ! (i * 2 + 2)) (mh_heap h ! (i * 2 + 1)) then i * 2 + 2 else i * 2 + 1)"
  have "h' = h \<or> i * 2 + 1 < length (mh_heap h)
      \<and> (\<exists>h1. swap_entries h i child = Some h1 \<and> sift_down h1 child = Some h')"
    using less.prems [unfolded sift_down.simps [of h i]]
    by (auto simp: Let_def child_def split: if_splits bind_splits)
  moreover have "i < child" by (simp add: child_def)
  ultimately consider "h' = h" | h1 where "swap_entries h i child = Some h1" "sift_down h1 child = Some h'"
      "length (mh_heap h) - child < length (mh_heap h) - i"
    by fastforce
  then show ?case
  proof cases
    case 2
    then show ?thesis using less.hyps [of h1 child] swap_entries_length [OF 2(1)] by simp
  qed simp
qed

lemma remove_at_length:
  assumes "remove_at h i = Some (e, h')"
  shows "length (mh_heap h') < length (mh_heap h)"
  using assms
  by (auto simp: remove_at_def swap_remove_def repair_def idx_eq_Some_iff Let_def
      dest!: set_heap_index_length sift_up_length sift_down_length
      split: bind_splits if_splits)

lemma recycle_slot_heap: "recycle_slot h key = Some h' \<Longrightarrow> mh_heap h' = mh_heap h"
  by (auto simp: recycle_slot_def Let_def split: bind_splits)

function drain_due :: "min_heap \<Rightarrow> u64 \<Rightarrow> timer_key list \<Rightarrow> nat \<Rightarrow> (min_heap \<times> timer_key list) option" where
  "drain_due h now_ns out out_cap =
     (case mh_heap h of
        [] \<Rightarrow> Some (h, out)
      | entry # _ \<Rightarrow>
          if he_deadline entry > now_ns then Some (h, out)
          else do {
            (removed, h) \<leftarrow> remove_at h 0;
            found \<leftarrow> slot_of h (he_key removed);
            case found of
              None \<Rightarrow> drain_due h now_ns out out_cap
            | Some slot \<Rightarrow>
                if sl_live slot \<and> sl_generation slot = he_generation removed
                then do {
                  h \<leftarrow> recycle_slot h (he_key removed);
                  assert_that (length out < out_cap);
                  drain_due h now_ns (out @ [he_key removed]) out_cap
                }
                else drain_due h now_ns out out_cap
          })"
  by pat_completeness auto
termination
  by (relation "measure (\<lambda>(h, _). length (mh_heap h))")
    (auto dest!: remove_at_length recycle_slot_heap)

declare drain_due.simps [simp del]

definition heap_next_deadline_ns :: "min_heap \<Rightarrow> u64 option" where
  "heap_next_deadline_ns h =
     (case mh_heap h of [] \<Rightarrow> None | entry # _ \<Rightarrow> Some (he_deadline entry))"

end
