(* ===== verification/Timer_Heap_Linked.thy ===== *)
theory Timer_Heap_Linked
  imports Timer_Heap
begin

text \<open>
  The heap, the slot table and the key index of the timer heap stay linked: the invariant
  \<open>linked\<close>, and that every operation of the heap keeps it, never panics, and moves the entries
  of the heap as the list functions of \<open>Heap_Order\<close> do.
\<close>

section \<open>The linkage of heap, slots and index\<close>

definition rank :: "heap_entry \<Rightarrow> u64 \<times> u64" where
  "rank e = (he_deadline e, he_key e)"

text \<open>The slot that belongs to the entry \<open>e\<close> at place \<open>i\<close> of the heap.\<close>

definition slot_for :: "nat \<Rightarrow> heap_entry \<Rightarrow> timer_slot" where
  "slot_for i e = \<lparr>sl_key = he_key e, sl_deadline = he_deadline e, sl_generation = he_generation e,
     sl_heap_index = i, sl_live = True\<rparr>"

lemma slot_for_simps [simp]:
  "sl_key (slot_for i e) = he_key e" "sl_deadline (slot_for i e) = he_deadline e"
  "sl_generation (slot_for i e) = he_generation e" "sl_heap_index (slot_for i e) = i"
  "sl_live (slot_for i e)" "(slot_for i e)\<lparr>sl_heap_index := j\<rparr> = slot_for j e"
  by (simp_all add: slot_for_def)

fun free_chain :: "timer_slot list \<Rightarrow> nat \<Rightarrow> nat list \<Rightarrow> bool" where
  "free_chain slots head [] \<longleftrightarrow> head = NO_FREE_SLOT"
| "free_chain slots head (s # rest) \<longleftrightarrow>
     head = s \<and> s < length slots \<and> \<not> sl_live (slots ! s) \<and> free_chain slots (sl_heap_index (slots ! s)) rest"

text \<open>The free list runs through exactly the dead slots.\<close>

definition free_ok :: "timer_slot list \<Rightarrow> nat \<Rightarrow> bool" where
  "free_ok slots head \<longleftrightarrow>
     (\<exists>chain. free_chain slots head chain \<and> distinct chain
        \<and> (\<forall>s < length slots. \<not> sl_live (slots ! s) \<longrightarrow> s \<in> set chain))"

text \<open>The index and the live slots name each other.\<close>

definition slots_linked :: "key_table \<Rightarrow> timer_slot list \<Rightarrow> bool" where
  "slots_linked ks slots \<longleftrightarrow>
     (\<forall>k s. table_map ks k = Some s \<longrightarrow> s < length slots \<and> sl_live (slots ! s) \<and> sl_key (slots ! s) = k)
     \<and> (\<forall>s < length slots. sl_live (slots ! s) \<longrightarrow> table_map ks (sl_key (slots ! s)) = Some s)"

definition entry_linked :: "key_table \<Rightarrow> timer_slot list \<Rightarrow> nat \<Rightarrow> heap_entry \<Rightarrow> bool" where
  "entry_linked ks slots i e \<longleftrightarrow>
     (\<exists>s. table_map ks (he_key e) = Some s \<and> s < length slots \<and> slots ! s = slot_for i e)"

text \<open>An entry that has left the heap but not the slots.\<close>

definition departed_linked :: "key_table \<Rightarrow> timer_slot list \<Rightarrow> heap_entry \<Rightarrow> bool" where
  "departed_linked ks slots e \<longleftrightarrow>
     (\<exists>s. table_map ks (he_key e) = Some s \<and> sl_generation (slots ! s) = he_generation e)"

definition heap_keys :: "min_heap \<Rightarrow> timer_key set" where
  "heap_keys h = he_key ` set (mh_heap h)"

text \<open>
  \<open>linked X h\<close>: heap, slots and index agree, but for the entries \<open>X\<close> that have already left
  the heap while the index and the slots still know them.
\<close>

definition linked :: "heap_entry set \<Rightarrow> min_heap \<Rightarrow> bool" where
  "linked X h \<longleftrightarrow>
     index_ok (mh_key_slots h)
     \<and> dom (table_map (mh_key_slots h)) = heap_keys h \<union> he_key ` X \<and> heap_keys h \<inter> he_key ` X = {}
     \<and> 2 * card (heap_keys h \<union> he_key ` X) \<le> length (mh_key_slots h)
     \<and> distinct (map he_key (mh_heap h))
     \<and> (\<forall>i < length (mh_heap h). entry_linked (mh_key_slots h) (mh_slots h) i (mh_heap h ! i))
     \<and> (\<forall>e \<in> X. departed_linked (mh_key_slots h) (mh_slots h) e)
     \<and> slots_linked (mh_key_slots h) (mh_slots h)
     \<and> free_ok (mh_slots h) (mh_free_head h)
     \<and> length (mh_heap h) \<le> mh_heap_cap h \<and> length (mh_slots h) \<le> mh_slots_cap h
     \<and> mh_heap_cap h * HEAP_ENTRY_SIZE \<le> isize_max \<and> mh_slots_cap h * SLOT_SIZE \<le> isize_max"

lemma linkedD:
  assumes "linked X h"
  shows "index_ok (mh_key_slots h)"
    and "dom (table_map (mh_key_slots h)) = heap_keys h \<union> he_key ` X"
    and "heap_keys h \<inter> he_key ` X = {}"
    and "2 * card (heap_keys h \<union> he_key ` X) \<le> length (mh_key_slots h)"
    and "distinct (map he_key (mh_heap h))"
    and "i < length (mh_heap h) \<Longrightarrow> entry_linked (mh_key_slots h) (mh_slots h) i (mh_heap h ! i)"
    and "slots_linked (mh_key_slots h) (mh_slots h)"
    and "free_ok (mh_slots h) (mh_free_head h)"
    and "e \<in> X \<Longrightarrow> departed_linked (mh_key_slots h) (mh_slots h) e"
    and "length (mh_heap h) \<le> mh_heap_cap h" "length (mh_slots h) \<le> mh_slots_cap h"
    and "mh_heap_cap h * HEAP_ENTRY_SIZE \<le> isize_max" "mh_slots_cap h * SLOT_SIZE \<le> isize_max"
  using assms unfolding linked_def by blast+

lemma slots_linkedD:
  assumes "slots_linked ks slots"
  shows "table_map ks k = Some s \<Longrightarrow> s < length slots"
    and "table_map ks k = Some s \<Longrightarrow> sl_live (slots ! s)"
    and "table_map ks k = Some s \<Longrightarrow> sl_key (slots ! s) = k"
    and "s < length slots \<Longrightarrow> sl_live (slots ! s) \<Longrightarrow> table_map ks (sl_key (slots ! s)) = Some s"
  using assms unfolding slots_linked_def by blast+

lemma slots_linked_inj:
  "slots_linked ks slots \<Longrightarrow> table_map ks k = Some s \<Longrightarrow> table_map ks k' = Some s \<Longrightarrow> k = k'"
  using slots_linkedD(3) by metis

text \<open>A live slot is rewritten: its key and its being live stay.\<close>

lemma slots_linked_update:
  assumes "slots_linked ks slots" "s < length slots" "sl_live (slots ! s)" "sl_live x"
    "sl_key x = sl_key (slots ! s)"
  shows "slots_linked ks (slots[s := x])"
proof -
  have "sl_live (slots[s := x] ! t) = sl_live (slots ! t)" "sl_key (slots[s := x] ! t) = sl_key (slots ! t)" for t
    using assms by (auto simp: nth_list_update)
  then show ?thesis using assms(1) by (simp add: slots_linked_def)
qed

lemma free_chain_cong:
  assumes "free_chain slots head chain" "length slots \<le> length slots'"
    and "\<And>s. s \<in> set chain \<Longrightarrow> slots' ! s = slots ! s"
  shows "free_chain slots' head chain"
  using assms by (induction chain arbitrary: head) auto

lemma free_chain_dead: "free_chain slots head chain \<Longrightarrow> s \<in> set chain \<Longrightarrow> s < length slots \<and> \<not> sl_live (slots ! s)"
  by (induction chain arbitrary: head) auto

lemma free_ok_update:
  assumes "free_ok slots head" "s < length slots" "sl_live (slots ! s)" "sl_live x"
  shows "free_ok (slots[s := x]) head"
proof -
  obtain chain where c: "free_chain slots head chain" "distinct chain"
      "\<forall>t < length slots. \<not> sl_live (slots ! t) \<longrightarrow> t \<in> set chain"
    using assms(1) unfolding free_ok_def by blast
  have "s \<notin> set chain" using free_chain_dead [OF c(1)] assms(3) by blast
  then have "free_chain (slots[s := x]) head chain"
    by (intro free_chain_cong [OF c(1)]) (auto, metis nth_list_update_neq)
  moreover have "\<forall>t < length slots. \<not> sl_live (slots[s := x] ! t) \<longrightarrow> t \<in> set chain"
    using c(3) assms(2,4) by (metis nth_list_update)
  ultimately show ?thesis using c(2) unfolding free_ok_def length_list_update by blast
qed

lemma free_ok_head:
  assumes "free_ok slots head" "length slots \<le> usize_max"
  shows "head \<noteq> NO_FREE_SLOT \<longleftrightarrow> head < length slots"
    and "head \<noteq> NO_FREE_SLOT \<Longrightarrow> \<not> sl_live (slots ! head)"
proof -
  obtain chain where c: "free_chain slots head chain" using assms(1) unfolding free_ok_def by blast
  then show "head \<noteq> NO_FREE_SLOT \<longleftrightarrow> head < length slots"
    using assms(2) by (cases chain) (auto simp: NO_FREE_SLOT_def)
  show "head \<noteq> NO_FREE_SLOT \<Longrightarrow> \<not> sl_live (slots ! head)" using c by (cases chain) auto
qed

section \<open>Moving entries\<close>

lemma set_heap_index_eq:
  assumes "index_ok (mh_key_slots h)" "table_map (mh_key_slots h) key = Some s" "s < length (mh_slots h)"
  shows "set_heap_index h key i =
    Some (h\<lparr>mh_slots := (mh_slots h)[s := (mh_slots h ! s)\<lparr>sl_heap_index := i\<rparr>]\<rparr>)"
  using assms by (simp add: set_heap_index_def slot_mut_def slot_index_map)

lemma linked_keys_distinct:
  assumes "linked X h" "i < length (mh_heap h)" "j < length (mh_heap h)" "i \<noteq> j"
  shows "he_key (mh_heap h ! i) \<noteq> he_key (mh_heap h ! j)"
  using nth_eq_iff_index_eq [OF linkedD(5) [OF assms(1)], of i j] assms by simp

lemma linked_slot:
  assumes "linked X h" "i < length (mh_heap h)"
  obtains s where "table_map (mh_key_slots h) (he_key (mh_heap h ! i)) = Some s"
    "s < length (mh_slots h)" "mh_slots h ! s = slot_for i (mh_heap h ! i)"
  using linkedD(6) [OF assms] unfolding entry_linked_def by blast

text \<open>Rewriting the slot of a key of the heap leaves the departed entries alone.\<close>

lemma departed_linked_update:
  assumes "departed_linked ks slots e" "table_map ks k = Some s" "slots_linked ks slots" "k \<noteq> he_key e"
  shows "departed_linked ks (slots[s := x]) e"
proof -
  obtain t where t: "table_map ks (he_key e) = Some t" "sl_generation (slots ! t) = he_generation e"
    using assms(1) unfolding departed_linked_def by blast
  then have "s \<noteq> t" using slots_linked_inj [OF assms(3)] assms(2,4) by blast
  then show ?thesis using t by (auto simp: departed_linked_def)
qed

lemma swap_entries_linked:
  assumes "linked X h" "l < length (mh_heap h)" "r < length (mh_heap h)" "l \<noteq> r"
  shows "\<exists>h'. swap_entries h l r = Some h' \<and> linked X h' \<and> mh_heap h' = swap_list (mh_heap h) l r
    \<and> mh_heap_cap h' = mh_heap_cap h"
proof -
  let ?ks = "mh_key_slots h" and ?heap = "mh_heap h" and ?slots = "mh_slots h"
  let ?heap' = "swap_list ?heap l r"
  obtain a where a: "table_map ?ks (he_key (?heap ! l)) = Some a" "a < length ?slots"
      "?slots ! a = slot_for l (?heap ! l)"
    using linked_slot [OF assms(1,2)] .
  obtain b where b: "table_map ?ks (he_key (?heap ! r)) = Some b" "b < length ?slots"
      "?slots ! b = slot_for r (?heap ! r)"
    using linked_slot [OF assms(1,3)] .
  have ab: "a \<noteq> b" using a b assms(4) by (metis slot_for_simps(4))
  let ?slots' = "?slots[b := slot_for l (?heap ! r), a := slot_for r (?heap ! l)]"
  let ?h' = "h\<lparr>mh_heap := ?heap', mh_slots := ?slots'\<rparr>"
  have nth: "?heap' ! l = ?heap ! r" "?heap' ! r = ?heap ! l"
    using assms by (simp_all add: nth_swap_list)
  have "swap_entries h l r = Some ?h'"
    using a b ab assms(2,3) linkedD(1) [OF assms(1)]
    by (simp add: swap_entries_def nth set_heap_index_eq)
  moreover have "linked X ?h'"
  proof -
    have keys: "heap_keys ?h' = heap_keys h" using assms(2,3) by (simp add: heap_keys_def)
    have "mset (map he_key ?heap') = mset (map he_key ?heap)" using assms(2,3) by simp
    then have dist: "distinct (map he_key ?heap')"
      using linkedD(5) [OF assms(1)] mset_eq_imp_distinct_iff by blast
    have sl: "slots_linked ?ks ?slots'"
      using slots_linked_update [OF slots_linked_update [OF linkedD(7) [OF assms(1)] b(2)]] a b ab by simp
    have fr: "free_ok ?slots' (mh_free_head h)"
      using free_ok_update [OF free_ok_update [OF linkedD(8) [OF assms(1)] b(2)]] a b ab by simp
    have "entry_linked ?ks ?slots' i (?heap' ! i)" if i: "i < length ?heap" for i
    proof -
      consider "i = l" | "i = r" | "i \<noteq> l" "i \<noteq> r" by blast
      then show ?thesis
      proof cases
        case 1
        then show ?thesis using nth b ab by (simp add: entry_linked_def)
      next
        case 2
        then show ?thesis using nth a by (simp add: entry_linked_def)
      next
        case 3
        obtain s where s: "table_map ?ks (he_key (?heap ! i)) = Some s" "s < length ?slots"
            "?slots ! s = slot_for i (?heap ! i)"
          using linked_slot [OF assms(1) i] .
        have "s \<noteq> a" "s \<noteq> b" using s(3) a(3) b(3) 3 by (metis slot_for_simps(4))+
        then show ?thesis using s 3 assms(2,3) by (simp add: entry_linked_def nth_swap_list)
      qed
    qed
    moreover have "departed_linked ?ks ?slots' e" if "e \<in> X" for e
    proof -
      have "he_key (?heap ! l) \<noteq> he_key e" "he_key (?heap ! r) \<noteq> he_key e"
        using linkedD(3) [OF assms(1)] that assms(2,3) unfolding heap_keys_def by force+
      moreover have sl1: "slots_linked ?ks (?slots[b := slot_for l (?heap ! r)])"
        using slots_linked_update [OF linkedD(7) [OF assms(1)] b(2)] b(3) by simp
      ultimately show ?thesis
        using departed_linked_update [OF departed_linked_update
            [OF linkedD(9) [OF assms(1) that] b(1) linkedD(7) [OF assms(1)]] a(1) sl1] by simp
    qed
    ultimately show ?thesis using assms(1) keys dist sl fr unfolding linked_def by simp
  qed
  ultimately show ?thesis by simp
qed

text \<open>The sift functions compute the list functions of the reference and keep the linkage.\<close>

lemma less_entry_rank: "less_entry a b \<longleftrightarrow> rank a < rank b"
  by (simp add: less_entry_def rank_def)

lemma sift_up_linked:
  assumes "linked X h" "i < length (mh_heap h)"
  shows "\<exists>h'. sift_up h i = Some h' \<and> linked X h' \<and> mh_heap h' = sift_up_list rank (mh_heap h) i"
  using assms
proof (induction i arbitrary: h rule: less_induct)
  case (less i)
  let ?p = "parent_of i"
  show ?case
  proof (cases "i = 0 \<or> rank (mh_heap h ! ?p) \<le> rank (mh_heap h ! i)")
    case True
    then have "sift_up h i = Some h"
      using less.prems parent_of_le [of i] unfolding sift_up.simps [of h i] parent_of_def [symmetric] Let_def
      by (auto simp: less_entry_rank not_less)
    then show ?thesis using True less.prems(1) by (simp add: sift_up_list.simps [of rank "mh_heap h" i])
  next
    case False
    then have p: "?p < i" using parent_of_less [of i] by simp
    obtain h1 where h1: "swap_entries h i ?p = Some h1" "linked X h1" "mh_heap h1 = swap_list (mh_heap h) i ?p"
      using swap_entries_linked [OF less.prems(1), of i ?p] less.prems(2) p by auto
    have "sift_up h i = sift_up h1 ?p"
      using False less.prems(2) p h1(1) unfolding sift_up.simps [of h i] parent_of_def [symmetric] Let_def
      by (simp add: less_entry_rank not_le)
    then show ?thesis
      using less.IH [OF p h1(2)] h1(3) p less.prems(2) False
      by (simp add: sift_up_list.simps [of rank "mh_heap h" i])
  qed
qed

lemma sift_down_linked:
  assumes "linked X h" "i < length (mh_heap h)"
  shows "\<exists>h'. sift_down h i = Some h' \<and> linked X h' \<and> mh_heap h' = sift_down_list rank (mh_heap h) i"
  using assms
proof (induction "length (mh_heap h) - i" arbitrary: h i rule: less_induct)
  case less
  let ?heap = "mh_heap h"
  let ?c = "least_child rank ?heap i"
  have child: "(if i * 2 + 1 + 1 < length ?heap \<and> less_entry (?heap ! (i * 2 + 1 + 1)) (?heap ! (i * 2 + 1))
      then i * 2 + 1 + 1 else i * 2 + 1) = ?c"
    by (simp add: least_child_def less_entry_rank)
  note unfolded = sift_down.simps [of h i, unfolded Let_def child]
  show ?case
  proof (cases "length ?heap \<le> i * 2 + 1 \<or> rank (?heap ! i) \<le> rank (?heap ! ?c)")
    case True
    then have "sift_down h i = Some h" unfolding unfolded by (auto simp: less_entry_rank)
    then show ?thesis using True less.prems(1) by (simp add: sift_down_list.simps [of rank ?heap i])
  next
    case False
    then have c: "i < ?c" "?c < length ?heap" using least_child_greater least_child_less [of i ?heap rank] by auto
    obtain h1 where h1: "swap_entries h i ?c = Some h1" "linked X h1" "mh_heap h1 = swap_list ?heap i ?c"
      using swap_entries_linked [OF less.prems(1), of i ?c] less.prems(2) c by auto
    have "sift_down h i = sift_down h1 ?c"
      using False h1(1) unfolding unfolded by (auto simp: less_entry_rank)
    then show ?thesis
      using less.hyps [of h1 ?c] h1 c less.prems(2) False
      by (simp add: sift_down_list.simps [of rank ?heap i])
  qed
qed

lemma repair_linked:
  assumes "linked X h" "i < length (mh_heap h)"
  shows "\<exists>h'. repair h i = Some h' \<and> linked X h' \<and> mh_heap h' = repair_list rank (mh_heap h) i"
  using sift_up_linked [OF assms] sift_down_linked [OF assms] assms(2)
  by (auto simp: repair_def repair_list_def parent_of_def less_entry_rank)

section \<open>Taking an entry out\<close>

lemma butlast_swap_last_mset:
  assumes "i < length xs"
  shows "mset (butlast (xs[i := last xs])) = mset xs - {#xs ! i#}"
proof -
  have ne: "xs \<noteq> []" using assms by auto
  have "mset (butlast (xs[i := last xs])) = mset (xs[i := last xs]) - {#last (xs[i := last xs])#}"
    using ne by (metis add_mset_diff_bothsides append_butlast_last_id diff_zero list_update_nonempty
        mset.simps(1) mset.simps(2) union_code union_mset_add_mset_right add_0_right mset_append)
  also have "last (xs[i := last xs]) = last xs"
    using ne assms by (auto simp: last_conv_nth nth_list_update)
  also have "mset (xs[i := last xs]) = add_mset (last xs) (mset xs - {#xs ! i#})"
    using assms by (simp add: mset_update)
  finally show ?thesis by simp
qed

lemma swap_remove_eq:
  assumes "i < length xs"
  shows "swap_remove xs i = Some (xs ! i, butlast (xs[i := last xs]))"
  using assms by (simp add: swap_remove_def)

lemma linked_heap_notin:
  assumes "linked X h" "i < length (mh_heap h)"
  shows "heap_keys h = insert (he_key (mh_heap h ! i)) (he_key ` set_mset (mset (mh_heap h) - {#mh_heap h ! i#}))"
    and "he_key (mh_heap h ! i) \<notin> he_key ` set_mset (mset (mh_heap h) - {#mh_heap h ! i#})"
proof -
  let ?xs = "mh_heap h" and ?e = "mh_heap h ! i"
  have split: "mset ?xs = add_mset ?e (mset ?xs - {#?e#})" using assms(2) by simp
  then show "heap_keys h = insert (he_key ?e) (he_key ` set_mset (mset ?xs - {#?e#}))"
    unfolding heap_keys_def by (metis image_insert set_mset_add_mset_insert set_mset_mset)
  have "image_mset he_key (mset ?xs) = add_mset (he_key ?e) (image_mset he_key (mset ?xs - {#?e#}))"
    using split by (metis image_mset_add_mset)
  moreover have "count (image_mset he_key (mset ?xs)) (he_key ?e) \<le> 1"
    using linkedD(5) [OF assms(1)] by (metis distinct_count_atmost_1 le_numeral_extra(4) mset_map zero_le_one)
  ultimately have "count (image_mset he_key (mset ?xs - {#?e#})) (he_key ?e) = 0" by simp
  then show "he_key ?e \<notin> he_key ` set_mset (mset ?xs - {#?e#})"
    by (metis count_eq_zero_iff set_image_mset)
qed

text \<open>
  A heap from which one entry was dropped is linked, with the entry among the departed, when
  the slots are right for the new places.
\<close>

lemma linked_departI:
  assumes "linked X h" "i < length (mh_heap h)"
    and "mset heap' = mset (mh_heap h) - {#mh_heap h ! i#}"
    and "\<And>j. j < length heap' \<Longrightarrow> entry_linked (mh_key_slots h) slots' j (heap' ! j)"
    and "slots_linked (mh_key_slots h) slots'" "free_ok slots' (mh_free_head h)"
    and "length slots' = length (mh_slots h)"
    and "\<And>e. e \<in> insert (mh_heap h ! i) X \<Longrightarrow> departed_linked (mh_key_slots h) slots' e"
  shows "linked (insert (mh_heap h ! i) X) (h\<lparr>mh_heap := heap', mh_slots := slots'\<rparr>)"
proof -
  let ?h = "h\<lparr>mh_heap := heap', mh_slots := slots'\<rparr>" and ?e = "mh_heap h ! i"
  have keys': "heap_keys ?h = he_key ` set_mset (mset (mh_heap h) - {#?e#})"
    using assms(3) unfolding heap_keys_def by (metis (no_types) min_heap.select_convs(1) min_heap.surjective min_heap.update_convs(1,3) set_mset_mset)
  note keys = linked_heap_notin [OF assms(1,2), folded keys']
  have "length heap' < length (mh_heap h)"
    using arg_cong [OF assms(3), of size] assms(2) by (simp add: size_Diff_singleton)
  moreover have "distinct (map he_key heap')"
  proof -
    have "mset (mh_heap h) = mset (?e # heap')" using assms(2,3) by simp
    then have "mset (map he_key (mh_heap h)) = mset (map he_key (?e # heap'))" by simp
    then have "distinct (map he_key (?e # heap'))"
      using linkedD(5) [OF assms(1)] mset_eq_imp_distinct_iff by blast
    then show ?thesis by simp
  qed
  moreover have "heap_keys ?h \<union> he_key ` insert ?e X = heap_keys h \<union> he_key ` X" using keys by auto
  moreover have "heap_keys ?h \<inter> he_key ` insert ?e X = {}"
    using keys linkedD(3) [OF assms(1)] by auto
  ultimately show ?thesis
    using assms linkedD(1,2,4,10-) [OF assms(1)] unfolding linked_def by simp
qed

lemma nth_butlast_last:
  assumes "i < length xs" "j < length (butlast (xs[i := last xs]))"
  shows "butlast (xs[i := last xs]) ! j = xs ! (if j = i then length xs - 1 else j)"
proof -
  have "xs \<noteq> []" using assms(1) by auto
  then show ?thesis using assms by (simp add: nth_butlast last_conv_nth)
qed

lemma departed_linked_self:
  assumes "linked X h" "i < length (mh_heap h)"
  shows "departed_linked (mh_key_slots h) (mh_slots h) (mh_heap h ! i)"
  using linked_slot [OF assms] unfolding departed_linked_def by (metis slot_for_simps(3))

text \<open>Dropping the last entry of the heap needs no change of the slots.\<close>

lemma linked_drop_last:
  assumes "linked X h" "mh_heap h \<noteq> []"
  shows "linked (insert (last (mh_heap h)) X) (h\<lparr>mh_heap := butlast (mh_heap h)\<rparr>)"
proof -
  let ?xs = "mh_heap h"
  have n: "length ?xs - 1 < length ?xs" using assms(2) by simp
  have "linked (insert (?xs ! (length ?xs - 1)) X) (h\<lparr>mh_heap := butlast ?xs, mh_slots := mh_slots h\<rparr>)"
  proof (rule linked_departI [OF assms(1) n])
    show "mset (butlast ?xs) = mset ?xs - {#?xs ! (length ?xs - 1)#}"
      using butlast_swap_last_mset [OF n] assms(2) by (simp add: last_conv_nth)
    show "entry_linked (mh_key_slots h) (mh_slots h) j (butlast ?xs ! j)" if "j < length (butlast ?xs)" for j
      using linkedD(6) [OF assms(1), of j] that by (simp add: nth_butlast)
    show "departed_linked (mh_key_slots h) (mh_slots h) e" if "e \<in> insert (?xs ! (length ?xs - 1)) X" for e
      using that departed_linked_self [OF assms(1) n] linkedD(9) [OF assms(1)] by auto
  qed (use linkedD(7,8) [OF assms(1)] in simp_all)
  then show ?thesis using assms(2) by (simp add: last_conv_nth)
qed

text \<open>Filling the gap with the last entry moves the slot of that entry.\<close>

lemma linked_move_last:
  assumes "linked X h" "Suc i < length (mh_heap h)"
    and "table_map (mh_key_slots h) (he_key (last (mh_heap h))) = Some s"
  shows "linked (insert (mh_heap h ! i) X)
    (h\<lparr>mh_heap := butlast ((mh_heap h)[i := last (mh_heap h)]),
       mh_slots := (mh_slots h)[s := slot_for i (last (mh_heap h))]\<rparr>)"
proof -
  let ?xs = "mh_heap h" and ?ks = "mh_key_slots h" and ?slots = "mh_slots h"
  let ?n = "length ?xs - 1" and ?last = "last (mh_heap h)"
  let ?slots' = "?slots[s := slot_for i ?last]"
  have ne: "?xs \<noteq> []" and i: "i < length ?xs" "i \<noteq> ?n" "?n < length ?xs" using assms(2) by auto
  have last: "?last = ?xs ! ?n" using ne by (rule last_conv_nth)
  obtain s' where "table_map ?ks (he_key (?xs ! ?n)) = Some s'" "s' < length ?slots"
      "?slots ! s' = slot_for ?n (?xs ! ?n)"
    using linked_slot [OF assms(1) i(3)] .
  then have s: "s < length ?slots" "?slots ! s = slot_for ?n ?last" using assms(3) last by simp_all
  show ?thesis
  proof (rule linked_departI [OF assms(1) i(1) butlast_swap_last_mset [OF i(1)]])
    show "slots_linked ?ks ?slots'"
      using slots_linked_update [OF linkedD(7) [OF assms(1)] s(1)] s(2) by simp
    show "free_ok ?slots' (mh_free_head h)"
      using free_ok_update [OF linkedD(8) [OF assms(1)] s(1)] s(2) by simp
    show "departed_linked ?ks ?slots' e" if e: "e \<in> insert (?xs ! i) X" for e
    proof (rule departed_linked_update [OF _ assms(3) linkedD(7) [OF assms(1)]])
      show "departed_linked ?ks ?slots e"
        using e departed_linked_self [OF assms(1) i(1)] linkedD(9) [OF assms(1)] by auto
      have "he_key ?last \<in> heap_keys h" using ne by (simp add: heap_keys_def)
      then show "he_key ?last \<noteq> he_key e"
        using e linkedD(3) [OF assms(1)] linked_keys_distinct [OF assms(1) i(1,3,2)] last by auto
    qed
    fix j assume j: "j < length (butlast (?xs[i := ?last]))"
    show "entry_linked ?ks ?slots' j (butlast (?xs[i := ?last]) ! j)"
    proof (cases "j = i")
      case True
      then show ?thesis using nth_butlast_last [OF i(1) j] last s assms(3) by (simp add: entry_linked_def)
    next
      case False
      have jn: "j < length ?xs" "j \<noteq> ?n" using j by auto
      obtain t where t: "table_map ?ks (he_key (?xs ! j)) = Some t" "t < length ?slots" "?slots ! t = slot_for j (?xs ! j)"
        using linked_slot [OF assms(1) jn(1)] .
      then have "t \<noteq> s" using s(2) jn(2) by (metis slot_for_simps(4))
      then show ?thesis using nth_butlast_last [OF i(1) j] t False by (simp add: entry_linked_def)
    qed
  qed simp
qed

lemma remove_at_linked:
  assumes "linked X h" "is_heap rank (mh_heap h)" "i < length (mh_heap h)"
  shows "\<exists>h'. remove_at h i = Some (mh_heap h ! i, h') \<and> linked (insert (mh_heap h ! i) X) h'
    \<and> is_heap rank (mh_heap h') \<and> mset (mh_heap h') = mset (mh_heap h) - {#mh_heap h ! i#}"
proof (cases "Suc i < length (mh_heap h)")
  case False
  let ?xs = "mh_heap h"
  have ne: "?xs \<noteq> []" and i: "i = length ?xs - 1" using False assms(3) by auto
  have up: "butlast (?xs[i := last ?xs]) = butlast ?xs" and nth: "?xs ! i = last ?xs"
    using ne i by (simp_all add: last_conv_nth list_update_id)
  have "remove_at h i = Some (?xs ! i, h\<lparr>mh_heap := butlast ?xs\<rparr>)"
    using assms(3) False up i by (simp add: remove_at_def swap_remove_eq Let_def)
  then show ?thesis
    using linked_drop_last [OF assms(1) ne] is_heap_butlast [OF assms(2)] butlast_swap_last_mset [OF assms(3)]
    by (simp add: up nth)
next
  case True
  let ?xs = "mh_heap h" and ?n = "length (mh_heap h) - 1"
  have ne: "?xs \<noteq> []" and n: "?n < length ?xs" using True by auto
  obtain s where s: "table_map (mh_key_slots h) (he_key (last ?xs)) = Some s" "s < length (mh_slots h)"
      "mh_slots h ! s = slot_for ?n (last ?xs)"
    using linked_slot [OF assms(1) n] ne by (metis last_conv_nth)
  let ?ys = "butlast (?xs[i := last ?xs])"
  let ?h1 = "h\<lparr>mh_heap := ?ys, mh_slots := (mh_slots h)[s := slot_for i (last ?xs)]\<rparr>"
  have l1: "linked (insert (?xs ! i) X) ?h1" using linked_move_last [OF assms(1) True s(1)] .
  have iy: "i < length ?ys" using True by simp
  have "?ys ! i = last ?xs" using nth_butlast_last [OF assms(3) iy] ne by (simp add: last_conv_nth)
  then have set: "set_heap_index (h\<lparr>mh_heap := ?ys\<rparr>) (he_key (?ys ! i)) i = Some ?h1"
    using s linkedD(1) [OF assms(1)] by (simp add: set_heap_index_eq)
  have "hole_inv rank ?ys i"
    by (rule hole_inv_butlast [OF heap_update_hole [OF assms(2,3)]])
  then have hp: "is_heap rank (repair_list rank ?ys i)" using iy by (rule repair_list_heap)
  obtain h' where h': "repair ?h1 i = Some h'" "linked (insert (?xs ! i) X) h'"
      "mh_heap h' = repair_list rank ?ys i"
    using repair_linked [OF l1, of i] iy by auto
  have "remove_at h i = Some (?xs ! i, h')"
    using assms(3) iy set h'(1) by (simp add: remove_at_def swap_remove_eq)
  then show ?thesis
    using h' hp repair_list_mset [OF iy] butlast_swap_last_mset [OF assms(3)] by simp
qed

lemma slots_linked_remove:
  assumes "slots_linked ks slots" "table_map ks key = Some s" "table_map ks' = (table_map ks)(key := None)"
    and "\<not> sl_live x"
  shows "slots_linked ks' (slots[s := x])"
proof -
  have s: "s < length slots" using slots_linkedD(1) [OF assms(1,2)] .
  have "t < length slots \<and> sl_live (slots[s := x] ! t) \<and> sl_key (slots[s := x] ! t) = k"
    if "table_map ks' k = Some t" for k t
  proof -
    have k: "table_map ks k = Some t" "k \<noteq> key" using that assms(3) by (auto split: if_splits)
    then have "s \<noteq> t" using slots_linked_inj [OF assms(1,2)] by blast
    then show ?thesis using slots_linkedD [OF assms(1)] k(1) by auto
  qed
  moreover have "table_map ks' (sl_key (slots[s := x] ! t)) = Some t"
    if t: "t < length slots" "sl_live (slots[s := x] ! t)" for t
  proof -
    have "t \<noteq> s" using t(2) assms(4) s by auto
    then have "slots[s := x] ! t = slots ! t" by simp
    moreover have "table_map ks (sl_key (slots ! t)) = Some t"
      using slots_linkedD(4) [OF assms(1) t(1)] t(2) \<open>t \<noteq> s\<close> by simp
    moreover have "sl_key (slots ! t) \<noteq> key" using calculation(2) assms(2) \<open>t \<noteq> s\<close> by auto
    ultimately show ?thesis using assms(3) by simp
  qed
  ultimately show ?thesis unfolding slots_linked_def length_list_update by blast
qed

lemma free_ok_push:
  assumes "free_ok slots head" "s < length slots" "sl_live (slots ! s)" "\<not> sl_live x" "sl_heap_index x = head"
  shows "free_ok (slots[s := x]) s"
proof -
  obtain chain where c: "free_chain slots head chain" "distinct chain"
      "\<forall>t < length slots. \<not> sl_live (slots ! t) \<longrightarrow> t \<in> set chain"
    using assms(1) unfolding free_ok_def by blast
  have s: "s \<notin> set chain" using free_chain_dead [OF c(1)] assms(3) by blast
  then have "free_chain (slots[s := x]) head chain"
    by (intro free_chain_cong [OF c(1)]) (auto, metis nth_list_update_neq)
  then have "free_chain (slots[s := x]) s (s # chain)" using assms by simp
  moreover have "\<forall>t < length slots. \<not> sl_live (slots[s := x] ! t) \<longrightarrow> t \<in> set (s # chain)"
    using c(3) by (metis list.set_intros nth_list_update_neq)
  moreover have "distinct (s # chain)" using s c(2) by simp
  ultimately show ?thesis unfolding free_ok_def length_list_update by blast
qed

lemma recycle_slot_linked:
  assumes "linked (insert e X) h" "he_key e \<notin> he_key ` X"
  shows "\<exists>h'. recycle_slot h (he_key e) = Some h' \<and> linked X h' \<and> mh_heap h' = mh_heap h"
proof -
  let ?ks = "mh_key_slots h" and ?slots = "mh_slots h"
  have sl: "slots_linked ?ks ?slots" using linkedD(7) [OF assms(1)] .
  obtain s where s: "table_map ?ks (he_key e) = Some s"
    using linkedD(9) [OF assms(1), of e] unfolding departed_linked_def by blast
  note s_slot = slots_linkedD(1,2) [OF sl s]
  obtain ks' where ks': "remove_key_slot ?ks (he_key e) = Some (Some s, ks')" "index_ok ks'"
      "length ks' = length ?ks" "table_map ks' = (table_map ?ks)(he_key e := None)"
    using remove_key_slot_map [OF linkedD(1) [OF assms(1)], of "he_key e"] s by auto
  let ?x = "(?slots ! s)\<lparr>sl_live := False, sl_heap_index := mh_free_head h\<rparr>"
  let ?h = "h\<lparr>mh_key_slots := ks', mh_slots := ?slots[s := ?x], mh_free_head := s\<rparr>"
  have "recycle_slot h (he_key e) = Some ?h"
    using ks'(1) s_slot by (simp add: recycle_slot_def)
  moreover have "linked X ?h"
  proof -
    have notin: "he_key e \<notin> heap_keys h" using linkedD(3) [OF assms(1)] by auto
    have keys: "heap_keys ?h = heap_keys h" by (simp add: heap_keys_def)
    have dom: "dom (table_map ks') = heap_keys h \<union> he_key ` X"
      using ks'(4) linkedD(2) [OF assms(1)] notin assms(2) by auto
    have "card (heap_keys h \<union> he_key ` X) \<le> card (heap_keys h \<union> he_key ` insert e X)"
      unfolding linkedD(2) [OF assms(1), symmetric]
      by (intro card_mono) (use linkedD(2) [OF assms(1)] in auto)
    then have "2 * card (heap_keys h \<union> he_key ` X) \<le> length ks'"
      using linkedD(4) [OF assms(1)] ks'(3) by simp
    moreover have "entry_linked ks' (?slots[s := ?x]) j (mh_heap h ! j)" if j: "j < length (mh_heap h)" for j
    proof -
      obtain t where t: "table_map ?ks (he_key (mh_heap h ! j)) = Some t" "t < length ?slots"
          "?slots ! t = slot_for j (mh_heap h ! j)"
        using linked_slot [OF assms(1) j] .
      have "he_key (mh_heap h ! j) \<noteq> he_key e" using notin nth_mem [OF j] unfolding heap_keys_def by (metis image_eqI)
      moreover have "t \<noteq> s" using calculation slots_linked_inj [OF sl t(1)] s by blast
      ultimately show ?thesis using t ks'(4) by (simp add: entry_linked_def)
    qed
    moreover have "departed_linked ks' (?slots[s := ?x]) f" if "f \<in> X" for f
    proof -
      have ne: "he_key f \<noteq> he_key e" using assms(2) that by (metis image_eqI)
      have "departed_linked ?ks (?slots[s := ?x]) f"
        using linkedD(9) [OF assms(1), of f] that s sl ne by (intro departed_linked_update) auto
      then show ?thesis using ne ks'(4) by (simp add: departed_linked_def)
    qed
    ultimately show ?thesis
      using linkedD(3,5,10-) [OF assms(1)] ks'(2) dom keys slots_linked_remove [OF sl s ks'(4), of ?x]
        free_ok_push [OF linkedD(8) [OF assms(1)] s_slot, of ?x]
      unfolding linked_def by simp
  qed
  ultimately show ?thesis by simp
qed

section \<open>Putting an entry in\<close>

text \<open>A slot is allocated: pushed on the slot table, or taken from the free list.\<close>

lemma free_ok_append:
  assumes "free_ok slots head" "sl_live x" "length slots < usize_max"
  shows "free_ok (slots @ [x]) head"
proof -
  obtain chain where c: "free_chain slots head chain" "distinct chain"
      "\<forall>t < length slots. \<not> sl_live (slots ! t) \<longrightarrow> t \<in> set chain"
    using assms(1) unfolding free_ok_def by blast
  have "free_chain (slots @ [x]) head chain"
    by (rule free_chain_cong [OF c(1)]) (use free_chain_dead [OF c(1)] in \<open>auto simp: nth_append\<close>)
  moreover have "\<forall>t < length (slots @ [x]). \<not> sl_live ((slots @ [x]) ! t) \<longrightarrow> t \<in> set chain"
    using c(3) assms(2) by (auto simp: nth_append less_Suc_eq)
  ultimately show ?thesis using c(2) unfolding free_ok_def by blast
qed

lemma free_ok_pop:
  assumes "free_ok slots head" "head \<noteq> NO_FREE_SLOT" "sl_live x"
  shows "free_ok (slots[head := x]) (sl_heap_index (slots ! head))"
proof -
  obtain chain where c: "free_chain slots head chain" "distinct chain"
      "\<forall>t < length slots. \<not> sl_live (slots ! t) \<longrightarrow> t \<in> set chain"
    using assms(1) unfolding free_ok_def by blast
  then obtain rest where rest: "chain = head # rest" using assms(2) by (cases chain) auto
  have "free_chain (slots[head := x]) (sl_heap_index (slots ! head)) rest"
  proof (rule free_chain_cong)
    show "free_chain slots (sl_heap_index (slots ! head)) rest" using c(1) rest by simp
    show "slots[head := x] ! t = slots ! t" if "t \<in> set rest" for t
      using that c(2) rest by (metis distinct.simps(2) nth_list_update_neq)
  qed simp
  moreover have "\<forall>t < length slots. \<not> sl_live (slots[head := x] ! t) \<longrightarrow> t \<in> set rest"
    using c(3) rest assms(3) by (metis nth_list_update_eq nth_list_update_neq set_ConsD)
  moreover have "distinct rest" using c(2) rest by simp
  ultimately show ?thesis unfolding free_ok_def length_list_update by blast
qed

text \<open>
  The index learns a new key for a slot that was dead or beyond the table, and the slot
  becomes live.
\<close>

lemma slots_linked_insert:
  assumes "slots_linked ks slots" "table_map ks' = (table_map ks)(sl_key x \<mapsto> s)" "table_map ks (sl_key x) = None"
    and "s < length slots'" "slots' ! s = x" "sl_live x"
    and "\<And>t. t < length slots' \<Longrightarrow> t \<noteq> s \<Longrightarrow> t < length slots \<and> slots' ! t = slots ! t"
    and "\<And>t. t < length slots \<Longrightarrow> t < length slots'"
    and dead: "s < length slots \<Longrightarrow> \<not> sl_live (slots ! s)"
  shows "slots_linked ks' slots'"
proof -
  have "t < length slots' \<and> sl_live (slots' ! t) \<and> sl_key (slots' ! t) = k" if "table_map ks' k = Some t" for k t
  proof (cases "k = sl_key x")
    case True
    then show ?thesis using that assms(2,4,5,6) by simp
  next
    case False
    then have k: "table_map ks k = Some t" using that assms(2) by simp
    note t = slots_linkedD(1-3) [OF assms(1) k]
    then have "t \<noteq> s" using dead by blast
    then show ?thesis using t assms(7,8) by metis
  qed
  moreover have "table_map ks' (sl_key (slots' ! t)) = Some t" if "t < length slots'" "sl_live (slots' ! t)" for t
  proof (cases "t = s")
    case True
    then show ?thesis using assms(2,5) by simp
  next
    case False
    then have t: "t < length slots" "slots' ! t = slots ! t" using assms(7) that(1) by blast+
    then have "table_map ks (sl_key (slots ! t)) = Some t" using slots_linkedD(4) [OF assms(1)] that(2) by simp
    then show ?thesis using t assms(2,3) by (metis fun_upd_other option.distinct(1))
  qed
  ultimately show ?thesis unfolding slots_linked_def by blast
qed

lemma linked_key_absent: "linked {} h \<Longrightarrow> key \<notin> heap_keys h \<Longrightarrow> table_map (mh_key_slots h) key = None"
  using linkedD(2) [of "{}" h] by auto

lemma linked_card:
  assumes "linked {} h"
  shows "card (dom (table_map (mh_key_slots h))) = length (mh_heap h)"
    and "2 * length (mh_heap h) \<le> length (mh_key_slots h)"
proof -
  have "card (heap_keys h) = length (mh_heap h)"
    using linkedD(5) [OF assms] unfolding heap_keys_def by (metis distinct_card length_map set_map)
  then show "card (dom (table_map (mh_key_slots h))) = length (mh_heap h)"
    and "2 * length (mh_heap h) \<le> length (mh_key_slots h)"
    using linkedD(2,4) [OF assms] by simp_all
qed

lemma linked_insertI:
  assumes "linked {} h" "key \<notin> heap_keys h" "length (mh_heap h) < mh_heap_cap h"
    and e: "he_key e = key"
    and ks': "index_ok ks'" "length ks' = length (mh_key_slots h)"
      "table_map ks' = (table_map (mh_key_slots h))(key \<mapsto> s)"
      "2 * Suc (length (mh_heap h)) \<le> length ks'"
    and slots': "s < length slots'" "slots' ! s = slot_for (length (mh_heap h)) e"
      "\<And>t. t < length slots' \<Longrightarrow> t \<noteq> s \<Longrightarrow> t < length (mh_slots h) \<and> slots' ! t = mh_slots h ! t"
      "\<And>t. t < length (mh_slots h) \<Longrightarrow> t < length slots'"
      "s < length (mh_slots h) \<Longrightarrow> \<not> sl_live (mh_slots h ! s)"
      "length slots' \<le> mh_slots_cap h" "free_ok slots' head'"
  shows "linked {} (h\<lparr>mh_slots := slots', mh_free_head := head', mh_key_slots := ks', mh_heap := mh_heap h @ [e]\<rparr>)"
proof -
  let ?h = "h\<lparr>mh_slots := slots', mh_free_head := head', mh_key_slots := ks', mh_heap := mh_heap h @ [e]\<rparr>"
  have absent: "table_map (mh_key_slots h) key = None" using linked_key_absent [OF assms(1,2)] .
  have keys: "heap_keys ?h = insert key (heap_keys h)" using e by (simp add: heap_keys_def)
  have dist: "distinct (map he_key (mh_heap h @ [e]))"
    using linkedD(5) [OF assms(1)] assms(2) e by (auto simp: heap_keys_def)
  have "card (heap_keys ?h) = Suc (length (mh_heap h))"
    using dist unfolding heap_keys_def by (metis distinct_card length_append_singleton length_map list.set_map
        min_heap.select_convs(1) min_heap.surjective min_heap.update_convs(1))
  moreover have "dom (table_map ks') = heap_keys ?h"
    using ks'(3) linkedD(2) [OF assms(1)] keys by auto
  moreover have "slots_linked ks' slots'"
    using slots_linked_insert [OF linkedD(7) [OF assms(1)], of ks' "slot_for (length (mh_heap h)) e" s slots']
      ks'(3) absent e slots' by simp
  moreover have "entry_linked ks' slots' j ((mh_heap h @ [e]) ! j)" if "j < Suc (length (mh_heap h))" for j
  proof (cases "j = length (mh_heap h)")
    case True
    then show ?thesis using ks'(3) e slots' by (simp add: entry_linked_def)
  next
    case False
    then have j: "j < length (mh_heap h)" using that by simp
    obtain t where t: "table_map (mh_key_slots h) (he_key (mh_heap h ! j)) = Some t" "t < length (mh_slots h)"
        "mh_slots h ! t = slot_for j (mh_heap h ! j)"
      using linked_slot [OF assms(1) j] .
    have "t \<noteq> s" using slots'(5) t(2,3) by (metis slot_for_simps(5))
    then have "slots' ! t = slot_for j (mh_heap h ! j)" "t < length slots'"
      using slots'(3,4) t(2,3) by metis+
    moreover have "he_key (mh_heap h ! j) \<noteq> key" using t(1) absent by auto
    ultimately show ?thesis using t ks'(3) j by (simp add: entry_linked_def nth_append)
  qed
  ultimately show ?thesis
    using assms(3) ks' dist slots'(6,7) linkedD(11,12) [OF assms(1)] linkedD(13) [OF assms(1)]
    unfolding linked_def by simp
qed

section \<open>The invariant of the heap\<close>

definition heap_ok :: "min_heap \<Rightarrow> bool" where
  "heap_ok h \<longleftrightarrow> linked {} h \<and> is_heap rank (mh_heap h)"

lemma free_ok_new: "free_ok [] NO_FREE_SLOT"
  unfolding free_ok_def by (rule exI [of _ "[]"]) simp

lemma heap_ok_new: "heap_ok min_heap_new"
  by (simp add: heap_ok_def linked_def min_heap_new_def heap_keys_def index_ok_def table_ok_def
      keys_distinct_def table_map_def table_list_def slots_linked_def free_ok_new is_heap_def)

lemma slots_length_bound: "linked X h \<Longrightarrow> length (mh_slots h) < usize_max"
  using linkedD(11,13) [of X h] by (simp add: SLOT_SIZE_def isize_max_def usize_max_def)

lemma insert_capacityD:
  assumes "has_insert_capacity h"
  shows "length (mh_heap h) < mh_heap_cap h"
    and "mh_free_head h = NO_FREE_SLOT \<Longrightarrow> length (mh_slots h) < mh_slots_cap h"
    and "2 * Suc (length (mh_heap h)) \<le> length (mh_key_slots h)"
  using assms
  by (auto simp: has_insert_capacity_def key_slots_can_insert_def required_cells_def checked_add_def checked_mul_def
      split: bind_splits option.splits if_splits)

lemma alloc_slot_linked:
  assumes "linked X h" "mh_free_head h = NO_FREE_SLOT \<Longrightarrow> length (mh_slots h) < mh_slots_cap h" "sl_live x"
  obtains s slots' head' where
    "alloc_slot h x = Some (s, h\<lparr>mh_slots := slots', mh_free_head := head'\<rparr>)"
    "s < length slots'" "slots' ! s = x"
    "\<And>t. t < length slots' \<Longrightarrow> t \<noteq> s \<Longrightarrow> t < length (mh_slots h) \<and> slots' ! t = mh_slots h ! t"
    "\<And>t. t < length (mh_slots h) \<Longrightarrow> t < length slots'"
    "s < length (mh_slots h) \<Longrightarrow> \<not> sl_live (mh_slots h ! s)"
    "length slots' \<le> mh_slots_cap h" "free_ok slots' head'"
proof (cases "mh_free_head h = NO_FREE_SLOT")
  case True
  show thesis
    by (rule that [where s = "length (mh_slots h)" and slots' = "mh_slots h @ [x]" and head' = "mh_free_head h"])
      (use True assms(2,3) free_ok_append [OF linkedD(8) [OF assms(1)] assms(3) slots_length_bound [OF assms(1)]]
        in \<open>auto simp: nth_append alloc_slot_def\<close>)
next
  case False
  let ?f = "mh_free_head h"
  have f: "?f < length (mh_slots h)" "\<not> sl_live (mh_slots h ! ?f)"
    using free_ok_head [OF linkedD(8) [OF assms(1)]] slots_length_bound [OF assms(1)] False by simp_all
  show thesis
    by (rule that [where s = ?f and slots' = "(mh_slots h)[?f := x]" and head' = "sl_heap_index (mh_slots h ! ?f)"])
      (use f False free_ok_pop [OF linkedD(8) [OF assms(1)] False assms(3)] linkedD(11) [OF assms(1)]
        in \<open>auto simp: alloc_slot_def Let_def\<close>)
qed

lemma heap_insert_ok:
  assumes "heap_ok h" "key \<notin> heap_keys h" "has_insert_capacity h"
  shows "\<exists>h'. heap_insert h key deadline = Some h' \<and> heap_ok h'
    \<and> mset (mh_heap h') = add_mset \<lparr>he_key = key, he_deadline = deadline, he_generation = 0\<rparr> (mset (mh_heap h))"
proof -
  let ?ks = "mh_key_slots h" and ?n = "length (mh_heap h)"
  let ?e = "\<lparr>he_key = key, he_deadline = deadline, he_generation = 0\<rparr>"
  let ?slot = "slot_for ?n ?e"
  have l: "linked {} h" using assms(1) by (simp add: heap_ok_def)
  note cap = insert_capacityD [OF assms(3)]
  have absent: "table_map ?ks key = None" using linked_key_absent [OF l assms(2)] .
  have room: "Suc (card (dom (table_map ?ks))) < length ?ks"
    using cap(3) unfolding linked_card(1) [OF l] by simp
  have ins: "\<exists>ks'. insert_key_slot_into ?ks key s = Some ks' \<and> index_ok ks' \<and> length ks' = length ?ks
      \<and> table_map ks' = (table_map ?ks)(key \<mapsto> s)" for s
    using insert_key_slot_into_map [OF linkedD(1) [OF l] absent room] .
  obtain s slots' head' where alloc: "alloc_slot h ?slot = Some (s, h\<lparr>mh_slots := slots', mh_free_head := head'\<rparr>)"
    and slots': "s < length slots'" "slots' ! s = ?slot"
      "\<And>t. t < length slots' \<Longrightarrow> t \<noteq> s \<Longrightarrow> t < length (mh_slots h) \<and> slots' ! t = mh_slots h ! t"
      "\<And>t. t < length (mh_slots h) \<Longrightarrow> t < length slots'"
      "s < length (mh_slots h) \<Longrightarrow> \<not> sl_live (mh_slots h ! s)"
      "length slots' \<le> mh_slots_cap h" "free_ok slots' head'"
    by (rule alloc_slot_linked [OF l, of ?slot]) (erule cap(2), simp, blast)
  obtain ks' where ks': "insert_key_slot_into ?ks key s = Some ks'" "index_ok ks'" "length ks' = length ?ks"
      "table_map ks' = (table_map ?ks)(key \<mapsto> s)"
    using ins by blast
  let ?h1 = "h\<lparr>mh_slots := slots', mh_free_head := head', mh_key_slots := ks', mh_heap := mh_heap h @ [?e]\<rparr>"
  have l1: "linked {} ?h1"
    by (rule linked_insertI [OF l assms(2) cap(1) _ ks'(2-4)]) (use cap(3) ks'(3) slots' in auto)
  obtain h' where h': "sift_up ?h1 ?n = Some h'" "linked {} h'" "mh_heap h' = sift_up_list rank (mh_heap h @ [?e]) ?n"
    using sift_up_linked [OF l1, of ?n] by auto
  have "heap_insert h key deadline = Some h'"
    using assms(3) alloc ks'(1) h'(1) by (simp add: heap_insert_def slot_for_def Let_def)
  moreover have "is_heap rank (mh_heap h')"
    unfolding h'(3) using assms(1) by (intro sift_up_list_heap heap_append_up) (simp add: heap_ok_def)
  ultimately show ?thesis using h' by (simp add: heap_ok_def sift_up_list_mset)
qed

lemma slot_of_linked:
  assumes "linked {} h"
  shows "key \<notin> heap_keys h \<Longrightarrow> slot_mut h key = Some None"
    and "i < length (mh_heap h) \<Longrightarrow> he_key (mh_heap h ! i) = key
      \<Longrightarrow> \<exists>s < length (mh_slots h). slot_mut h key = Some (Some s) \<and> mh_slots h ! s = slot_for i (mh_heap h ! i)
        \<and> table_map (mh_key_slots h) key = Some s"
proof -
  show "slot_mut h key = Some None" if "key \<notin> heap_keys h"
    using linked_key_absent [OF assms that] linkedD(1) [OF assms] by (simp add: slot_mut_def slot_index_map)
  assume i: "i < length (mh_heap h)" "he_key (mh_heap h ! i) = key"
  obtain s where "table_map (mh_key_slots h) (he_key (mh_heap h ! i)) = Some s"
      "s < length (mh_slots h)" "mh_slots h ! s = slot_for i (mh_heap h ! i)"
    using linked_slot [OF assms i(1)] .
  then show "\<exists>s < length (mh_slots h). slot_mut h key = Some (Some s) \<and> mh_slots h ! s = slot_for i (mh_heap h ! i)
        \<and> table_map (mh_key_slots h) key = Some s"
    using i(2) linkedD(1) [OF assms] by (auto simp: slot_mut_def slot_index_map)
qed

lemma heap_keys_nth: "key \<in> heap_keys h \<Longrightarrow> \<exists>i < length (mh_heap h). he_key (mh_heap h ! i) = key"
  by (auto simp: heap_keys_def in_set_conv_nth)

lemma heap_remove_absent: "heap_ok h \<Longrightarrow> key \<notin> heap_keys h \<Longrightarrow> heap_remove h key = Some (False, h)"
  by (simp add: heap_ok_def heap_remove_def slot_of_def slot_of_linked(1))

lemma heap_remove_ok:
  assumes "heap_ok h" "i < length (mh_heap h)" "he_key (mh_heap h ! i) = key"
  shows "\<exists>h'. heap_remove h key = Some (True, h') \<and> heap_ok h'
    \<and> mset (mh_heap h') = mset (mh_heap h) - {#mh_heap h ! i#}"
proof -
  have l: "linked {} h" and hp: "is_heap rank (mh_heap h)" using assms(1) by (simp_all add: heap_ok_def)
  obtain s where s: "slot_mut h key = Some (Some s)" "mh_slots h ! s = slot_for i (mh_heap h ! i)"
    using slot_of_linked(2) [OF l assms(2,3)] by blast
  obtain h1 where h1: "remove_at h i = Some (mh_heap h ! i, h1)" "linked {mh_heap h ! i} h1"
      "is_heap rank (mh_heap h1)" "mset (mh_heap h1) = mset (mh_heap h) - {#mh_heap h ! i#}"
    using remove_at_linked [OF l hp assms(2)] by blast
  obtain h2 where "recycle_slot h1 key = Some h2" "linked {} h2" "mh_heap h2 = mh_heap h1"
    using recycle_slot_linked [OF h1(2)] assms(3) by auto
  then show ?thesis using s h1 by (simp add: heap_remove_def slot_of_def heap_ok_def)
qed

lemma heap_rearm_absent: "heap_ok h \<Longrightarrow> key \<notin> heap_keys h \<Longrightarrow> heap_rearm h key deadline = Some (False, h)"
  by (simp add: heap_ok_def heap_rearm_def slot_of_linked(1))

text \<open>An entry of the heap and its slot get a new deadline and generation.\<close>

lemma linked_rewrite:
  assumes "linked {} h" "i < length (mh_heap h)" "he_key e = he_key (mh_heap h ! i)"
    and "table_map (mh_key_slots h) (he_key e) = Some s"
  shows "linked {} (h\<lparr>mh_slots := (mh_slots h)[s := slot_for i e], mh_heap := (mh_heap h)[i := e]\<rparr>)"
proof -
  let ?xs = "mh_heap h" and ?ks = "mh_key_slots h" and ?slots = "mh_slots h"
  let ?h = "h\<lparr>mh_slots := ?slots[s := slot_for i e], mh_heap := ?xs[i := e]\<rparr>"
  obtain s' where "table_map ?ks (he_key (?xs ! i)) = Some s'" "s' < length ?slots" "?slots ! s' = slot_for i (?xs ! i)"
    using linked_slot [OF assms(1,2)] .
  then have s: "s < length ?slots" "?slots ! s = slot_for i (?xs ! i)" using assms(3,4) by simp_all
  have map: "map he_key (?xs[i := e]) = map he_key ?xs"
    using assms(2,3) by (simp add: map_update list_update_same_conv)
  then have keys: "heap_keys ?h = heap_keys h" unfolding heap_keys_def by (simp flip: set_map)
  have "entry_linked ?ks (?slots[s := slot_for i e]) j (?xs[i := e] ! j)" if j: "j < length ?xs" for j
  proof (cases "j = i")
    case True
    then show ?thesis using assms(2,4) s by (simp add: entry_linked_def)
  next
    case False
    obtain t where t: "table_map ?ks (he_key (?xs ! j)) = Some t" "t < length ?slots" "?slots ! t = slot_for j (?xs ! j)"
      using linked_slot [OF assms(1) j] .
    have "t \<noteq> s" using s(2) t(3) False by (metis slot_for_simps(4))
    then show ?thesis using t False by (simp add: entry_linked_def)
  qed
  moreover have "slots_linked ?ks (?slots[s := slot_for i e])"
    using slots_linked_update [OF linkedD(7) [OF assms(1)] s(1)] s(2) assms(3) by simp
  moreover have "free_ok (?slots[s := slot_for i e]) (mh_free_head h)"
    using free_ok_update [OF linkedD(8) [OF assms(1)] s(1)] s(2) by simp
  ultimately show ?thesis
    using linkedD(1-5,10-) [OF assms(1)] keys map unfolding linked_def by simp
qed

lemma heap_rearm_ok:
  assumes "heap_ok h" "i < length (mh_heap h)" "he_key (mh_heap h ! i) = key"
  shows "\<exists>h'. heap_rearm h key deadline = Some (True, h') \<and> heap_ok h'
    \<and> mset (mh_heap h') = add_mset \<lparr>he_key = key, he_deadline = deadline,
        he_generation = he_generation (mh_heap h ! i) + 1\<rparr> (mset (mh_heap h) - {#mh_heap h ! i#})"
proof -
  let ?e = "\<lparr>he_key = key, he_deadline = deadline, he_generation = he_generation (mh_heap h ! i) + 1\<rparr>"
  have l: "linked {} h" and hp: "is_heap rank (mh_heap h)" using assms(1) by (simp_all add: heap_ok_def)
  obtain s where s: "slot_mut h key = Some (Some s)" "mh_slots h ! s = slot_for i (mh_heap h ! i)"
      "table_map (mh_key_slots h) key = Some s"
    using slot_of_linked(2) [OF l assms(2,3)] by blast
  let ?h1 = "h\<lparr>mh_slots := (mh_slots h)[s := slot_for i ?e], mh_heap := (mh_heap h)[i := ?e]\<rparr>"
  have l1: "linked {} ?h1" using linked_rewrite [OF l assms(2), of ?e s] assms(3) s(3) by simp
  have i1: "i < length ((mh_heap h)[i := ?e])" using assms(2) by simp
  obtain h' where h': "repair ?h1 i = Some h'" "linked {} h'" "mh_heap h' = repair_list rank ((mh_heap h)[i := ?e]) i"
    using repair_linked [OF l1, of i] assms(2) by auto
  have "heap_rearm h key deadline = Some (True, h')"
    using s h'(1) assms(2,3) by (simp add: heap_rearm_def slot_for_def)
  moreover have "is_heap rank (mh_heap h')"
    unfolding h'(3) by (rule repair_list_heap [OF heap_update_hole [OF hp assms(2)] i1])
  moreover have "mset (mh_heap h') = add_mset ?e (mset (mh_heap h) - {#mh_heap h ! i#})"
    unfolding h'(3) repair_list_mset [OF i1] using assms(2) by (rule mset_update)
  ultimately show ?thesis using h'(2) by (simp add: heap_ok_def)
qed

section \<open>Reserving room\<close>

lemma vec_reserve_SomeD:
  assumes "vec_reserve sz len cap n = Some cap'" "len \<le> cap"
  shows "len + n \<le> cap'" and "cap * sz \<le> isize_max \<Longrightarrow> cap' * sz \<le> isize_max"
  using assms by (auto simp: vec_reserve_def checked_add_def Let_def split: if_splits bind_splits)

lemma vec_reserve_returns:
  assumes "len \<le> cap" "len < 2 ^ 56" "sz \<le> 40"
  shows "vec_reserve sz len cap 1 \<noteq> None"
proof (cases "1 \<le> cap - len")
  case False
  then have cap: "cap = len" using assms(1) by simp
  let ?c = "max (max (cap * 2) (len + 1)) 4"
  have "?c \<le> 2 ^ 57" using assms(2) cap by simp
  then have "?c * sz \<le> 2 ^ 57 * 40" using assms(3) by (rule mult_le_mono)
  then have "?c * sz \<le> isize_max" by (simp add: isize_max_def)
  moreover have "len + 1 \<le> usize_max" using assms(2) by (simp add: usize_max_def)
  ultimately show ?thesis using cap by (simp add: vec_reserve_def checked_add_def Let_def)
qed (simp add: vec_reserve_def)

definition live_slots :: "timer_slot list \<Rightarrow> (timer_key \<times> nat) list" where
  "live_slots slots = map (\<lambda>(i, x). (sl_key x, i)) (filter (\<lambda>(i, x). sl_live x) (enumerate 0 slots))"

lemma rehash_live_put_all:
  "rehash_live ks xs = put_all insert_key_slot_into ks (map (\<lambda>(i, x). (sl_key x, i)) (filter (\<lambda>(i, x). sl_live x) xs))"
  by (induction ks xs rule: rehash_live.induct) (auto intro: Option.bind_cong)

lemma set_live_slots: "(k, s) \<in> set (live_slots slots) \<longleftrightarrow> s < length slots \<and> sl_live (slots ! s) \<and> sl_key (slots ! s) = k"
  by (force simp: live_slots_def in_set_enumerate_eq)

lemma distinct_live_slots:
  assumes "slots_linked ks slots"
  shows "distinct (map fst (live_slots slots))"
proof -
  let ?xs = "filter (\<lambda>(i, x). sl_live x) (enumerate 0 slots)"
  have "inj_on (\<lambda>(i, x). sl_key x) (set ?xs)"
  proof (rule inj_onI)
    fix a b assume a: "a \<in> set ?xs" and b: "b \<in> set ?xs" and eq: "(\<lambda>(i, x). sl_key x) a = (\<lambda>(i, x). sl_key x) b"
    have "table_map ks (sl_key (snd c)) = Some (fst c) \<and> snd c = slots ! fst c" if "c \<in> set ?xs" for c
      using that slots_linkedD(4) [OF assms] by (auto simp: in_set_enumerate_eq)
    from this [OF a] this [OF b] eq show "a = b" by (auto simp: prod_eq_iff split_beta)
  qed
  moreover have "map fst (live_slots slots) = map (\<lambda>(i, x). sl_key x) ?xs"
    by (auto simp: live_slots_def)
  ultimately show ?thesis by (simp add: distinct_map)
qed

lemma map_of_live_slots:
  assumes "slots_linked ks slots"
  shows "map_of (live_slots slots) = table_map ks"
proof (rule ext)
  fix k
  have "map_of (live_slots slots) k = Some s \<longleftrightarrow> table_map ks k = Some s" for s
    unfolding map_of_eq_Some_iff [OF distinct_live_slots [OF assms]] set_live_slots
    using slots_linkedD [OF assms] by blast
  then show "map_of (live_slots slots) k = table_map ks k" by (metis option.exhaust)
qed

lemma length_live_slots:
  assumes "slots_linked ks slots"
  shows "length (live_slots slots) = card (dom (table_map ks))"
  unfolding map_of_live_slots [OF assms, symmetric] dom_map_of_conv_image_fst
  using distinct_card [OF distinct_live_slots [OF assms]] by simp

lemma table_map_replicate_None [simp]: "table_map (replicate n None) = Map.empty"
  by (simp add: table_map_def table_list_def)

lemma index_ok_replicate_None [simp]: "index_ok (replicate n None)"
  by (auto simp: index_ok_def table_ok_def keys_distinct_def)

text \<open>Rehashing the live slots into a larger table gives an index of the same map.\<close>

lemma rehash_live_ok:
  assumes "slots_linked ks slots" "card (dom (table_map ks)) < n"
  shows "\<exists>ks'. rehash_live (replicate n None) (enumerate 0 slots) = Some ks' \<and> index_ok ks' \<and> length ks' = n
    \<and> table_map ks' = table_map ks"
  using timer_index.fill_map [of "replicate n None" "live_slots slots"]
    distinct_live_slots [OF assms(1)] length_live_slots [OF assms(1)] map_of_live_slots [OF assms(1)] assms(2)
  by (simp add: rehash_live_put_all live_slots_def)

lemma all_slots_live:
  assumes "linked {} h" "mh_free_head h = NO_FREE_SLOT"
  shows "length (mh_slots h) = length (mh_heap h)"
proof -
  obtain chain where c: "free_chain (mh_slots h) (mh_free_head h) chain"
      "\<forall>t < length (mh_slots h). \<not> sl_live (mh_slots h ! t) \<longrightarrow> t \<in> set chain"
    using linkedD(8) [OF assms(1)] unfolding free_ok_def by blast
  have "chain = []"
    using c(1) assms(2) slots_length_bound [OF assms(1)] by (cases chain) (auto simp: NO_FREE_SLOT_def)
  then have "filter (\<lambda>(i, x). sl_live x) (enumerate 0 (mh_slots h)) = enumerate 0 (mh_slots h)"
    using c(2) by (intro filter_True) (auto simp: in_set_enumerate_eq)
  then have "length (live_slots (mh_slots h)) = length (mh_slots h)" by (simp add: live_slots_def)
  then show ?thesis
    using length_live_slots [OF linkedD(7) [OF assms(1)]] linked_card(1) [OF assms(1)] by simp
qed

lemma linked_caps:
  assumes "linked X h" "length (mh_heap h) \<le> c" "length (mh_slots h) \<le> d"
    "c * HEAP_ENTRY_SIZE \<le> isize_max" "d * SLOT_SIZE \<le> isize_max"
  shows "linked X (h\<lparr>mh_heap_cap := c, mh_slots_cap := d\<rparr>)"
  using assms by (simp add: linked_def heap_keys_def)

lemma linked_rehash:
  assumes "linked {} h" "index_ok ks'" "table_map ks' = table_map (mh_key_slots h)"
    "2 * length (mh_heap h) \<le> length ks'"
  shows "linked {} (h\<lparr>mh_key_slots := ks'\<rparr>)"
proof -
  have "card (heap_keys h) = length (mh_heap h)"
    using linkedD(2) [OF assms(1)] linked_card(1) [OF assms(1)] by simp
  then show ?thesis
    using assms by (simp add: linked_def heap_keys_def entry_linked_def slots_linked_def)
qed

lemma required_cells_SomeD: "required_cells h = Some r \<Longrightarrow> r = 2 * Suc (length (mh_heap h))"
  by (auto simp: required_cells_def checked_add_def checked_mul_def split: bind_splits if_splits)

lemma required_cells_cong: "mh_heap h' = mh_heap h \<Longrightarrow> required_cells h' = required_cells h"
  by (simp add: required_cells_def)

lemma reserve_for_insert_keeps:
  assumes "heap_ok h" "reserve_for_insert h = Some h'"
  shows "heap_ok h' \<and> has_insert_capacity h' \<and> mh_heap h' = mh_heap h"
proof -
  let ?n = "length (mh_heap h)"
  have l: "linked {} h" and hp: "is_heap rank (mh_heap h)" using assms(1) by (simp_all add: heap_ok_def)
  obtain c d where c: "vec_reserve HEAP_ENTRY_SIZE ?n (mh_heap_cap h) 1 = Some c" and d: "reserve_slots h = Some d"
    using assms(2) by (auto simp: reserve_for_insert_def split: bind_splits)
  let ?h1 = "h\<lparr>mh_heap_cap := c, mh_slots_cap := d\<rparr>"
  note c' = vec_reserve_SomeD [OF c linkedD(10) [OF l]]
  have d': "length (mh_slots h) \<le> d" "d * SLOT_SIZE \<le> isize_max" "mh_free_head h = NO_FREE_SLOT \<Longrightarrow> length (mh_slots h) < d"
    using d vec_reserve_SomeD [OF _ linkedD(11) [OF l], of SLOT_SIZE 1 d] linkedD(11,13) [OF l]
    by (auto simp: reserve_slots_def split: if_splits)
  have l1: "linked {} ?h1" by (rule linked_caps [OF l]) (use c' d' linkedD(12) [OF l] in simp_all)
  have room: "?n < c" "mh_free_head h \<noteq> NO_FREE_SLOT \<or> length (mh_slots h) < d" using c'(1) d'(3) by auto
  show ?thesis
  proof (cases "key_slots_can_insert ?h1")
    case True
    then have "h' = ?h1" using assms(2) c d by (simp add: reserve_for_insert_def del: One_nat_def)
    then show ?thesis using True l1 hp room by (simp add: heap_ok_def has_insert_capacity_def)
  next
    case False
    obtain r where r: "required_cells ?h1 = Some r"
      using assms(2) c d False by (auto simp: reserve_for_insert_def Let_def simp del: One_nat_def split: bind_splits)
    have r': "r = 2 * Suc ?n" using required_cells_SomeD [OF r] by simp
    have card: "card (dom (table_map (mh_key_slots h))) < max r 8"
      unfolding linked_card(1) [OF l] r' by (simp add: less_max_iff_disj)
    obtain ks' where ks': "rehash_live (replicate (max r 8) None) (enumerate 0 (mh_slots h)) = Some ks'" "index_ok ks'"
        "length ks' = max r 8" "table_map ks' = table_map (mh_key_slots h)"
      using rehash_live_ok [OF linkedD(7) [OF l] card] by blast
    have h': "h' = ?h1\<lparr>mh_key_slots := ks'\<rparr>"
      using assms(2) c d False r ks'(1)
      by (auto simp: reserve_for_insert_def Let_def simp del: One_nat_def split: bind_splits)
    have "linked {} h'" unfolding h' by (rule linked_rehash [OF l1 ks'(2)]) (use ks' r' in simp_all)
    moreover have "required_cells h' = Some r" using r required_cells_cong [of h' ?h1] h' by simp
    then have "key_slots_can_insert h'"
      using ks'(3) h' by (auto simp: key_slots_can_insert_def)
    ultimately show ?thesis using hp room h' by (simp add: heap_ok_def has_insert_capacity_def)
  qed
qed

lemma reserve_for_insert_returns:
  assumes "heap_ok h" "length (mh_heap h) < 2 ^ 56"
  shows "reserve_for_insert h \<noteq> None"
proof -
  let ?n = "length (mh_heap h)"
  have l: "linked {} h" using assms(1) by (simp add: heap_ok_def)
  obtain c where c: "vec_reserve HEAP_ENTRY_SIZE ?n (mh_heap_cap h) 1 = Some c"
    using vec_reserve_returns [OF linkedD(10) [OF l] assms(2), of HEAP_ENTRY_SIZE] by (auto simp: HEAP_ENTRY_SIZE_def)
  have "reserve_slots h \<noteq> None"
    using vec_reserve_returns [OF linkedD(11) [OF l], of SLOT_SIZE] all_slots_live [OF l] assms(2)
    by (auto simp: reserve_slots_def SLOT_SIZE_def)
  then obtain d where d: "reserve_slots h = Some d" by blast
  let ?h1 = "h\<lparr>mh_heap_cap := c, mh_slots_cap := d\<rparr>" and ?r = "2 * Suc ?n"
  have r: "required_cells ?h1 = Some ?r"
    using assms(2) by (simp add: required_cells_def checked_add_def checked_mul_def usize_max_def)
  have "max ?r 8 * KEY_SLOT_SIZE \<le> isize_max" using assms(2) by (simp add: KEY_SLOT_SIZE_def isize_max_def)
  moreover have "card (dom (table_map (mh_key_slots h))) < max ?r 8"
    unfolding linked_card(1) [OF l] by (simp add: less_max_iff_disj)
  then obtain ks' where "rehash_live (replicate (max ?r 8) None) (enumerate 0 (mh_slots h)) = Some ks'"
    using rehash_live_ok [OF linkedD(7) [OF l]] by blast
  ultimately show ?thesis
    using c d r by (simp add: reserve_for_insert_def Let_def del: One_nat_def mult_Suc_right)
qed

section \<open>Draining\<close>

definition due_ranks :: "heap_entry list \<Rightarrow> u64 \<Rightarrow> (u64 \<times> u64) set" where
  "due_ranks xs now = rank ` {e \<in> set xs. he_deadline e \<le> now}"

lemma rank_le_deadline: "rank a \<le> rank b \<Longrightarrow> he_deadline a \<le> he_deadline b"
  by (auto simp: rank_def)

lemma finite_due_ranks [simp]: "finite (due_ranks xs now)"
  by (simp add: due_ranks_def)

lemma sorted_list_of_set_min:
  assumes "finite A" "\<And>y. y \<in> A \<Longrightarrow> x < y"
  shows "sorted_list_of_set (insert x A) = x # sorted_list_of_set A"
proof -
  have "x \<notin> A" using assms(2) by blast
  then show ?thesis using assms by (auto simp: insort_is_Cons less_imp_le)
qed

lemma drain_due_stop:
  assumes "is_heap rank (mh_heap h)" "mh_heap h = [] \<or> now < he_deadline (hd (mh_heap h))"
  shows "drain_due h now out cap = Some (h, out)"
    and "due_ranks (mh_heap h) now = {}"
    and "filter_mset (\<lambda>e. now < he_deadline e) (mset (mh_heap h)) = mset (mh_heap h)"
proof -
  show "drain_due h now out cap = Some (h, out)"
  proof (cases "mh_heap h")
    case Nil
    then show ?thesis by (subst drain_due.simps) simp
  next
    case (Cons e xs)
    then have "now < he_deadline e" using assms(2) by simp
    then show ?thesis using Cons by (subst drain_due.simps) simp
  qed
  have late: "now < he_deadline e" if e: "e \<in> set (mh_heap h)" for e
  proof -
    obtain i where i: "i < length (mh_heap h)" "e = mh_heap h ! i" using e unfolding in_set_conv_nth by blast
    then have ne: "mh_heap h \<noteq> []" by auto
    have "rank (hd (mh_heap h)) \<le> rank e"
      using is_heap_root [OF assms(1) i(1)] i(2) ne by (simp add: hd_conv_nth)
    then have "he_deadline (hd (mh_heap h)) \<le> he_deadline e" by (rule rank_le_deadline)
    then show ?thesis using assms(2) ne by auto
  qed
  then show "due_ranks (mh_heap h) now = {}" by (fastforce simp: due_ranks_def)
  show "filter_mset (\<lambda>e. now < he_deadline e) (mset (mh_heap h)) = mset (mh_heap h)"
    unfolding mset_filter [symmetric] using late by (simp add: filter_True)
qed

lemma rank_less_rest:
  assumes "linked X h" "is_heap rank (mh_heap h)" "mh_heap h \<noteq> []"
    and "e \<in># mset (mh_heap h) - {#mh_heap h ! 0#}"
  shows "rank (mh_heap h ! 0) < rank e"
proof -
  have "e \<in> set (mh_heap h)" using assms(4) by (metis in_diffD set_mset_mset)
  then obtain i where "i < length (mh_heap h)" "e = mh_heap h ! i" unfolding in_set_conv_nth by blast
  then have le: "rank (mh_heap h ! 0) \<le> rank e" using is_heap_root [OF assms(2)] by simp
  have "he_key (mh_heap h ! 0) \<noteq> he_key e"
    using linked_heap_notin(2) [OF assms(1), of 0] assms(3,4) by (metis imageI length_greater_0_conv)
  then have "rank (mh_heap h ! 0) \<noteq> rank e" by (simp add: rank_def)
  then show ?thesis using le by (rule order.not_eq_order_implies_strict)
qed

lemma drain_due_step:
  assumes "heap_ok h" "mh_heap h \<noteq> []" "he_deadline (mh_heap h ! 0) \<le> now" "length out < cap"
  shows "\<exists>h'. drain_due h now out cap = drain_due h' now (out @ [he_key (mh_heap h ! 0)]) cap \<and> heap_ok h'
    \<and> mset (mh_heap h') = mset (mh_heap h) - {#mh_heap h ! 0#}"
proof -
  let ?e = "mh_heap h ! 0"
  have l: "linked {} h" and hp: "is_heap rank (mh_heap h)" using assms(1) by (simp_all add: heap_ok_def)
  obtain h1 where h1: "remove_at h 0 = Some (?e, h1)" "linked {?e} h1" "is_heap rank (mh_heap h1)"
      "mset (mh_heap h1) = mset (mh_heap h) - {#?e#}"
    using remove_at_linked [OF l hp, of 0] assms(2) by auto
  obtain s where s: "table_map (mh_key_slots h1) (he_key ?e) = Some s" "sl_generation (mh_slots h1 ! s) = he_generation ?e"
    using linkedD(9) [OF h1(2), of ?e] unfolding departed_linked_def by auto
  note slot = slots_linkedD(1,2) [OF linkedD(7) [OF h1(2)] s(1)]
  have found: "slot_of h1 (he_key ?e) = Some (Some (mh_slots h1 ! s))"
    using s(1) slot(1) linkedD(1) [OF h1(2)] by (simp add: slot_of_def slot_mut_def slot_index_map)
  obtain h2 where h2: "recycle_slot h1 (he_key ?e) = Some h2" "linked {} h2" "mh_heap h2 = mh_heap h1"
    using recycle_slot_linked [OF h1(2)] by auto
  obtain rest where rest: "mh_heap h = ?e # rest" using assms(2) by (cases "mh_heap h") auto
  have "drain_due h now out cap = drain_due h2 now (out @ [he_key ?e]) cap"
    using assms(3,4) h1(1) found slot(2) s(2) h2(1)
    by (subst drain_due.simps) (subst rest, simp add: not_less [symmetric])
  then show ?thesis using h1 h2 by (auto simp: heap_ok_def)
qed

lemma drain_due_ok:
  assumes "heap_ok h" "length out + card (due_ranks (mh_heap h) now) \<le> cap"
  shows "\<exists>h'. drain_due h now out cap = Some (h', out @ map snd (sorted_list_of_set (due_ranks (mh_heap h) now)))
    \<and> heap_ok h' \<and> mset (mh_heap h') = filter_mset (\<lambda>e. now < he_deadline e) (mset (mh_heap h))"
  using assms
proof (induction "length (mh_heap h)" arbitrary: h out rule: less_induct)
  case less
  have hp: "is_heap rank (mh_heap h)" and l: "linked {} h" using less.prems(1) by (simp_all add: heap_ok_def)
  let ?e = "mh_heap h ! 0" and ?D = "due_ranks (mh_heap h) now"
  show ?case
  proof (cases "mh_heap h = [] \<or> now < he_deadline (hd (mh_heap h))")
    case True
    show ?thesis using drain_due_stop [OF hp True] less.prems(1) by simp
  next
    case False
    then have ne: "mh_heap h \<noteq> []" and due: "he_deadline ?e \<le> now" by (auto simp: hd_conv_nth not_less)
    have split: "mset (mh_heap h) = add_mset ?e (mset (mh_heap h) - {#?e#})" using ne by simp
    have D: "?D = insert (rank ?e) (due_ranks (mh_heap h') now)"
      if "mset (mh_heap h') = mset (mh_heap h) - {#?e#}" for h'
    proof -
      have "set (mh_heap h) = insert ?e (set (mh_heap h'))"
        using split that by (metis set_mset_add_mset_insert set_mset_mset)
      then show ?thesis using due by (auto simp: due_ranks_def)
    qed
    have least: "rank ?e < r" if "mset (mh_heap h') = mset (mh_heap h) - {#?e#}" "r \<in> due_ranks (mh_heap h') now" for h' r
      using that rank_less_rest [OF l hp ne] by (auto simp: due_ranks_def simp flip: set_mset_mset)
    have "rank ?e \<in> ?D" using ne due by (auto simp: due_ranks_def)
    then have "0 < card ?D" by (auto simp: card_gt_0_iff)
    then have room: "length out < cap" using less.prems(2) by linarith
    obtain h1 where h1: "drain_due h now out cap = drain_due h1 now (out @ [he_key ?e]) cap" "heap_ok h1"
        "mset (mh_heap h1) = mset (mh_heap h) - {#?e#}"
      using drain_due_step [OF less.prems(1) ne due room] by blast
    have shorter: "length (mh_heap h1) < length (mh_heap h)"
      using arg_cong [OF h1(3), of size] ne by (simp add: size_Diff_singleton)
    have "card ?D = Suc (card (due_ranks (mh_heap h1) now))"
      unfolding D [OF h1(3)] using least [OF h1(3)] by (intro card_insert_disjoint) (simp, blast)
    then have room1: "length (out @ [he_key ?e]) + card (due_ranks (mh_heap h1) now) \<le> cap"
      using less.prems(2) by simp
    obtain h' where h': "drain_due h1 now (out @ [he_key ?e]) cap
        = Some (h', (out @ [he_key ?e]) @ map snd (sorted_list_of_set (due_ranks (mh_heap h1) now)))"
        "heap_ok h'" "mset (mh_heap h') = filter_mset (\<lambda>e. now < he_deadline e) (mset (mh_heap h1))"
      using less.hyps [OF shorter h1(2) room1] by blast
    have "sorted_list_of_set ?D = rank ?e # sorted_list_of_set (due_ranks (mh_heap h1) now)"
      unfolding D [OF h1(3)] using least [OF h1(3)] by (intro sorted_list_of_set_min) auto
    moreover have "filter_mset (\<lambda>e. now < he_deadline e) (mset (mh_heap h))
        = filter_mset (\<lambda>e. now < he_deadline e) (mset (mh_heap h1))"
      unfolding h1(3) by (subst split) (use due in simp)
    ultimately show ?thesis using h1(1) h' by (auto simp: rank_def)
  qed
qed

end
