(* ===== verification/Timer_Queue.thy ===== *)
theory Timer_Queue
  imports Timer_Heap_Linked
begin

text \<open>
  The queue contract of the timer engine (\<open>tx-time/src/timer/queue.rs\<close>) as a locale over a
  finite map from keys to deadlines, the laws a client gets from it, and that the indexed
  heap keeps the contract.
\<close>

section \<open>The contract\<close>

text \<open>The keys that are due, ordered by deadline and then by key.\<close>

definition due_keys :: "('k::linorder \<Rightarrow> 'd::linorder option) \<Rightarrow> 'd \<Rightarrow> 'k list" where
  "due_keys m now = map snd (sorted_list_of_set {(d, k) | d k. m k = Some d \<and> d \<le> now})"

definition not_due :: "('k \<Rightarrow> 'd::linorder option) \<Rightarrow> 'd \<Rightarrow> 'k \<Rightarrow> 'd option" where
  "not_due m now k = (case m k of Some d \<Rightarrow> if d \<le> now then None else Some d | None \<Rightarrow> None)"

lemma finite_due_pairs:
  assumes "finite (dom m)"
  shows "finite {(d, k) | d k. m k = Some d \<and> d \<le> now}"
proof (rule finite_subset)
  show "{(d, k) | d k. m k = Some d \<and> d \<le> now} \<subseteq> (\<lambda>k. (the (m k), k)) ` dom m" by force
qed (use assms in simp)

lemma set_due_keys: "finite (dom m) \<Longrightarrow> k \<in> set (due_keys m now) \<longleftrightarrow> (\<exists>d. m k = Some d \<and> d \<le> now)"
  using finite_due_pairs [of m now] by (force simp: due_keys_def)

lemma distinct_due_keys:
  assumes "finite (dom m)"
  shows "distinct (due_keys m now)"
proof -
  have "inj_on snd {(d, k) | d k. m k = Some d \<and> d \<le> now}" by (rule inj_onI) auto
  then show ?thesis using finite_due_pairs [OF assms] by (simp add: due_keys_def distinct_map)
qed

lemma sorted_due_keys:
  assumes "finite (dom m)"
  shows "sorted (map (\<lambda>k. (the (m k), k)) (due_keys m now))"
proof -
  let ?xs = "sorted_list_of_set {(d, k) | d k. m k = Some d \<and> d \<le> now}"
  have "map (\<lambda>k. (the (m k), k)) (due_keys m now) = map (\<lambda>x. x) ?xs"
    unfolding due_keys_def map_map
    using finite_due_pairs [OF assms, of now] by (intro map_cong) auto
  then show ?thesis by simp
qed

locale timer_queue =
  fixes ok :: "'q \<Rightarrow> bool"
    and room :: "'q \<Rightarrow> bool"
    and timers :: "'q \<Rightarrow> 'k::linorder \<Rightarrow> 'd::linorder option"
    and insert :: "'q \<Rightarrow> 'k \<Rightarrow> 'd \<Rightarrow> 'q option"
    and remove :: "'q \<Rightarrow> 'k \<Rightarrow> (bool \<times> 'q) option"
    and rearm :: "'q \<Rightarrow> 'k \<Rightarrow> 'd \<Rightarrow> (bool \<times> 'q) option"
    and drain :: "'q \<Rightarrow> 'd \<Rightarrow> 'k list \<Rightarrow> nat \<Rightarrow> ('q \<times> 'k list) option"
    and first_deadline :: "'q \<Rightarrow> 'd option"
  assumes insert_spec: "ok q \<Longrightarrow> room q \<Longrightarrow> timers q k = None
      \<Longrightarrow> \<exists>q'. insert q k d = Some q' \<and> ok q' \<and> timers q' = (timers q)(k \<mapsto> d)"
    and remove_spec: "ok q
      \<Longrightarrow> \<exists>q'. remove q k = Some (timers q k \<noteq> None, q') \<and> ok q' \<and> timers q' = (timers q)(k := None)"
    and rearm_spec: "ok q
      \<Longrightarrow> \<exists>q'. rearm q k d = Some (timers q k \<noteq> None, q') \<and> ok q'
          \<and> timers q' = (if timers q k = None then timers q else (timers q)(k \<mapsto> d))"
    and drain_spec: "ok q \<Longrightarrow> length out + length (due_keys (timers q) now) \<le> cap
      \<Longrightarrow> \<exists>q'. drain q now out cap = Some (q', out @ due_keys (timers q) now) \<and> ok q'
          \<and> timers q' = not_due (timers q) now"
    and first_deadline_spec: "ok q
      \<Longrightarrow> first_deadline q = (if timers q = Map.empty then None else Some (Min (ran (timers q))))"
    and finite_timers: "finite (dom (timers q))"
begin

lemma remove_twice:
  assumes "ok q"
  shows "\<exists>q' q''. remove q k = Some (timers q k \<noteq> None, q') \<and> remove q' k = Some (False, q'') \<and> timers q'' = timers q'"
proof -
  obtain q' where q': "remove q k = Some (timers q k \<noteq> None, q')" "ok q'" "timers q' = (timers q)(k := None)"
    using remove_spec [OF assms] by blast
  moreover obtain q'' where "remove q' k = Some (timers q' k \<noteq> None, q'')" "timers q'' = (timers q')(k := None)"
    using remove_spec [OF q'(2)] by blast
  ultimately show ?thesis by auto
qed

lemma removed_never_fires:
  assumes "ok q"
  shows "\<exists>b q'. remove q k = Some (b, q') \<and> k \<notin> set (due_keys (timers q') now)"
proof -
  obtain q' where "remove q k = Some (timers q k \<noteq> None, q')" "timers q' = (timers q)(k := None)"
    using remove_spec [OF assms] by blast
  then show ?thesis using set_due_keys [OF finite_timers, of k q' now] by auto
qed

lemma rearmed_fires_at_new_deadline:
  assumes "ok q" "timers q k \<noteq> None"
  shows "\<exists>q'. rearm q k d = Some (True, q') \<and> ok q' \<and> (k \<in> set (due_keys (timers q') now) \<longleftrightarrow> d \<le> now)"
proof -
  obtain q' where "rearm q k d = Some (timers q k \<noteq> None, q')" "ok q'" "timers q' = (timers q)(k \<mapsto> d)"
    using rearm_spec [OF assms(1), of k d] assms(2) by auto
  then show ?thesis using set_due_keys [OF finite_timers, of k q' now] assms(2) by auto
qed

lemma drained_cannot_be_rearmed:
  assumes "ok q" "length (due_keys (timers q) now) \<le> cap" "k \<in> set (due_keys (timers q) now)"
  shows "\<exists>q' q''. drain q now [] cap = Some (q', due_keys (timers q) now) \<and> rearm q' k d = Some (False, q'')
    \<and> timers q'' = timers q'"
proof -
  obtain q' where q': "drain q now [] cap = Some (q', due_keys (timers q) now)" "ok q'" "timers q' = not_due (timers q) now"
    using drain_spec [OF assms(1), of "[]" now cap] assms(2) by auto
  have "timers q' k = None"
    using q'(3) assms(3) set_due_keys [OF finite_timers, of k q now] by (auto simp: not_due_def)
  then show ?thesis using q' rearm_spec [OF q'(2), of k d] by auto
qed

lemma drain_leaves_nothing_due:
  assumes "ok q" "length (due_keys (timers q) now) \<le> cap"
  shows "\<exists>q'. drain q now [] cap = Some (q', due_keys (timers q) now) \<and> due_keys (timers q') now = []
    \<and> (\<forall>d. first_deadline q' = Some d \<longrightarrow> now < d)"
proof -
  obtain q' where q': "drain q now [] cap = Some (q', due_keys (timers q) now)" "ok q'" "timers q' = not_due (timers q) now"
    using drain_spec [OF assms(1), of "[]" now cap] assms(2) by auto
  have late: "now < d" if "d \<in> ran (timers q')" for d
    using that by (auto simp: q'(3) not_due_def ran_def split: option.splits if_splits)
  have "k \<notin> set (due_keys (timers q') now)" for k
    using late set_due_keys [OF finite_timers, of k q' now] by (fastforce simp: ran_def)
  then have "due_keys (timers q') now = []" by (cases "due_keys (timers q') now") auto
  moreover have "now < d" if "first_deadline q' = Some d" for d
  proof -
    have "timers q' \<noteq> Map.empty" "d = Min (ran (timers q'))"
      using that first_deadline_spec [OF q'(2)] by (auto split: if_splits)
    moreover have "ran (timers q') \<noteq> {}" using calculation(1) by (auto simp: ran_def fun_eq_iff)
    ultimately have "d \<in> ran (timers q')"
      using finite_ran [OF finite_timers, of q'] by simp
    then show ?thesis by (rule late)
  qed
  ultimately show ?thesis using q'(1) by blast
qed

end

section \<open>The heap keeps the contract\<close>

definition heap_timers :: "min_heap \<Rightarrow> timer_key \<Rightarrow> u64 option" where
  "heap_timers h = map_of (map (\<lambda>e. (he_key e, he_deadline e)) (mh_heap h))"

lemma heap_timers_eq_Some:
  assumes "distinct (map he_key (mh_heap h))"
  shows "heap_timers h k = Some d \<longleftrightarrow> (\<exists>e \<in> set (mh_heap h). he_key e = k \<and> he_deadline e = d)"
proof -
  have "distinct (map fst (map (\<lambda>e. (he_key e, he_deadline e)) (mh_heap h)))" using assms by (simp add: o_def)
  then show ?thesis unfolding heap_timers_def by (subst map_of_eq_Some_iff) auto
qed

lemma dom_heap_timers: "dom (heap_timers h) = heap_keys h"
  by (force simp: heap_timers_def dom_map_of_conv_image_fst heap_keys_def)

lemma finite_heap_timers [simp]: "finite (dom (heap_timers h))"
  by (simp add: dom_heap_timers heap_keys_def)

lemma heap_ok_distinct: "heap_ok h \<Longrightarrow> distinct (map he_key (mh_heap h))"
  using linkedD(5) [of "{}" h] by (simp add: heap_ok_def)

text \<open>The map is determined by the entries, in whatever order the heap has them.\<close>

lemma heap_timersI:
  assumes "distinct (map he_key (mh_heap h))"
    and "\<And>k d. m k = Some d \<longleftrightarrow> (\<exists>e. e \<in># mset (mh_heap h) \<and> he_key e = k \<and> he_deadline e = d)"
  shows "heap_timers h = m"
proof (rule ext)
  fix k
  have "heap_timers h k = Some d \<longleftrightarrow> m k = Some d" for d
    using assms(2) heap_timers_eq_Some [OF assms(1)] by auto
  then show "heap_timers h k = m k" by (metis option.exhaust)
qed

lemma heap_timers_add:
  assumes "distinct (map he_key (mh_heap h))" "mset (mh_heap h) = add_mset e M"
    and fresh: "\<And>f. f \<in># M \<Longrightarrow> he_key f \<noteq> he_key e"
    and m: "\<And>k d. k \<noteq> he_key e \<Longrightarrow> m k = Some d \<longleftrightarrow> (\<exists>f. f \<in># M \<and> he_key f = k \<and> he_deadline f = d)"
  shows "heap_timers h = m(he_key e \<mapsto> he_deadline e)"
proof (rule heap_timersI [OF assms(1)])
  fix k d
  show "(m(he_key e \<mapsto> he_deadline e)) k = Some d
      \<longleftrightarrow> (\<exists>f. f \<in># mset (mh_heap h) \<and> he_key f = k \<and> he_deadline f = d)"
  proof (cases "k = he_key e")
    case True
    then show ?thesis unfolding assms(2) using fresh by auto
  next
    case False
    then show ?thesis unfolding assms(2) using m [OF False, of d] by auto
  qed
qed

lemma heap_insert_timers:
  assumes "heap_ok h" "has_insert_capacity h" "heap_timers h key = None"
  shows "\<exists>h'. heap_insert h key d = Some h' \<and> heap_ok h' \<and> heap_timers h' = (heap_timers h)(key \<mapsto> d)"
proof -
  have notin: "key \<notin> heap_keys h" using assms(3) by (simp add: domIff flip: dom_heap_timers)
  obtain h' e where h': "heap_insert h key d = Some h'" "heap_ok h'" "mset (mh_heap h') = add_mset e (mset (mh_heap h))"
    and e: "he_key e = key" "he_deadline e = d"
    using heap_insert_ok [OF assms(1) notin assms(2), of d] by fastforce
  have "heap_timers h' = (heap_timers h)(he_key e \<mapsto> he_deadline e)"
  proof (rule heap_timers_add [OF heap_ok_distinct [OF h'(2)] h'(3)])
    show "he_key f \<noteq> he_key e" if "f \<in># mset (mh_heap h)" for f
      using that notin e(1) unfolding heap_keys_def by (metis image_eqI set_mset_mset)
    show "heap_timers h k = Some d \<longleftrightarrow> (\<exists>f. f \<in># mset (mh_heap h) \<and> he_key f = k \<and> he_deadline f = d)" for k d
      using heap_timers_eq_Some [OF heap_ok_distinct [OF assms(1)]] by auto
  qed
  then have "heap_timers h' = (heap_timers h)(key \<mapsto> d)" unfolding e .
  then show ?thesis using h' by blast
qed

lemma mset_diff_nth_iff:
  assumes "heap_ok h" "i < length (mh_heap h)"
  shows "e \<in># mset (mh_heap h) - {#mh_heap h ! i#} \<longleftrightarrow> e \<in> set (mh_heap h) \<and> he_key e \<noteq> he_key (mh_heap h ! i)"
proof
  assume e: "e \<in># mset (mh_heap h) - {#mh_heap h ! i#}"
  have "he_key (mh_heap h ! i) \<notin> he_key ` set_mset (mset (mh_heap h) - {#mh_heap h ! i#})"
    using linked_heap_notin(2) [of "{}" h i] assms by (simp add: heap_ok_def)
  then show "e \<in> set (mh_heap h) \<and> he_key e \<noteq> he_key (mh_heap h ! i)"
    using e by (metis image_eqI in_diffD set_mset_mset)
next
  assume "e \<in> set (mh_heap h) \<and> he_key e \<noteq> he_key (mh_heap h ! i)"
  then show "e \<in># mset (mh_heap h) - {#mh_heap h ! i#}"
    by (metis insert_noteq_member insert_DiffM nth_mem_mset assms(2) set_mset_mset)
qed

lemma heap_remove_timers:
  assumes "heap_ok h"
  shows "\<exists>h'. heap_remove h key = Some (heap_timers h key \<noteq> None, h') \<and> heap_ok h'
    \<and> heap_timers h' = (heap_timers h)(key := None)"
proof (cases "key \<in> heap_keys h")
  case False
  then have "heap_timers h key = None" by (simp add: domIff flip: dom_heap_timers)
  then show ?thesis using heap_remove_absent [OF assms False] assms by (simp add: fun_upd_idem)
next
  case True
  then have some: "heap_timers h key \<noteq> None" by (simp add: domIff flip: dom_heap_timers)
  obtain i where i: "i < length (mh_heap h)" "he_key (mh_heap h ! i) = key" using heap_keys_nth [OF True] by blast
  obtain h' where h': "heap_remove h key = Some (True, h')" "heap_ok h'"
      "mset (mh_heap h') = mset (mh_heap h) - {#mh_heap h ! i#}"
    using heap_remove_ok [OF assms i] by blast
  have "heap_timers h' = (heap_timers h)(key := None)"
    by (intro heap_timersI heap_ok_distinct [OF h'(2)])
      (auto simp: h'(3) mset_diff_nth_iff [OF assms i(1)] i(2) heap_timers_eq_Some [OF heap_ok_distinct [OF assms]])
  then show ?thesis using h' some by simp
qed

lemma heap_rearm_timers:
  assumes "heap_ok h"
  shows "\<exists>h'. heap_rearm h key d = Some (heap_timers h key \<noteq> None, h') \<and> heap_ok h'
    \<and> heap_timers h' = (if heap_timers h key = None then heap_timers h else (heap_timers h)(key \<mapsto> d))"
proof (cases "key \<in> heap_keys h")
  case False
  then have "heap_timers h key = None" by (simp add: domIff flip: dom_heap_timers)
  then show ?thesis using heap_rearm_absent [OF assms False] assms by simp
next
  case True
  then have some: "heap_timers h key \<noteq> None" by (simp add: domIff flip: dom_heap_timers)
  obtain i where i: "i < length (mh_heap h)" "he_key (mh_heap h ! i) = key" using heap_keys_nth [OF True] by blast
  obtain h' e where h': "heap_rearm h key d = Some (True, h')" "heap_ok h'"
      "mset (mh_heap h') = add_mset e (mset (mh_heap h) - {#mh_heap h ! i#})"
    and e: "he_key e = key" "he_deadline e = d"
    using heap_rearm_ok [OF assms i, of d] by fastforce
  have "heap_timers h' = (heap_timers h)(he_key e \<mapsto> he_deadline e)"
  proof (rule heap_timers_add [OF heap_ok_distinct [OF h'(2)] h'(3)])
    show "he_key f \<noteq> he_key e" if "f \<in># mset (mh_heap h) - {#mh_heap h ! i#}" for f
      using that unfolding mset_diff_nth_iff [OF assms i(1)] i(2) e(1) by blast
    show "heap_timers h k = Some d \<longleftrightarrow>
        (\<exists>f. f \<in># mset (mh_heap h) - {#mh_heap h ! i#} \<and> he_key f = k \<and> he_deadline f = d)"
      if "k \<noteq> he_key e" for k d
      using that heap_timers_eq_Some [OF heap_ok_distinct [OF assms]]
      unfolding mset_diff_nth_iff [OF assms i(1)] i(2) e(1) by auto
  qed
  then have "heap_timers h' = (heap_timers h)(key \<mapsto> d)" unfolding e .
  then show ?thesis using h' some by auto
qed

lemma due_ranks_timers:
  assumes "heap_ok h"
  shows "due_ranks (mh_heap h) now = {(d, k) | d k. heap_timers h k = Some d \<and> d \<le> now}"
  using heap_timers_eq_Some [OF heap_ok_distinct [OF assms]]
  by (auto simp: due_ranks_def rank_def)

lemma drain_due_timers:
  assumes "heap_ok h" "length out + length (due_keys (heap_timers h) now) \<le> cap"
  shows "\<exists>h'. drain_due h now out cap = Some (h', out @ due_keys (heap_timers h) now) \<and> heap_ok h'
    \<and> heap_timers h' = not_due (heap_timers h) now"
proof -
  have "length (due_keys (heap_timers h) now) = card (due_ranks (mh_heap h) now)"
    by (simp add: due_keys_def due_ranks_timers [OF assms(1)])
  then obtain h' where h': "drain_due h now out cap = Some (h', out @ due_keys (heap_timers h) now)" "heap_ok h'"
      "mset (mh_heap h') = filter_mset (\<lambda>e. now < he_deadline e) (mset (mh_heap h))"
    using drain_due_ok [OF assms(1), of out now cap] assms(2)
    by (auto simp: due_keys_def due_ranks_timers [OF assms(1)])
  have "heap_timers h' = not_due (heap_timers h) now"
  proof (rule heap_timersI [OF heap_ok_distinct [OF h'(2)]])
    fix k d
    have "not_due (heap_timers h) now k = Some d \<longleftrightarrow> heap_timers h k = Some d \<and> now < d"
      by (auto simp: not_due_def split: option.splits)
    then show "not_due (heap_timers h) now k = Some d
        \<longleftrightarrow> (\<exists>e. e \<in># mset (mh_heap h') \<and> he_key e = k \<and> he_deadline e = d)"
      using heap_timers_eq_Some [OF heap_ok_distinct [OF assms(1)]] h'(3) by auto
  qed
  then show ?thesis using h' by blast
qed

lemma heap_next_deadline_timers:
  assumes "heap_ok h"
  shows "heap_next_deadline_ns h
    = (if heap_timers h = Map.empty then None else Some (Min (ran (heap_timers h))))"
proof (cases "mh_heap h")
  case Nil
  then show ?thesis by (simp add: heap_next_deadline_ns_def heap_timers_def)
next
  case (Cons e es)
  note some = heap_timers_eq_Some [OF heap_ok_distinct [OF assms]]
  have ran: "ran (heap_timers h) = he_deadline ` set (mh_heap h)" by (auto simp: ran_def some)
  have "he_deadline e \<le> d" if "d \<in> ran (heap_timers h)" for d
  proof -
    obtain i where "i < length (mh_heap h)" "d = he_deadline (mh_heap h ! i)"
      using \<open>d \<in> ran _\<close> unfolding ran by (auto simp: in_set_conv_nth)
    then show ?thesis
      using is_heap_root [of rank "mh_heap h" i] rank_le_deadline [of "mh_heap h ! 0" "mh_heap h ! i"] assms Cons
      by (simp add: heap_ok_def)
  qed
  moreover have "he_deadline e \<in> ran (heap_timers h)" using Cons ran by simp
  ultimately have "Min (ran (heap_timers h)) = he_deadline e"
    by (intro Min_eqI) (simp_all add: ran)
  moreover have "heap_timers h \<noteq> Map.empty" using \<open>he_deadline e \<in> ran (heap_timers h)\<close> by auto
  ultimately show ?thesis using Cons by (simp add: heap_next_deadline_ns_def)
qed

interpretation heap_queue: timer_queue heap_ok has_insert_capacity heap_timers heap_insert heap_remove heap_rearm
  drain_due heap_next_deadline_ns
  by unfold_locales
    (fact heap_insert_timers heap_remove_timers heap_rearm_timers drain_due_timers heap_next_deadline_timers
      finite_heap_timers)+

section \<open>Properties of the timer heap\<close>

text \<open>
  C9: Draining returns the keys that are due, each once, ordered by deadline and among equal
  deadlines by key, after what the output held; the other timers stay, and the loop ends without
  a panic as long as the output has room for the due keys.
\<close>

theorem drain_due_in_order:
  assumes "heap_ok h" "length out + length (due_keys (heap_timers h) now) \<le> cap"
  shows "\<exists>h'. drain_due h now out cap = Some (h', out @ due_keys (heap_timers h) now)
      \<and> heap_ok h' \<and> heap_timers h' = not_due (heap_timers h) now
      \<and> sorted (map (\<lambda>k. (the (heap_timers h k), k)) (due_keys (heap_timers h) now))
      \<and> distinct (due_keys (heap_timers h) now)
      \<and> set (due_keys (heap_timers h) now) = {k. \<exists>d. heap_timers h k = Some d \<and> d \<le> now}"
  using heap_queue.drain_spec [OF assms] sorted_due_keys distinct_due_keys set_due_keys finite_heap_timers by blast

text \<open>
  C11: Insertion, removal and re-arming never panic on a heap that holds its invariant, keep the
  invariant, and act on the map of timers as the map operations do; removal and re-arming of a
  key that is not there report so and change nothing.
\<close>

theorem timer_heap_operations:
  assumes "heap_ok h"
  shows "(has_insert_capacity h \<and> heap_timers h key = None \<longrightarrow>
      (\<exists>h'. heap_insert h key d = Some h' \<and> heap_ok h' \<and> heap_timers h' = (heap_timers h)(key \<mapsto> d)))
    \<and> (\<exists>h'. heap_remove h key = Some (heap_timers h key \<noteq> None, h') \<and> heap_ok h'
      \<and> heap_timers h' = (heap_timers h)(key := None))
    \<and> (\<exists>h'. heap_rearm h key d = Some (heap_timers h key \<noteq> None, h') \<and> heap_ok h'
      \<and> heap_timers h' = (if heap_timers h key = None then heap_timers h else (heap_timers h)(key \<mapsto> d)))
    \<and> (key \<notin> heap_keys h \<longrightarrow> heap_remove h key = Some (False, h) \<and> heap_rearm h key d = Some (False, h))"
  using heap_queue.insert_spec heap_queue.remove_spec heap_queue.rearm_spec heap_remove_absent heap_rearm_absent assms
  by blast

text \<open>The next deadline is the least deadline of the timers, and there is none exactly when there is no timer.\<close>

theorem next_deadline_is_least:
  "heap_ok h \<Longrightarrow> heap_next_deadline_ns h
     = (if heap_timers h = Map.empty then None else Some (Min (ran (heap_timers h))))"
  by (rule heap_queue.first_deadline_spec)

text \<open>
  After a key was cancelled it never fires; after it was re-armed it fires exactly from the
  new deadline on; after it fired it cannot be re-armed.
\<close>

theorem timer_key_life_cycle:
  assumes "heap_ok h"
  shows "(\<exists>b h'. heap_remove h key = Some (b, h') \<and> key \<notin> set (due_keys (heap_timers h') now))
    \<and> (heap_timers h key \<noteq> None \<longrightarrow>
      (\<exists>h'. heap_rearm h key d = Some (True, h') \<and> (key \<in> set (due_keys (heap_timers h') now) \<longleftrightarrow> d \<le> now)))
    \<and> (length (due_keys (heap_timers h) now) \<le> cap \<and> key \<in> set (due_keys (heap_timers h) now) \<longrightarrow>
      (\<exists>h' h''. drain_due h now [] cap = Some (h', due_keys (heap_timers h) now)
        \<and> heap_rearm h' key d = Some (False, h'') \<and> heap_timers h'' = heap_timers h'))"
  using heap_queue.removed_never_fires [OF assms] heap_queue.rearmed_fires_at_new_deadline [OF assms]
    heap_queue.drained_cannot_be_rearmed [OF assms] by blast

text \<open>
  C15: Reserving room returns for every heap of fewer than \<open>2 ^ 56\<close> timers, and afterwards there is
  room for one insertion, with the same timers; the rehashed key index is at most half full.
\<close>

theorem reserve_makes_room:
  assumes "heap_ok h" "length (mh_heap h) < 2 ^ 56"
  shows "\<exists>h'. reserve_for_insert h = Some h' \<and> heap_ok h' \<and> has_insert_capacity h'
    \<and> mh_heap h' = mh_heap h \<and> 2 * Suc (length (mh_heap h')) \<le> length (mh_key_slots h')"
  using reserve_for_insert_returns [OF assms] reserve_for_insert_keeps [OF assms(1)] insert_capacityD(3) by blast

section \<open>Example heaps\<close>

lemma example_heap:
  "\<exists>h. heap_ok h \<and> heap_timers h = [7 \<mapsto> 50, 3 \<mapsto> 20] \<and> length (mh_heap h) < 2 ^ 56"
proof -
  have room: "\<exists>h'. heap_ok h' \<and> has_insert_capacity h' \<and> heap_timers h' = heap_timers h \<and> mh_heap h' = mh_heap h"
    if "heap_ok h" "length (mh_heap h) < 2 ^ 56" for h
    using reserve_for_insert_returns [OF that] reserve_for_insert_keeps [OF that(1)] by (auto simp: heap_timers_def)
  obtain h0 where h0: "heap_ok h0" "has_insert_capacity h0" "heap_timers h0 = Map.empty" "mh_heap h0 = []"
    using room [OF heap_ok_new] by (auto simp: min_heap_new_def heap_timers_def)
  obtain h1 where h1: "heap_insert h0 7 50 = Some h1" "heap_ok h1" "mset (mh_heap h1) = {#\<lparr>he_key = 7, he_deadline = 50, he_generation = 0\<rparr>#}"
    using heap_insert_ok [OF h0(1) _ h0(2), of 7 50] h0(4) by (auto simp: heap_keys_def)
  have l1: "mh_heap h1 = [\<lparr>he_key = 7, he_deadline = 50, he_generation = 0\<rparr>]" using h1(3) by simp
  obtain h2 where h2: "heap_ok h2" "has_insert_capacity h2" "mh_heap h2 = mh_heap h1"
    using room [OF h1(2)] l1 by auto
  have "3 \<notin> heap_keys h2" using h2(3) l1 by (simp add: heap_keys_def)
  then obtain h3 where h3: "heap_insert h2 3 20 = Some h3" "heap_ok h3" "heap_timers h3 = (heap_timers h2)(3 \<mapsto> 20)"
      "mset (mh_heap h3) = add_mset \<lparr>he_key = 3, he_deadline = 20, he_generation = 0\<rparr> (mset (mh_heap h2))"
    using heap_insert_ok [OF h2(1) _ h2(2), of 3 20] heap_insert_timers [OF h2(1,2), of 3 20] dom_heap_timers [of h2]
    by (metis domIff option.inject)
  have "length (mh_heap h3) = 2" using arg_cong [OF h3(4), of size] h2(3) l1 by simp
  moreover have "heap_timers h2 = [7 \<mapsto> 50]" using h2(3) l1 by (simp add: heap_timers_def)
  ultimately show ?thesis using h3(2,3) by (intro exI [of _ h3]) simp
qed

lemma example_due_keys: "due_keys [7 \<mapsto> (50 :: u64), 3 \<mapsto> 20] 60 = [3, 7 :: timer_key]"
proof -
  have "{(d, k) | d k. [7 \<mapsto> (50 :: u64), 3 \<mapsto> 20] k = Some d \<and> d \<le> 60} = {(20, 3), (50, 7 :: timer_key)}" by auto
  then show ?thesis by (simp add: due_keys_def)
qed

theorem drain_due_in_order_witness:
  "\<exists>h h'. heap_timers h = [7 \<mapsto> 50, 3 \<mapsto> 20] \<and> drain_due h 60 [] 2 = Some (h', [3, 7])"
proof -
  obtain h where "heap_ok h" "heap_timers h = [7 \<mapsto> 50, 3 \<mapsto> 20]" using example_heap by blast
  then show ?thesis using drain_due_in_order [of h "[]" 60 2] example_due_keys by auto
qed

theorem timer_heap_operations_witness:
  "\<exists>h h'. heap_ok h \<and> heap_timers h = [7 \<mapsto> 50, 3 \<mapsto> 20] \<and> heap_remove h 7 = Some (True, h')
     \<and> heap_timers h' = [3 \<mapsto> 20]"
proof -
  obtain h where h: "heap_ok h" "heap_timers h = [7 \<mapsto> 50, 3 \<mapsto> 20]" using example_heap by blast
  then obtain h' where "heap_remove h 7 = Some (heap_timers h 7 \<noteq> None, h')" "heap_timers h' = (heap_timers h)(7 := None)"
    using timer_heap_operations [of h 7] by blast
  moreover have "(heap_timers h)(7 := None) = [3 \<mapsto> 20]" unfolding h(2) by (rule ext) (simp add: fun_upd_def)
  ultimately show ?thesis using h by auto
qed

theorem next_deadline_is_least_witness:
  "\<exists>h. heap_ok h \<and> heap_timers h = [7 \<mapsto> 50, 3 \<mapsto> 20] \<and> heap_next_deadline_ns h = Some 20"
proof -
  obtain h where h: "heap_ok h" "heap_timers h = [7 \<mapsto> 50, 3 \<mapsto> 20]" using example_heap by blast
  have "ran [7 \<mapsto> (50 :: u64), 3 :: timer_key \<mapsto> 20] = {20, 50}"
    by (auto simp: ran_def split: if_splits intro: exI [of _ 3] exI [of _ 7])
  then have "Min (ran (heap_timers h)) = 20" using h(2) by simp
  then show ?thesis using h next_deadline_is_least [OF h(1)] by auto
qed

theorem timer_key_life_cycle_witness:
  "\<exists>h h' h''. heap_timers h = [7 \<mapsto> 50, 3 \<mapsto> 20] \<and> drain_due h 60 [] 2 = Some (h', [3, 7])
     \<and> heap_rearm h' 7 90 = Some (False, h'')"
proof -
  obtain h where h: "heap_ok h" "heap_timers h = [7 \<mapsto> 50, 3 \<mapsto> 20]" using example_heap by blast
  then show ?thesis using timer_key_life_cycle [OF h(1), of 7 60 90 2] example_due_keys by fastforce
qed

theorem reserve_makes_room_witness:
  "\<exists>h h'. heap_timers h = [7 \<mapsto> 50, 3 \<mapsto> 20] \<and> reserve_for_insert h = Some h' \<and> has_insert_capacity h'"
  using example_heap reserve_makes_room by blast

end
