(* ===== verification/Timer_Engine.thy ===== *)
theory Timer_Engine
  imports Timer_Queue
begin

text \<open>
  The timer engine (\<open>tx-time/src/timer/engine.rs\<close>): a spin lock around the queue, keys that
  are never reused, growth of the queue outside the lock while the other callers spin, and
  draining in two critical sections that a mutation counter ties together.

  A critical section is a function of the locked state. Panics are \<^term>\<open>None\<close>. The engine as a
  whole is a step relation on the shared state and the places of the calling threads, one step
  for each critical section, so that every interleaving of calls is a run.
\<close>

section \<open>State\<close>

record timer_state =
  ts_next_key :: "u64 option"
  ts_mutation :: u64
  ts_queue :: min_heap

datatype engine_state = Ready timer_state | Growing

definition engine_with_next_key :: "u64 \<Rightarrow> engine_state" where
  "engine_with_next_key next_key =
     Ready \<lparr>ts_next_key = Some next_key, ts_mutation = 0, ts_queue = min_heap_new\<rparr>"

definition engine_new :: engine_state where
  "engine_new = engine_with_next_key 1"

text \<open>\<open>u64::checked_add(1)\<close>.\<close>

definition u64_succ :: "u64 \<Rightarrow> u64 option" where
  "u64_succ w = (if w = - 1 then None else Some (w + 1))"

definition bump_mutation :: "timer_state \<Rightarrow> timer_state option" where
  "bump_mutation s =
     do {
       mutation \<leftarrow> u64_succ (ts_mutation s);
       Some (s\<lparr>ts_mutation := mutation\<rparr>)
     }"

section \<open>Critical sections\<close>

datatype insert_outcome = Inserted timer_key | Must_grow timer_state | Busy

definition insert_section :: "engine_state \<Rightarrow> u64 \<Rightarrow> (insert_outcome \<times> engine_state) option" where
  "insert_section shared deadline =
     (case shared of
        Growing \<Rightarrow> Some (Busy, Growing)
      | Ready s \<Rightarrow>
          if has_insert_capacity (ts_queue s)
          then do {
            raw \<leftarrow> ts_next_key s;
            queue \<leftarrow> heap_insert (ts_queue s) raw deadline;
            s \<leftarrow> bump_mutation (s\<lparr>ts_next_key := u64_succ raw, ts_queue := queue\<rparr>);
            Some (Inserted raw, Ready s)
          }
          else Some (Must_grow s, Growing))"

definition restore_ready_state :: "engine_state \<Rightarrow> timer_state \<Rightarrow> engine_state" where
  "restore_ready_state shared s = (case shared of Growing \<Rightarrow> Ready s | Ready s' \<Rightarrow> Ready s')"

text \<open>The part of \<open>insert\<close> that runs without the lock.\<close>

definition grow_section :: "engine_state \<Rightarrow> timer_state \<Rightarrow> engine_state option" where
  "grow_section shared s =
     do {
       queue \<leftarrow> reserve_for_insert (ts_queue s);
       Some (restore_ready_state shared (s\<lparr>ts_queue := queue\<rparr>))
     }"

text \<open>
  \<open>with_ready_state\<close>: the operation runs when the state is there; otherwise the caller spins,
  which is the result \<^term>\<open>None\<close> inside the outer \<^term>\<open>Some\<close>.
\<close>

definition with_ready_state ::
  "engine_state \<Rightarrow> (timer_state \<Rightarrow> ('r \<times> timer_state) option) \<Rightarrow> ('r option \<times> engine_state) option" where
  "with_ready_state shared operation =
     (case shared of
        Ready s \<Rightarrow> do { (r, s) \<leftarrow> operation s; Some (Some r, Ready s) }
      | Growing \<Rightarrow> Some (None, Growing))"

definition cancel_key :: "timer_key \<Rightarrow> timer_state \<Rightarrow> (bool \<times> timer_state) option" where
  "cancel_key key s =
     do {
       (removed, queue) \<leftarrow> heap_remove (ts_queue s) key;
       let s = s\<lparr>ts_queue := queue\<rparr>;
       s \<leftarrow> (if removed then bump_mutation s else Some s);
       Some (removed, s)
     }"

definition rearm_key :: "timer_key \<Rightarrow> u64 \<Rightarrow> timer_state \<Rightarrow> (bool \<times> timer_state) option" where
  "rearm_key key deadline s =
     do {
       (rearmed, queue) \<leftarrow> heap_rearm (ts_queue s) key deadline;
       let s = s\<lparr>ts_queue := queue\<rparr>;
       s \<leftarrow> (if rearmed then bump_mutation s else Some s);
       Some (rearmed, s)
     }"

definition count_section :: "u64 \<Rightarrow> timer_state \<Rightarrow> ((u64 \<times> nat) \<times> timer_state) option" where
  "count_section now_ns s = Some ((ts_mutation s, due_count (ts_queue s) now_ns), s)"

definition drain_section ::
  "u64 \<Rightarrow> u64 \<Rightarrow> nat \<Rightarrow> timer_key list \<Rightarrow> nat \<Rightarrow> timer_state \<Rightarrow> ((bool \<times> timer_key list) \<times> timer_state) option" where
  "drain_section now_ns mutation due out out_cap s =
     (if ts_mutation s \<noteq> mutation then Some ((False, out), s)
      else do {
        assert_that (due \<le> out_cap - length out);
        (queue, out) \<leftarrow> drain_due (ts_queue s) now_ns out out_cap;
        s \<leftarrow> bump_mutation (s\<lparr>ts_queue := queue\<rparr>);
        Some ((True, out), s)
      })"

definition engine_next_deadline_ns :: "timer_state \<Rightarrow> (u64 option \<times> timer_state) option" where
  "engine_next_deadline_ns s = Some (heap_next_deadline_ns (ts_queue s), s)"

section \<open>One caller\<close>

text \<open>
  The loops of \<open>insert\<close> and \<open>drain_due\<close> for a caller that nobody disturbs, with a bound on the
  rounds; the lemmas below show that two rounds are enough.
\<close>

fun engine_insert :: "nat \<Rightarrow> engine_state \<Rightarrow> u64 \<Rightarrow> (timer_key \<times> engine_state) option" where
  "engine_insert 0 shared deadline = None"
| "engine_insert (Suc rounds) shared deadline =
     do {
       (outcome, shared) \<leftarrow> insert_section shared deadline;
       case outcome of
         Inserted key \<Rightarrow> Some (key, shared)
       | Must_grow s \<Rightarrow> do { shared \<leftarrow> grow_section shared s; engine_insert rounds shared deadline }
       | Busy \<Rightarrow> engine_insert rounds shared deadline
     }"

definition TIMER_KEY_SIZE :: nat where "TIMER_KEY_SIZE = 8"

fun engine_drain_due ::
  "nat \<Rightarrow> engine_state \<Rightarrow> u64 \<Rightarrow> timer_key list \<Rightarrow> nat \<Rightarrow> (timer_key list \<times> nat \<times> engine_state) option" where
  "engine_drain_due 0 shared now_ns out out_cap = None"
| "engine_drain_due (Suc rounds) shared now_ns out out_cap =
     do {
       (r, shared) \<leftarrow> with_ready_state shared (count_section now_ns);
       case r of
         None \<Rightarrow> engine_drain_due rounds shared now_ns out out_cap
       | Some (mutation, due) \<Rightarrow>
           if due = 0 then Some (out, out_cap, shared)
           else do {
             out_cap \<leftarrow> vec_reserve TIMER_KEY_SIZE (length out) out_cap due;
             (r, shared) \<leftarrow> with_ready_state shared (drain_section now_ns mutation due out out_cap);
             case r of
               Some (True, out) \<Rightarrow> Some (out, out_cap, shared)
             | _ \<Rightarrow> engine_drain_due rounds shared now_ns out out_cap
           }
     }"

section \<open>All callers\<close>

datatype caller =
    Idle
  | Inserting u64
  | Holding u64 timer_state
  | Counting u64 "timer_key list" nat
  | Draining u64 u64 nat "timer_key list" nat

record engine =
  shared :: engine_state
  callers :: "nat \<Rightarrow> caller"

datatype engine_event =
    Silent
  | Insert timer_key u64
  | Cancel timer_key bool
  | Rearm timer_key u64 bool
  | Drain u64 "timer_key list"

definition engine_init :: engine where
  "engine_init = \<lparr>shared = engine_new, callers = \<lambda>_. Idle\<rparr>"

abbreviation set_caller :: "engine \<Rightarrow> engine_state \<Rightarrow> nat \<Rightarrow> caller \<Rightarrow> engine" where
  "set_caller c st t place \<equiv> \<lparr>shared = st, callers = (callers c)(t := place)\<rparr>"

inductive engine_step :: "engine \<Rightarrow> engine_event \<Rightarrow> engine \<Rightarrow> bool" where
  insert_call: "callers c t = Idle \<Longrightarrow> engine_step c Silent (set_caller c (shared c) t (Inserting d))"
| insert_done: "callers c t = Inserting d \<Longrightarrow> insert_section (shared c) d = Some (Inserted k, st)
    \<Longrightarrow> engine_step c (Insert k d) (set_caller c st t Idle)"
| insert_grow: "callers c t = Inserting d \<Longrightarrow> insert_section (shared c) d = Some (Must_grow s, st)
    \<Longrightarrow> engine_step c Silent (set_caller c st t (Holding d s))"
| insert_spin: "callers c t = Inserting d \<Longrightarrow> insert_section (shared c) d = Some (Busy, st)
    \<Longrightarrow> engine_step c Silent (set_caller c st t (Inserting d))"
| grow: "callers c t = Holding d s \<Longrightarrow> grow_section (shared c) s = Some st
    \<Longrightarrow> engine_step c Silent (set_caller c st t (Inserting d))"
| cancel: "callers c t = Idle \<Longrightarrow> with_ready_state (shared c) (cancel_key k) = Some (Some b, st)
    \<Longrightarrow> engine_step c (Cancel k b) (set_caller c st t Idle)"
| rearm: "callers c t = Idle \<Longrightarrow> with_ready_state (shared c) (rearm_key k d) = Some (Some b, st)
    \<Longrightarrow> engine_step c (Rearm k d b) (set_caller c st t Idle)"
| drain_call: "callers c t = Idle \<Longrightarrow> length out \<le> cap
    \<Longrightarrow> engine_step c Silent (set_caller c (shared c) t (Counting now out cap))"
| drain_none: "callers c t = Counting now out cap
    \<Longrightarrow> with_ready_state (shared c) (count_section now) = Some (Some (m, 0), st)
    \<Longrightarrow> engine_step c (Drain now []) (set_caller c st t Idle)"
| drain_count: "callers c t = Counting now out cap
    \<Longrightarrow> with_ready_state (shared c) (count_section now) = Some (Some (m, n), st) \<Longrightarrow> 0 < n
    \<Longrightarrow> vec_reserve TIMER_KEY_SIZE (length out) cap n = Some cap'
    \<Longrightarrow> engine_step c Silent (set_caller c st t (Draining now m n out cap'))"
| drain_done: "callers c t = Draining now m n out cap
    \<Longrightarrow> with_ready_state (shared c) (drain_section now m n out cap) = Some (Some (True, out @ ks), st)
    \<Longrightarrow> engine_step c (Drain now ks) (set_caller c st t Idle)"
| drain_retry: "callers c t = Draining now m n out cap
    \<Longrightarrow> with_ready_state (shared c) (drain_section now m n out cap) = Some (Some (False, out'), st)
    \<Longrightarrow> engine_step c Silent (set_caller c st t (Counting now out' cap))"

inductive engine_run :: "engine \<Rightarrow> engine_event list \<Rightarrow> engine \<Rightarrow> bool" where
  run_nil: "engine_run c [] c"
| run_snoc: "engine_run c evs c' \<Longrightarrow> engine_step c' ev c'' \<Longrightarrow> engine_run c (evs @ [ev]) c''"

section \<open>The state between critical sections\<close>

definition state_ok :: "timer_state \<Rightarrow> bool" where
  "state_ok s \<longleftrightarrow> heap_ok (ts_queue s)
     \<and> (\<forall>n. ts_next_key s = Some n \<longrightarrow> (\<forall>k \<in> heap_keys (ts_queue s). k < n))"

abbreviation state_timers :: "timer_state \<Rightarrow> timer_key \<Rightarrow> u64 option" where
  "state_timers s \<equiv> heap_timers (ts_queue s)"

text \<open>
  A critical section either leaves the timers and the mutation counter, or it advances the
  counter.
\<close>

definition advances :: "timer_state \<Rightarrow> timer_state \<Rightarrow> bool" where
  "advances s s' \<longleftrightarrow> ts_mutation s < ts_mutation s'
     \<or> ts_mutation s' = ts_mutation s \<and> state_timers s' = state_timers s"

lemma advances_refl [simp]: "advances s s"
  by (simp add: advances_def)

lemma u64_succ_greater: "u64_succ w = Some v \<Longrightarrow> w < v"
  by (auto simp: u64_succ_def not_le [symmetric] inc_less_eq_self_iff_eq split: if_splits)

lemma state_ok_keys:
  "state_ok s \<longleftrightarrow> heap_ok (ts_queue s)
     \<and> (\<forall>n. ts_next_key s = Some n \<longrightarrow> (\<forall>k \<in> dom (state_timers s). k < n))"
  by (simp add: state_ok_def dom_heap_timers)

lemma due_count_keys:
  assumes "heap_ok h"
  shows "due_count h now = length (due_keys (heap_timers h) now)"
proof -
  let ?xs = "filter (\<lambda>e. he_deadline e \<le> now) (mh_heap h)"
  have "inj_on he_key (set (mh_heap h))" using heap_ok_distinct [OF assms] by (simp add: distinct_map)
  then have "inj_on rank (set ?xs)" by (intro inj_onI) (auto simp: rank_def dest: inj_onD)
  moreover have "distinct ?xs" using heap_ok_distinct [OF assms] by (simp add: distinct_map)
  ultimately have "distinct (map rank ?xs)" by (simp add: distinct_map)
  then have "card (due_ranks (mh_heap h) now) = length ?xs"
    using distinct_card [of "map rank ?xs"] by (simp add: due_ranks_def)
  then show ?thesis by (simp add: due_count_def due_keys_def due_ranks_timers [OF assms])
qed

lemma insert_sectionD:
  assumes "state_ok s" "insert_section (Ready s) d = Some (outcome, st)"
  shows "outcome = Inserted k \<Longrightarrow> \<exists>s'. st = Ready s' \<and> state_ok s' \<and> advances s s' \<and> state_timers s k = None
      \<and> state_timers s' = (state_timers s)(k \<mapsto> d) \<and> ts_next_key s = Some k \<and> ts_next_key s' = u64_succ k"
    and "outcome = Must_grow s1 \<Longrightarrow> s1 = s \<and> st = Growing"
    and "outcome \<noteq> Busy"
proof -
  let ?q = "ts_queue s"
  have ok: "heap_ok ?q" using assms(1) by (simp add: state_ok_def)
  show "outcome = Must_grow s1 \<Longrightarrow> s1 = s \<and> st = Growing" "outcome \<noteq> Busy"
    using assms(2) by (auto simp: insert_section_def split: if_splits bind_splits)
  assume k: "outcome = Inserted k"
  have room: "has_insert_capacity ?q" and nk: "ts_next_key s = Some k"
    using assms(2) k by (auto simp: insert_section_def split: if_splits bind_splits)
  have "k \<notin> dom (state_timers s)" using assms(1) nk by (auto simp: state_ok_keys)
  then have none: "state_timers s k = None" by (simp add: domIff)
  obtain q where q: "heap_insert ?q k d = Some q" "heap_ok q" "heap_timers q = (heap_timers ?q)(k \<mapsto> d)"
    using heap_insert_timers [OF ok room none] by blast
  let ?s = "s\<lparr>ts_next_key := u64_succ k, ts_queue := q\<rparr>"
  obtain m where m: "u64_succ (ts_mutation s) = Some m" "st = Ready (?s\<lparr>ts_mutation := m\<rparr>)"
    using assms(2) k room nk q(1) by (auto simp: insert_section_def bump_mutation_def split: bind_splits)
  have "k' < n" if "u64_succ k = Some n" "k' \<in> dom (heap_timers q)" for n k'
  proof -
    have "k' = k \<or> k' < k" using that(2) q(3) assms(1) nk by (auto simp: state_ok_keys split: if_splits)
    then show ?thesis using u64_succ_greater [OF that(1)] by (metis less_trans)
  qed
  then have "state_ok (?s\<lparr>ts_mutation := m\<rparr>)" using q(2) by (simp add: state_ok_keys)
  moreover have "advances s (?s\<lparr>ts_mutation := m\<rparr>)" using u64_succ_greater [OF m(1)] by (simp add: advances_def)
  ultimately show "\<exists>s'. st = Ready s' \<and> state_ok s' \<and> advances s s' \<and> state_timers s k = None
      \<and> state_timers s' = (state_timers s)(k \<mapsto> d) \<and> ts_next_key s = Some k \<and> ts_next_key s' = u64_succ k"
    using m(2) none nk q(3) by simp
qed

lemma state_ok_fewer:
  assumes "state_ok s" "heap_ok (ts_queue s')" "dom (state_timers s') \<subseteq> dom (state_timers s)"
    "ts_next_key s' = ts_next_key s"
  shows "state_ok s'"
  using assms by (auto simp: state_ok_keys)

lemma with_ready_stateD:
  assumes "with_ready_state st operation = Some (Some r, st')"
  obtains s s' where "st = Ready s" "operation s = Some (r, s')" "st' = Ready s'"
  using assms by (auto simp: with_ready_state_def split: engine_state.splits bind_splits)

lemma cancel_keyD:
  assumes "state_ok s" "cancel_key k s = Some (b, s')"
  shows "state_ok s' \<and> advances s s' \<and> ts_next_key s' = ts_next_key s
    \<and> b = (state_timers s k \<noteq> None) \<and> state_timers s' = (state_timers s)(k := None)"
proof -
  have ok: "heap_ok (ts_queue s)" using assms(1) by (simp add: state_ok_def)
  obtain q where q: "heap_remove (ts_queue s) k = Some (state_timers s k \<noteq> None, q)" "heap_ok q"
      "heap_timers q = (state_timers s)(k := None)"
    using heap_remove_timers [OF ok] by blast
  have b: "b = (state_timers s k \<noteq> None)" and s': "ts_queue s' = q" "ts_next_key s' = ts_next_key s"
    using assms(2) q(1) by (auto simp: cancel_key_def Let_def bump_mutation_def split: bind_splits if_splits)
  have adv: "advances s s'"
  proof (cases b)
    case True
    then show ?thesis using assms(2) q(1) b
      by (auto simp: cancel_key_def Let_def bump_mutation_def advances_def dest: u64_succ_greater split: bind_splits)
  next
    case False
    then have "ts_mutation s' = ts_mutation s" using assms(2) q(1) b
      by (auto simp: cancel_key_def Let_def)
    moreover have "heap_timers q = state_timers s" using q(3) False b by (simp add: fun_upd_idem)
    ultimately show ?thesis using s'(1) by (simp add: advances_def)
  qed
  have "state_ok s'"
    by (rule state_ok_fewer [OF assms(1)]) (use s' q in auto)
  then show ?thesis using adv b s' q(3) by simp
qed

lemma rearm_keyD:
  assumes "state_ok s" "rearm_key k d s = Some (b, s')"
  shows "state_ok s' \<and> advances s s' \<and> ts_next_key s' = ts_next_key s
    \<and> b = (state_timers s k \<noteq> None)
    \<and> state_timers s' = (if state_timers s k = None then state_timers s else (state_timers s)(k \<mapsto> d))"
proof -
  have ok: "heap_ok (ts_queue s)" using assms(1) by (simp add: state_ok_def)
  obtain q where q: "heap_rearm (ts_queue s) k d = Some (state_timers s k \<noteq> None, q)" "heap_ok q"
      "heap_timers q = (if state_timers s k = None then state_timers s else (state_timers s)(k \<mapsto> d))"
    using heap_rearm_timers [OF ok] by blast
  have b: "b = (state_timers s k \<noteq> None)" and s': "ts_queue s' = q" "ts_next_key s' = ts_next_key s"
    using assms(2) q(1) by (auto simp: rearm_key_def Let_def bump_mutation_def split: bind_splits if_splits)
  have adv: "advances s s'"
  proof (cases b)
    case True
    then show ?thesis using assms(2) q(1) b
      by (auto simp: rearm_key_def Let_def bump_mutation_def advances_def dest: u64_succ_greater split: bind_splits)
  next
    case False
    then have "ts_mutation s' = ts_mutation s" using assms(2) q(1) b by (auto simp: rearm_key_def Let_def)
    then show ?thesis using s'(1) q(3) False b by (simp add: advances_def)
  qed
  have "state_ok s'"
    by (rule state_ok_fewer [OF assms(1)]) (use s' q in \<open>auto split: if_splits\<close>)
  then show ?thesis using adv b s' q(3) by simp
qed

lemma drain_sectionD:
  assumes "state_ok s" "drain_section now m n out cap s = Some ((b, out'), s')"
    and "m = ts_mutation s \<Longrightarrow> length out + length (due_keys (state_timers s) now) \<le> cap"
  shows "b \<Longrightarrow> out' = out @ due_keys (state_timers s) now \<and> state_ok s' \<and> advances s s'
      \<and> ts_next_key s' = ts_next_key s \<and> state_timers s' = not_due (state_timers s) now"
    and "\<not> b \<Longrightarrow> s' = s \<and> out' = out"
proof -
  have ok: "heap_ok (ts_queue s)" using assms(1) by (simp add: state_ok_def)
  show "\<not> b \<Longrightarrow> s' = s \<and> out' = out"
    using assms(2) by (auto simp: drain_section_def split: if_splits bind_splits)
  assume b
  then have m: "m = ts_mutation s" using assms(2) by (auto simp: drain_section_def split: if_splits)
  obtain q where q: "drain_due (ts_queue s) now out cap = Some (q, out @ due_keys (state_timers s) now)" "heap_ok q"
      "heap_timers q = not_due (state_timers s) now"
    using drain_due_timers [OF ok assms(3) [OF m]] by blast
  have s': "ts_queue s' = q" "ts_next_key s' = ts_next_key s" "out' = out @ due_keys (state_timers s) now"
      "u64_succ (ts_mutation s) = Some (ts_mutation s')"
    using assms(2) q(1) m by (auto simp: drain_section_def bump_mutation_def split: bind_splits)
  have "dom (heap_timers q) \<subseteq> dom (state_timers s)"
    unfolding q(3) by (auto simp: not_due_def split: option.splits)
  then have "state_ok s'" using state_ok_fewer [OF assms(1), of s'] s'(1,2) q(2) by simp
  then show "out' = out @ due_keys (state_timers s) now \<and> state_ok s' \<and> advances s s'
      \<and> ts_next_key s' = ts_next_key s \<and> state_timers s' = not_due (state_timers s) now"
    using s' q(3) u64_succ_greater [OF s'(4)] by (simp add: advances_def)
qed

section \<open>Every interleaving\<close>

text \<open>
  The timer state has one owner: the shared cell, or the one caller that grows the queue.
\<close>

fun holding :: "caller \<Rightarrow> bool" where
  "holding (Holding d s) \<longleftrightarrow> True"
| "holding _ \<longleftrightarrow> False"

definition owner :: "engine \<Rightarrow> timer_state \<Rightarrow> bool" where
  "owner c s \<longleftrightarrow>
     (shared c = Ready s \<and> (\<forall>t. \<not> holding (callers c t)))
     \<or> (shared c = Growing \<and> (\<exists>t d. callers c t = Holding d s \<and> (\<forall>t'. t' \<noteq> t \<longrightarrow> \<not> holding (callers c t'))))"

text \<open>What a caller between its two critical sections may rely on.\<close>

fun caller_ok :: "timer_state \<Rightarrow> caller \<Rightarrow> bool" where
  "caller_ok s (Counting now out cap) \<longleftrightarrow> length out \<le> cap"
| "caller_ok s (Draining now m n out cap) \<longleftrightarrow> length out + n \<le> cap \<and> m \<le> ts_mutation s
     \<and> (m = ts_mutation s \<longrightarrow> length (due_keys (state_timers s) now) = n)"
| "caller_ok s _ \<longleftrightarrow> True"

definition engine_ok :: "engine \<Rightarrow> timer_state \<Rightarrow> bool" where
  "engine_ok c s \<longleftrightarrow> owner c s \<and> state_ok s \<and> (\<forall>t. caller_ok s (callers c t))"

text \<open>The abstract engine: one map, every event atomic.\<close>

fun timer_spec :: "(timer_key \<Rightarrow> u64 option) \<Rightarrow> engine_event \<Rightarrow> (timer_key \<Rightarrow> u64 option) \<Rightarrow> bool" where
  "timer_spec m Silent m' \<longleftrightarrow> m' = m"
| "timer_spec m (Insert k d) m' \<longleftrightarrow> m k = None \<and> m' = m(k \<mapsto> d)"
| "timer_spec m (Cancel k b) m' \<longleftrightarrow> b = (m k \<noteq> None) \<and> m' = m(k := None)"
| "timer_spec m (Rearm k d b) m' \<longleftrightarrow> b = (m k \<noteq> None) \<and> m' = (if m k = None then m else m(k \<mapsto> d))"
| "timer_spec m (Drain now ks) m' \<longleftrightarrow> ks = due_keys m now \<and> m' = not_due m now"

fun key_spec :: "u64 option \<Rightarrow> engine_event \<Rightarrow> u64 option \<Rightarrow> bool" where
  "key_spec n (Insert k d) n' \<longleftrightarrow> n = Some k \<and> n' = u64_succ k"
| "key_spec n _ n' \<longleftrightarrow> n' = n"

lemma caller_ok_advances:
  assumes "caller_ok s p" "advances s s'"
  shows "caller_ok s' p"
  using assms by (cases p) (auto simp: advances_def)

lemma engine_okI:
  assumes "engine_ok c s" "owner c' s'" "state_ok s'" "advances s s'" "callers c' = (callers c)(t := p)" "caller_ok s' p"
  shows "engine_ok c' s'"
  using assms caller_ok_advances [OF _ assms(4)] by (auto simp: engine_ok_def)

lemma owner_ready: "owner c s \<Longrightarrow> shared c = Ready s' \<Longrightarrow> s' = s"
  by (auto simp: owner_def)

lemma owner_set_ready:
  assumes "owner c s" "shared c = Ready s1" "\<not> holding p"
  shows "owner (set_caller c (Ready s') t p) s'"
  using assms by (auto simp: owner_def)

lemma owner_set_keep:
  assumes "owner c s" "\<not> holding (callers c t)" "\<not> holding p"
  shows "owner (set_caller c (shared c) t p) s"
  using assms(1) [unfolded owner_def]
proof (elim disjE conjE exE)
  fix t0 d
  assume *: "shared c = Growing" "callers c t0 = Holding d s" "\<forall>t'. t' \<noteq> t0 \<longrightarrow> \<not> holding (callers c t')"
  then have "t0 \<noteq> t" using assms(2) by auto
  then show ?thesis using * assms(3) by (auto simp: owner_def intro!: exI [of _ t0])
qed (use assms(3) in \<open>simp add: owner_def\<close>)

lemma owner_grow:
  assumes "owner c s" "shared c = Ready s1"
  shows "owner (set_caller c Growing t (Holding d s)) s"
  using assms by (auto simp: owner_def intro!: exI [of _ t])

lemma owner_holder:
  assumes "owner c s" "callers c t = Holding d s'"
  shows "s' = s" "shared c = Growing" "\<not> holding p \<Longrightarrow> owner (set_caller c (Ready s'') t p) s''"
proof -
  have h: "holding (callers c t)" using assms(2) by simp
  then obtain t0 d0 where *: "shared c = Growing" "callers c t0 = Holding d0 s" "\<forall>t'. t' \<noteq> t0 \<longrightarrow> \<not> holding (callers c t')"
    using assms(1) unfolding owner_def by blast
  then have "t0 = t" using h by metis
  with * assms(2) show "s' = s" "shared c = Growing" "\<not> holding p \<Longrightarrow> owner (set_caller c (Ready s'') t p) s''"
    by (auto simp: owner_def)
qed

lemma engine_step_ready:
  assumes "engine_ok c s" "with_ready_state (shared c) operation = Some (Some r, st)"
  obtains s' where "operation s = Some (r, s')" "st = Ready s'" "shared c = Ready s"
  using assms owner_ready unfolding engine_ok_def by (elim with_ready_stateD) blast

lemma not_due_nothing:
  assumes "finite (dom m)" "due_keys m now = []"
  shows "not_due m now = m"
proof (rule ext)
  fix k
  show "not_due m now k = m k"
    using set_due_keys [OF assms(1), of k now] assms(2) by (auto simp: not_due_def split: option.splits)
qed

lemma grow_sectionD:
  assumes "state_ok s" "grow_section Growing s = Some st"
  shows "\<exists>s'. st = Ready s' \<and> state_ok s' \<and> advances s s' \<and> ts_next_key s' = ts_next_key s
    \<and> state_timers s' = state_timers s"
proof -
  obtain q where q: "reserve_for_insert (ts_queue s) = Some q" "st = Ready (s\<lparr>ts_queue := q\<rparr>)"
    using assms(2) by (auto simp: grow_section_def restore_ready_state_def split: bind_splits)
  have ok: "heap_ok (ts_queue s)" using assms(1) by (simp add: state_ok_def)
  have "heap_ok q" "mh_heap q = mh_heap (ts_queue s)" using reserve_for_insert_keeps [OF ok q(1)] by simp_all
  then show ?thesis
    using q(2) assms(1) by (auto simp: heap_timers_def heap_keys_def state_ok_def advances_def)
qed

text \<open>The two shapes of a step that leaves the state in the shared cell.\<close>

lemma engine_ok_ready:
  assumes "engine_ok c s" "shared c = Ready s" "state_ok s'" "advances s s'" "caller_ok s' p" "\<not> holding p"
  shows "engine_ok (set_caller c (Ready s') t p) s'"
  by (rule engine_okI [OF assms(1) _ assms(3,4) _ assms(5)])
    (use assms owner_set_ready in \<open>auto simp: engine_ok_def\<close>)

lemma engine_ok_keep:
  assumes "engine_ok c s" "\<not> holding (callers c t)" "caller_ok s p" "\<not> holding p"
  shows "engine_ok (set_caller c (shared c) t p) s"
  by (rule engine_okI [OF assms(1) _ _ _ _ assms(3)])
    (use assms owner_set_keep in \<open>auto simp: engine_ok_def\<close>)

lemma insert_section_ok:
  assumes "engine_ok c s" "insert_section (shared c) d = Some (outcome, st)"
  shows "outcome = Inserted k \<Longrightarrow> \<exists>s'. engine_ok (set_caller c st t Idle) s' \<and> state_timers s k = None
      \<and> state_timers s' = (state_timers s)(k \<mapsto> d) \<and> ts_next_key s = Some k \<and> ts_next_key s' = u64_succ k"
    and "outcome = Must_grow s1 \<Longrightarrow> engine_ok (set_caller c st t (Holding d s1)) s"
    and "outcome = Busy \<Longrightarrow> st = shared c"
proof -
  have ok: "state_ok s" and ow: "owner c s" using assms(1) by (simp_all add: engine_ok_def)
  have busy: "st = Growing \<and> outcome = Busy" if "shared c = Growing"
    using that assms(2) by (simp add: insert_section_def)
  note ready = insert_sectionD [OF ok, of d outcome st]
  have own: "shared c = Ready s" if "outcome \<noteq> Busy"
    using that busy owner_ready [OF ow] by (cases "shared c") auto
  show "outcome = Busy \<Longrightarrow> st = shared c"
    using busy owner_ready [OF ow] ready(3) assms(2) by (cases "shared c") auto
  show "\<exists>s'. engine_ok (set_caller c st t Idle) s' \<and> state_timers s k = None
      \<and> state_timers s' = (state_timers s)(k \<mapsto> d) \<and> ts_next_key s = Some k \<and> ts_next_key s' = u64_succ k"
    if "outcome = Inserted k"
    using that own ready(1) [of k] assms(2) engine_ok_ready [OF assms(1) own, of _ Idle t] by auto
  show "engine_ok (set_caller c st t (Holding d s1)) s" if "outcome = Must_grow s1"
  proof -
    have "s1 = s" "st = Growing" using that own ready(2) [of s1] assms(2) by auto
    then show ?thesis
      using that own assms(1) ok by (intro engine_okI [OF assms(1)]) (auto intro: owner_grow [OF ow])
  qed
qed

lemma grow_section_ok:
  assumes "engine_ok c s" "callers c t = Holding d s1" "grow_section (shared c) s1 = Some st"
  shows "\<exists>s'. engine_ok (set_caller c st t (Inserting d)) s' \<and> state_timers s' = state_timers s
    \<and> ts_next_key s' = ts_next_key s"
proof -
  have ok: "state_ok s" and ow: "owner c s" using assms(1) by (simp_all add: engine_ok_def)
  note h = owner_holder [OF ow assms(2)]
  then obtain s' where s': "st = Ready s'" "state_ok s'" "advances s s'" "ts_next_key s' = ts_next_key s"
      "state_timers s' = state_timers s"
    using grow_sectionD [OF ok, of st] assms(3) by auto
  have "engine_ok (set_caller c st t (Inserting d)) s'"
    by (rule engine_okI [OF assms(1) _ s'(2,3)]) (use s'(1) h(3) [of "Inserting d"] in auto)
  then show ?thesis using s' by auto
qed

lemma count_section_ok:
  assumes "engine_ok c s" "with_ready_state (shared c) (count_section now) = Some (Some (m, n), st)"
  shows "st = shared c" "m = ts_mutation s" "n = length (due_keys (state_timers s) now)" "shared c = Ready s"
proof -
  obtain s' where r: "count_section now s = Some ((m, n), s')" "st = Ready s'" "shared c = Ready s"
    by (rule engine_step_ready [OF assms])
  moreover have "heap_ok (ts_queue s)" using assms(1) by (simp add: engine_ok_def state_ok_def)
  ultimately show "st = shared c" "m = ts_mutation s" "n = length (due_keys (state_timers s) now)" "shared c = Ready s"
    using due_count_keys [of "ts_queue s" now] by (auto simp: count_section_def)
qed

lemma drain_section_ok:
  assumes "engine_ok c s" "callers c t = Draining now m n out cap"
    and "with_ready_state (shared c) (drain_section now m n out cap) = Some (Some (b, out'), st)"
  shows "b \<Longrightarrow> \<exists>s'. engine_ok (set_caller c st t Idle) s' \<and> out' = out @ due_keys (state_timers s) now
      \<and> state_timers s' = not_due (state_timers s) now \<and> ts_next_key s' = ts_next_key s"
    and "\<not> b \<Longrightarrow> st = shared c \<and> out' = out"
proof -
  have ok: "state_ok s" using assms(1) by (simp add: engine_ok_def)
  obtain s' where r: "drain_section now m n out cap s = Some ((b, out'), s')" "st = Ready s'" "shared c = Ready s"
    by (rule engine_step_ready [OF assms(1,3)])
  have fits: "m = ts_mutation s \<Longrightarrow> length out + length (due_keys (state_timers s) now) \<le> cap"
    using assms(1,2) by (metis caller_ok.simps(2) engine_ok_def)
  note d = drain_sectionD [OF ok r(1) fits]
  show "\<exists>s'. engine_ok (set_caller c st t Idle) s' \<and> out' = out @ due_keys (state_timers s) now
      \<and> state_timers s' = not_due (state_timers s) now \<and> ts_next_key s' = ts_next_key s" if b
    using d(1) [OF _ that] r engine_ok_ready [OF assms(1) r(3), of s' Idle t] by auto
  show "\<not> b \<Longrightarrow> st = shared c \<and> out' = out" using d(2) r by simp
qed

lemma engine_step_refines:
  assumes "engine_ok c s" "engine_step c ev c'"
  shows "\<exists>s'. engine_ok c' s' \<and> timer_spec (state_timers s) ev (state_timers s')
    \<and> key_spec (ts_next_key s) ev (ts_next_key s')"
  using assms(2)
proof cases
  case (insert_call t d)
  then show ?thesis using engine_ok_keep [OF assms(1), of t "Inserting d"] by auto
next
  case (insert_done t d k st)
  then show ?thesis using insert_section_ok(1) [OF assms(1), of d "Inserted k" st k t] by auto
next
  case (insert_grow t d s1 st)
  then show ?thesis using insert_section_ok(2) [OF assms(1), of d "Must_grow s1" st s1 t] by auto
next
  case (insert_spin t d st)
  then show ?thesis
    using insert_section_ok(3) [OF assms(1), of d Busy st] engine_ok_keep [OF assms(1), of t "Inserting d"] by auto
next
  case (grow t d s1 st)
  then show ?thesis using grow_section_ok [OF assms(1)] by fastforce
next
  case (cancel t k b st)
  obtain s' where r: "cancel_key k s = Some (b, s')" "st = Ready s'" "shared c = Ready s"
    by (rule engine_step_ready [OF assms(1) cancel(4)])
  have "state_ok s" using assms(1) by (simp add: engine_ok_def)
  note s' = cancel_keyD [OF this r(1)]
  then have "engine_ok c' s'"
    using cancel(2) r(2) engine_ok_ready [OF assms(1) r(3), of s' Idle t] by simp
  then show ?thesis using cancel(1) s' by auto
next
  case (rearm t k d b st)
  obtain s' where r: "rearm_key k d s = Some (b, s')" "st = Ready s'" "shared c = Ready s"
    by (rule engine_step_ready [OF assms(1) rearm(4)])
  have "state_ok s" using assms(1) by (simp add: engine_ok_def)
  note s' = rearm_keyD [OF this r(1)]
  then have "engine_ok c' s'"
    using rearm(2) r(2) engine_ok_ready [OF assms(1) r(3), of s' Idle t] by simp
  then show ?thesis using rearm(1) s' by auto
next
  case (drain_call t out cap now)
  then show ?thesis using engine_ok_keep [OF assms(1), of t "Counting now out cap"] by auto
next
  case (drain_none t now out cap m st)
  note cnt = count_section_ok [OF assms(1) drain_none(4)]
  then have "due_keys (state_timers s) now = []" by simp
  moreover have "engine_ok c' s" using engine_ok_keep [OF assms(1), of t Idle] drain_none cnt(1) by simp
  ultimately show ?thesis using drain_none not_due_nothing [OF finite_heap_timers] by auto
next
  case (drain_count t now out cap m n st cap')
  note cnt = count_section_ok [OF assms(1) drain_count(4)]
  have "length out \<le> cap" using assms(1) drain_count(3) by (metis caller_ok.simps(1) engine_ok_def)
  then have "length out + n \<le> cap'" using vec_reserve_SomeD(1) [OF drain_count(6)] by simp
  then show ?thesis
    using engine_ok_keep [OF assms(1), of t "Draining now m n out cap'"] drain_count cnt by auto
next
  case (drain_done t now m n out cap ks st)
  then show ?thesis using drain_section_ok(1) [OF assms(1) drain_done(3,4)] by auto
next
  case (drain_retry t now m n out cap out' st)
  have "length out \<le> cap" using assms(1) drain_retry(3) by (metis caller_ok.simps(2) engine_ok_def add_leD1)
  then show ?thesis
    using drain_section_ok(2) [OF assms(1) drain_retry(3,4)] drain_retry
      engine_ok_keep [OF assms(1), of t "Counting now out cap"] by auto
qed

section \<open>Runs\<close>

fun spec_run :: "(timer_key \<Rightarrow> u64 option) \<Rightarrow> engine_event list \<Rightarrow> (timer_key \<Rightarrow> u64 option) \<Rightarrow> bool" where
  "spec_run m [] m' \<longleftrightarrow> m' = m"
| "spec_run m (ev # evs) m' \<longleftrightarrow> (\<exists>m1. timer_spec m ev m1 \<and> spec_run m1 evs m')"

lemma spec_run_snoc: "spec_run m (evs @ [ev]) m'' \<longleftrightarrow> (\<exists>m'. spec_run m evs m' \<and> timer_spec m' ev m'')"
  by (induction evs arbitrary: m) auto

fun inserted_keys :: "engine_event list \<Rightarrow> timer_key list" where
  "inserted_keys [] = []"
| "inserted_keys (Insert k d # evs) = k # inserted_keys evs"
| "inserted_keys (_ # evs) = inserted_keys evs"

lemma inserted_keys_append: "inserted_keys (xs @ ys) = inserted_keys xs @ inserted_keys ys"
  by (induction xs rule: inserted_keys.induct) auto

lemma state_ok_new: "state_ok \<lparr>ts_next_key = Some n, ts_mutation = 0, ts_queue = min_heap_new\<rparr>"
  using heap_ok_new by (simp add: state_ok_def) (simp add: heap_keys_def min_heap_new_def)

lemma engine_ok_init:
  "engine_ok engine_init \<lparr>ts_next_key = Some 1, ts_mutation = 0, ts_queue = min_heap_new\<rparr>"
  using state_ok_new by (simp add: engine_ok_def engine_init_def engine_new_def engine_with_next_key_def owner_def)

lemma engine_run_ok:
  assumes "engine_run engine_init evs c"
  shows "\<exists>s. engine_ok c s \<and> spec_run Map.empty evs (state_timers s) \<and> sorted_wrt (<) (inserted_keys evs)
    \<and> (\<forall>n. ts_next_key s = Some n \<longrightarrow> (\<forall>k \<in> set (inserted_keys evs). k < n))"
  using assms
proof (induction engine_init evs c rule: engine_run.induct)
  case run_nil
  have "heap_timers min_heap_new = Map.empty" by (simp add: heap_timers_def min_heap_new_def)
  then show ?case using engine_ok_init by auto
next
  case (run_snoc evs c ev c')
  then obtain s where s: "engine_ok c s" "spec_run Map.empty evs (state_timers s)" "sorted_wrt (<) (inserted_keys evs)"
      "\<And>n. ts_next_key s = Some n \<Longrightarrow> \<forall>k \<in> set (inserted_keys evs). k < n"
    by blast
  obtain s' where s': "engine_ok c' s'" "timer_spec (state_timers s) ev (state_timers s')"
      "key_spec (ts_next_key s) ev (ts_next_key s')"
    using engine_step_refines [OF s(1) run_snoc(3)] by blast
  have "spec_run Map.empty (evs @ [ev]) (state_timers s')" using s(2) s'(2) spec_run_snoc by blast
  moreover have "sorted_wrt (<) (inserted_keys (evs @ [ev]))
      \<and> (\<forall>n. ts_next_key s' = Some n \<longrightarrow> (\<forall>k \<in> set (inserted_keys (evs @ [ev])). k < n))"
    using s(3,4) s'(3)
    by (cases ev) (auto simp: inserted_keys_append sorted_wrt_append dest: u64_succ_greater less_trans)
  ultimately show ?case using s'(1) by blast
qed

text \<open>
  C1: Every run of the timer engine, with any number of callers and any interleaving of their
  critical sections, is a run of one map from keys to deadlines on which each event is atomic:
  an insertion binds an unused key, a cancellation or re-arming reports whether the key was
  there, and a drain returns exactly the due keys, by deadline and then by key, and removes them.
\<close>

theorem timer_engine_refines_map:
  "engine_run engine_init evs c \<Longrightarrow>
     \<exists>s. owner c s \<and> spec_run Map.empty evs (heap_timers (ts_queue s))"
  using engine_run_ok unfolding engine_ok_def by blast

text \<open>C12: Keys are handed out in increasing order, so no key is ever used twice in a run.\<close>

theorem timer_keys_never_reused:
  "engine_run engine_init evs c \<Longrightarrow> sorted_wrt (<) (inserted_keys evs)"
  using engine_run_ok by blast

text \<open>
  C13: The second critical section of a drain never panics for want of output capacity or in the
  heap: in a reachable engine it returns unless the mutation counter is exhausted, and when it
  finds the counter of the first section it drains.
\<close>

theorem drain_section_never_panics:
  assumes "engine_run engine_init evs c" "callers c t = Draining now m n out cap" "shared c = Ready s"
    and "ts_mutation s \<noteq> - 1"
  shows "\<exists>out' s'. drain_section now m n out cap s = Some ((m = ts_mutation s, out'), s')"
proof -
  obtain s0 where ok: "engine_ok c s0" using engine_run_ok [OF assms(1)] by blast
  then have "s0 = s" using owner_ready assms(3) by (metis engine_ok_def)
  then have st: "state_ok s" and fits: "length out + n \<le> cap" "m = ts_mutation s \<Longrightarrow> length (due_keys (state_timers s) now) = n"
    using ok assms(2) by (auto simp: engine_ok_def dest: spec [of _ t])
  show ?thesis
  proof (cases "m = ts_mutation s")
    case True
    have "heap_ok (ts_queue s)" using st by (simp add: state_ok_def)
    then obtain q where "drain_due (ts_queue s) now out cap = Some (q, out @ due_keys (state_timers s) now)"
      using drain_due_timers [of "ts_queue s" out now cap] fits True by auto
    moreover have "n \<le> cap - length out" using fits(1) by linarith
    ultimately show ?thesis
      using True assms(4) by (simp add: drain_section_def bump_mutation_def u64_succ_def)
  qed (simp add: drain_section_def)
qed

text \<open>
  C14: A caller that nobody disturbs gets its timer in at most two rounds: the first may have to
  grow the queue, the second then finds room.
\<close>

theorem engine_insert_returns:
  assumes "state_ok s" "ts_next_key s = Some k" "ts_mutation s \<noteq> - 1" "length (mh_heap (ts_queue s)) < 2 ^ 56"
  shows "\<exists>s'. engine_insert 2 (Ready s) d = Some (k, Ready s') \<and> state_ok s'
    \<and> heap_timers (ts_queue s') = (heap_timers (ts_queue s))(k \<mapsto> d)"
proof -
  have room: "\<exists>s'. insert_section (Ready s1) d = Some (Inserted k, Ready s') \<and> state_ok s'
      \<and> state_timers s' = (state_timers s1)(k \<mapsto> d)"
    if s1: "state_ok s1" "has_insert_capacity (ts_queue s1)" "ts_next_key s1 = Some k" "ts_mutation s1 = ts_mutation s" for s1
  proof -
    have "heap_ok (ts_queue s1)" "state_timers s1 k = None"
      using s1(1,3) by (auto simp: state_ok_keys domIff)
    then obtain q where "heap_insert (ts_queue s1) k d = Some q"
      using heap_insert_timers [OF _ s1(2)] by blast
    then have "\<exists>st. insert_section (Ready s1) d = Some (Inserted k, st)"
      using s1 assms(3) by (simp add: insert_section_def bump_mutation_def u64_succ_def)
    then show ?thesis using insert_sectionD(1) [OF s1(1)] by blast
  qed
  show ?thesis
  proof (cases "has_insert_capacity (ts_queue s)")
    case True
    then show ?thesis using room [OF assms(1) True assms(2)] by (auto simp: numeral_2_eq_2)
  next
    case False
    have ok: "heap_ok (ts_queue s)" using assms(1) by (simp add: state_ok_def)
    obtain q where q: "reserve_for_insert (ts_queue s) = Some q"
      using reserve_for_insert_returns [OF ok assms(4)] by blast
    let ?s1 = "s\<lparr>ts_queue := q\<rparr>"
    have keeps: "heap_ok q" "has_insert_capacity q" "mh_heap q = mh_heap (ts_queue s)"
      using reserve_for_insert_keeps [OF ok q] by simp_all
    have s1: "state_ok ?s1" "state_timers ?s1 = state_timers s"
      using assms(1) keeps by (simp_all add: state_ok_def heap_keys_def heap_timers_def)
    obtain s' where s': "insert_section (Ready ?s1) d = Some (Inserted k, Ready s')" "state_ok s'"
        "state_timers s' = (state_timers s)(k \<mapsto> d)"
      using room [OF s1(1)] keeps(2) assms(2) s1(2) by auto
    have "insert_section (Ready s) d = Some (Must_grow s, Growing)" using False by (simp add: insert_section_def)
    moreover have "grow_section Growing s = Some (Ready ?s1)"
      using q by (simp add: grow_section_def restore_ready_state_def)
    ultimately show ?thesis using s' by (simp add: numeral_2_eq_2)
  qed
qed

section \<open>Example runs\<close>

text \<open>One caller registers a timer for time 5, another one then starts a drain at time 7.\<close>

lemma example_insert_run:
  "\<exists>s. engine_run engine_init [Silent, Silent, Silent, Insert 1 5] \<lparr>shared = Ready s, callers = \<lambda>_. Idle\<rparr>
     \<and> heap_timers (ts_queue s) = [1 \<mapsto> 5] \<and> ts_mutation s = 1 \<and> state_ok s"
proof -
  let ?s = "\<lparr>ts_next_key = Some 1, ts_mutation = 0, ts_queue = min_heap_new\<rparr>"
  have no: "\<not> has_insert_capacity min_heap_new" by (simp add: has_insert_capacity_def min_heap_new_def)
  obtain q where q: "reserve_for_insert min_heap_new = Some q"
    using reserve_for_insert_returns [OF heap_ok_new] by (auto simp: min_heap_new_def)
  have keeps: "heap_ok q" "has_insert_capacity q" "mh_heap q = []"
    using reserve_for_insert_keeps [OF heap_ok_new q] by (simp_all add: min_heap_new_def)
  have none: "heap_timers q = Map.empty" by (simp add: heap_timers_def keeps(3))
  obtain h where h: "heap_insert q 1 5 = Some h" "heap_ok h" "heap_timers h = [1 \<mapsto> 5]"
    using heap_insert_timers [OF keeps(1,2), of 1 5] none by auto
  let ?s' = "\<lparr>ts_next_key = Some 2, ts_mutation = 1, ts_queue = h\<rparr>"
  have "engine_run engine_init ([] @ [Silent]) \<lparr>shared = Ready ?s, callers = (\<lambda>_. Idle)(0 := Inserting 5)\<rparr>"
    using engine_step.insert_call [of engine_init 0 5]
    by (intro run_snoc [OF run_nil]) (simp add: engine_init_def engine_new_def engine_with_next_key_def)
  then have "engine_run engine_init (([] @ [Silent]) @ [Silent]) \<lparr>shared = Growing, callers = (\<lambda>_. Idle)(0 := Holding 5 ?s)\<rparr>"
    by (rule run_snoc) (use engine_step.insert_grow [of "\<lparr>shared = Ready ?s, callers = (\<lambda>_. Idle)(0 := Inserting 5)\<rparr>" 0 5 ?s Growing] no
      in \<open>simp add: insert_section_def\<close>)
  then have "engine_run engine_init ((([] @ [Silent]) @ [Silent]) @ [Silent])
      \<lparr>shared = Ready (?s\<lparr>ts_queue := q\<rparr>), callers = (\<lambda>_. Idle)(0 := Inserting 5)\<rparr>"
    by (rule run_snoc) (use engine_step.grow [of "\<lparr>shared = Growing, callers = (\<lambda>_. Idle)(0 := Holding 5 ?s)\<rparr>" 0 5 ?s] q
      in \<open>simp add: grow_section_def restore_ready_state_def\<close>)
  then have "engine_run engine_init (((([] @ [Silent]) @ [Silent]) @ [Silent]) @ [Insert 1 5])
      \<lparr>shared = Ready ?s', callers = \<lambda>_. Idle\<rparr>"
    by (rule run_snoc) (use engine_step.insert_done [of "\<lparr>shared = Ready (?s\<lparr>ts_queue := q\<rparr>), callers = (\<lambda>_. Idle)(0 := Inserting 5)\<rparr>" 0 5 1 "Ready ?s'"]
        keeps(2) h(1) in \<open>simp add: insert_section_def bump_mutation_def u64_succ_def fun_upd_idem\<close>)
  moreover have "state_ok ?s'" using h(2,3) by (simp add: state_ok_keys)
  ultimately show ?thesis using h(3) by (intro exI [of _ ?s']) simp
qed

lemma example_drain_run:
  "\<exists>s m n cap. engine_run engine_init [Silent, Silent, Silent, Insert 1 5, Silent, Silent]
       \<lparr>shared = Ready s, callers = (\<lambda>_. Idle)(1 := Draining 7 m n [] cap)\<rparr>
     \<and> ts_mutation s = 1 \<and> m = 1"
proof -
  obtain s where s: "engine_run engine_init [Silent, Silent, Silent, Insert 1 5] \<lparr>shared = Ready s, callers = \<lambda>_. Idle\<rparr>"
      "heap_timers (ts_queue s) = [1 \<mapsto> 5]" "ts_mutation s = 1" "state_ok s"
    using example_insert_run by blast
  let ?n = "due_count (ts_queue s) 7"
  have "due_keys [1 \<mapsto> (5 :: u64)] 7 = [1 :: timer_key]"
  proof -
    have "{(d, k) | d k. [1 \<mapsto> (5 :: u64)] k = Some d \<and> d \<le> 7} = {(5, 1 :: timer_key)}" by auto
    then show ?thesis by (simp add: due_keys_def)
  qed
  then have n: "?n = 1" using due_count_keys [of "ts_queue s" 7] s(2,4) by (simp add: state_ok_def)
  have "engine_run engine_init ([Silent, Silent, Silent, Insert 1 5] @ [Silent])
      \<lparr>shared = Ready s, callers = (\<lambda>_. Idle)(1 := Counting 7 [] 0)\<rparr>"
    using engine_step.drain_call [of "\<lparr>shared = Ready s, callers = \<lambda>_. Idle\<rparr>" 1 "[]" 0 7]
    by (intro run_snoc [OF s(1)]) simp
  then have "engine_run engine_init (([Silent, Silent, Silent, Insert 1 5] @ [Silent]) @ [Silent])
      \<lparr>shared = Ready s, callers = (\<lambda>_. Idle)(1 := Draining 7 1 1 [] 4)\<rparr>"
    by (rule run_snoc) (use engine_step.drain_count [of "\<lparr>shared = Ready s, callers = (\<lambda>_. Idle)(1 := Counting 7 [] 0)\<rparr>" 1 7 "[]" 0 1 1 "Ready s" 4]
      n s(3) in \<open>simp add: with_ready_state_def count_section_def vec_reserve_def checked_add_def
        TIMER_KEY_SIZE_def usize_max_def isize_max_def\<close>)
  then show ?thesis using s(3) by auto
qed

theorem timer_engine_refines_map_witness:
  "\<exists>c s. engine_run engine_init [Silent, Silent, Silent, Insert 1 5] c \<and> owner c s
     \<and> spec_run Map.empty [Silent, Silent, Silent, Insert 1 5] (heap_timers (ts_queue s))"
  using example_insert_run timer_engine_refines_map by blast

theorem timer_keys_never_reused_witness:
  "\<exists>c. engine_run engine_init [Silent, Silent, Silent, Insert 1 5] c
     \<and> sorted_wrt (<) (inserted_keys [Silent, Silent, Silent, Insert 1 5])"
  using example_insert_run timer_keys_never_reused by blast

theorem drain_section_never_panics_witness:
  "\<exists>evs c s m n cap out' s'. engine_run engine_init evs c \<and> callers c 1 = Draining 7 m n [] cap \<and> shared c = Ready s
     \<and> drain_section 7 m n [] cap s = Some ((True, out'), s')"
proof -
  obtain s m n cap where r: "engine_run engine_init [Silent, Silent, Silent, Insert 1 5, Silent, Silent]
       \<lparr>shared = Ready s, callers = (\<lambda>_. Idle)(1 := Draining 7 m n [] cap)\<rparr>" "ts_mutation s = 1" "m = 1"
    using example_drain_run by blast
  then show ?thesis using drain_section_never_panics [OF r(1), of 1 7 m n "[]" cap s] by fastforce
qed

theorem engine_insert_returns_witness:
  "\<exists>s. engine_insert 2 engine_new 5 = Some (1, Ready s) \<and> heap_timers (ts_queue s) = [1 \<mapsto> 5]"
  using engine_insert_returns [OF state_ok_new, of 1 1 5]
  by (auto simp: engine_new_def engine_with_next_key_def min_heap_new_def heap_timers_def)

end
