(* ===== verification/Tx_Step.thy ===== *)
theory Tx_Step
  imports Tx_Prelude
begin

text \<open>
  Vocabulary of the kernel's operations: the error numbers and the outcome of a step
  (\<open>tx-substrate/src/step/mod.rs\<close>), Rust's signed integers, and the ordered map that
  \<open>BTreeMap\<close> is, as a list of bindings in ascending order of the keys.

  The signed types \<open>i16\<close>, \<open>i32\<close> and \<open>i64\<close> are integers. Where an operation can leave the
  range of its type the result is written out: \<open>wrap_i16\<close> and \<open>wrap_i64\<close> for the arithmetic
  that wraps, \<open>sat_i16\<close> for the arithmetic that saturates. The kernel is built in release
  mode without overflow checks, so plain arithmetic wraps as well.
\<close>

section \<open>Error numbers\<close>

datatype (plugins only: size) errno =
      E2BIG | EACCES | EADDRINUSE | EADDRNOTAVAIL | EAFNOSUPPORT | EAGAIN | EALREADY
    | EBADF | EBUSY | ECANCELED | ECONNREFUSED | EDESTADDRREQ | EDQUOT | EEXIST | EFBIG
    | EIDRM | ELIBBAD | EFAULT | EINVAL | EINPROGRESS | EINTR | EIO | EISCONN | EISDIR
    | ELOOP | ENAMETOOLONG | ENODEV | ENOEXEC | EMSGSIZE | ENOMEM | ENOENT | ENOPROTOOPT
    | ENOSYS | ENOTCONN | ENOTDIR | ENOTEMPTY | ENOTTY | ENOTSOCK | EOPNOTSUPP | EPERM
    | EPIPE | EPROTONOSUPPORT | ERANGE | EROFS | ESPIPE | ESRCH | ESTALE | ETIMEDOUT
    | EMLINK | ESOCKTNOSUPPORT

primrec linux_i32 :: "errno \<Rightarrow> int" where
  "linux_i32 E2BIG = 7"
| "linux_i32 EACCES = 13"
| "linux_i32 EADDRINUSE = 98"
| "linux_i32 EADDRNOTAVAIL = 99"
| "linux_i32 EAFNOSUPPORT = 97"
| "linux_i32 EAGAIN = 11"
| "linux_i32 EALREADY = 114"
| "linux_i32 EBADF = 9"
| "linux_i32 EBUSY = 16"
| "linux_i32 ECANCELED = 125"
| "linux_i32 ECONNREFUSED = 111"
| "linux_i32 EDESTADDRREQ = 89"
| "linux_i32 EDQUOT = 122"
| "linux_i32 EEXIST = 17"
| "linux_i32 EFAULT = 14"
| "linux_i32 EFBIG = 27"
| "linux_i32 EIDRM = 43"
| "linux_i32 ELIBBAD = 80"
| "linux_i32 EINVAL = 22"
| "linux_i32 EINPROGRESS = 115"
| "linux_i32 EIO = 5"
| "linux_i32 EISCONN = 106"
| "linux_i32 EISDIR = 21"
| "linux_i32 ELOOP = 40"
| "linux_i32 ENAMETOOLONG = 36"
| "linux_i32 ENODEV = 19"
| "linux_i32 ENOEXEC = 8"
| "linux_i32 EMSGSIZE = 90"
| "linux_i32 ENOMEM = 12"
| "linux_i32 ENOENT = 2"
| "linux_i32 ENOPROTOOPT = 92"
| "linux_i32 ENOSYS = 38"
| "linux_i32 ENOTCONN = 107"
| "linux_i32 ENOTDIR = 20"
| "linux_i32 ENOTEMPTY = 39"
| "linux_i32 ENOTTY = 25"
| "linux_i32 ENOTSOCK = 88"
| "linux_i32 EOPNOTSUPP = 95"
| "linux_i32 EPERM = 1"
| "linux_i32 EPIPE = 32"
| "linux_i32 EPROTONOSUPPORT = 93"
| "linux_i32 ERANGE = 34"
| "linux_i32 EROFS = 30"
| "linux_i32 ESPIPE = 29"
| "linux_i32 ESRCH = 3"
| "linux_i32 ESTALE = 116"
| "linux_i32 ETIMEDOUT = 110"
| "linux_i32 EINTR = 4"
| "linux_i32 EMLINK = 31"
| "linux_i32 ESOCKTNOSUPPORT = 94"

section \<open>Outcome of a step\<close>

text \<open>
  A step is done, fails, or asks its driver to wait on a source for a set of conditions; the
  progress of the steps of this development is empty.
\<close>

datatype yield_shape = On_wait_source (ws_source: u64) (ws_interests: u64)

datatype 'a step_outcome = Continue | Yield yield_shape | Done 'a | Err errno

definition yield_on_wait_source :: "u64 \<Rightarrow> u64 \<Rightarrow> 'a step_outcome" where
  "yield_on_wait_source source_id interest_mask = Yield (On_wait_source source_id interest_mask)"

text \<open>The result of an operation that never waits: \<open>Result<T, Errno>\<close>.\<close>

type_synonym 'a result = "errno + 'a"

abbreviation Ok :: "'a \<Rightarrow> 'a result" where
  "Ok \<equiv> Inr"

abbreviation Error :: "errno \<Rightarrow> 'a result" where
  "Error \<equiv> Inl"

text \<open>The operator \<open>?\<close> of Rust.\<close>

fun and_then :: "'a result \<Rightarrow> ('a \<Rightarrow> 'b result) \<Rightarrow> 'b result" where
  "and_then (Inl e) f = Inl e"
| "and_then (Inr a) f = f a"

lemma and_then_eq_Inr_iff: "and_then r f = Inr b \<longleftrightarrow> (\<exists>a. r = Inr a \<and> f a = Inr b)"
  by (cases r) auto

lemma and_then_eq_Inl_iff:
  "and_then r f = Inl e \<longleftrightarrow> r = Inl e \<or> (\<exists>a. r = Inr a \<and> f a = Inl e)"
  by (cases r) auto

definition ok_or :: "'a option \<Rightarrow> errno \<Rightarrow> 'a result" where
  "ok_or x e = (case x of Some a \<Rightarrow> Inr a | None \<Rightarrow> Inl e)"

lemma ok_or_simps [simp]:
  "ok_or (Some a) e = Inr a"
  "ok_or None e = Inl e"
  by (simp_all add: ok_or_def)

text \<open>The wrappers that cannot wait report a wait as \<open>EAGAIN\<close>.\<close>

fun outcome_result :: "'a step_outcome \<Rightarrow> 'a result" where
  "outcome_result (Done a) = Inr a"
| "outcome_result (Err e) = Inl e"
| "outcome_result (Yield w) = Inl EAGAIN"
| "outcome_result Continue = Inl EIO"

section \<open>Signed integers\<close>

type_synonym i16 = int
type_synonym i32 = int
type_synonym i64 = int

definition wrap_i16 :: "int \<Rightarrow> i16" where
  "wrap_i16 x = signed_take_bit 15 x"

definition wrap_i32 :: "int \<Rightarrow> i32" where
  "wrap_i32 x = signed_take_bit 31 x"

definition wrap_i64 :: "int \<Rightarrow> i64" where
  "wrap_i64 x = signed_take_bit 63 x"

definition sat_i16 :: "int \<Rightarrow> i16" where
  "sat_i16 x = (if x < - 32768 then - 32768 else if 32767 < x then 32767 else x)"

definition i16_range :: "int \<Rightarrow> bool" where
  "i16_range x \<longleftrightarrow> - 32768 \<le> x \<and> x \<le> 32767"

lemma wrap_i16_id [simp]: "i16_range x \<Longrightarrow> wrap_i16 x = x"
  by (simp add: i16_range_def wrap_i16_def signed_take_bit_int_eq_self)

lemma wrap_i16_range [simp]: "i16_range (wrap_i16 x)"
  using signed_take_bit_int_greater_eq_minus_exp [of 15 x] signed_take_bit_int_less_exp [of 15 x]
  by (simp add: i16_range_def wrap_i16_def)

lemma sat_i16_range [simp]: "i16_range (sat_i16 x)"
  by (simp add: i16_range_def sat_i16_def)

lemma sat_i16_id: "i16_range x \<Longrightarrow> sat_i16 x = x"
  by (simp add: i16_range_def sat_i16_def)

text \<open>Wrapping sums can be taken in any grouping.\<close>

lemma wrap_i16_add_left: "wrap_i16 (wrap_i16 x + y) = wrap_i16 (x + y)"
proof -
  have "signed_take_bit 15 (signed_take_bit 15 x + y)
      = signed_take_bit 15 (signed_take_bit 15 (signed_take_bit 15 x) + signed_take_bit 15 y)"
    by (rule signed_take_bit_add [symmetric])
  also have "\<dots> = signed_take_bit 15 (signed_take_bit 15 x + signed_take_bit 15 y)"
    by simp
  also have "\<dots> = signed_take_bit 15 (x + y)"
    by (rule signed_take_bit_add)
  finally show ?thesis
    by (simp add: wrap_i16_def)
qed

section \<open>Ordered maps\<close>

type_synonym ('k, 'v) btree = "('k \<times> 'v) list"

definition bt_ok :: "('k::linorder, 'v) btree \<Rightarrow> bool" where
  "bt_ok m \<longleftrightarrow> sorted_wrt (<) (map fst m)"

abbreviation bt_get :: "('k, 'v) btree \<Rightarrow> 'k \<Rightarrow> 'v option" where
  "bt_get \<equiv> map_of"

fun bt_insert :: "'k::linorder \<Rightarrow> 'v \<Rightarrow> ('k, 'v) btree \<Rightarrow> ('k, 'v) btree" where
  "bt_insert k v [] = [(k, v)]"
| "bt_insert k v ((k', v') # m) =
     (if k < k' then (k, v) # (k', v') # m
      else if k = k' then (k, v) # m
      else (k', v') # bt_insert k v m)"

definition bt_remove :: "'k \<Rightarrow> ('k, 'v) btree \<Rightarrow> ('k, 'v) btree" where
  "bt_remove k m = filter (\<lambda>(k', v). k' \<noteq> k) m"

definition bt_values :: "('k, 'v) btree \<Rightarrow> 'v list" where
  "bt_values m = map snd m"

lemma bt_ok_Nil [simp]: "bt_ok []"
  by (simp add: bt_ok_def)

lemma bt_get_insert [simp]: "bt_get (bt_insert k v m) = (bt_get m)(k \<mapsto> v)"
  by (induction k v m rule: bt_insert.induct) auto

lemma bt_get_remove [simp]: "bt_get (bt_remove k m) = (bt_get m)(k := None)"
  by (induction m) (auto simp: bt_remove_def)

lemma bt_keys_insert: "fst ` set (bt_insert k v m) = insert k (fst ` set m)"
  by (induction k v m rule: bt_insert.induct) auto

lemma bt_ok_insert [simp]: "bt_ok m \<Longrightarrow> bt_ok (bt_insert k v m)"
proof (induction k v m rule: bt_insert.induct)
  case (2 k v k' v' m)
  have keys: "set (map fst (bt_insert k v m)) = insert k (set (map fst m))"
    using bt_keys_insert [of k v m] by simp
  show ?case
    using 2 keys by (auto simp: bt_ok_def)
qed (simp add: bt_ok_def)

lemma bt_ok_remove [simp]: "bt_ok m \<Longrightarrow> bt_ok (bt_remove k m)"
  by (induction m) (auto simp: bt_ok_def bt_remove_def)

lemma bt_ok_distinct: "bt_ok m \<Longrightarrow> distinct (map fst m)"
  using strict_sorted_iff by (auto simp: bt_ok_def)

lemma bt_in_set_iff: "bt_ok m \<Longrightarrow> (k, v) \<in> set m \<longleftrightarrow> bt_get m k = Some v"
  by (simp add: bt_ok_distinct)

lemma bt_remove_absent: "bt_get m k = None \<Longrightarrow> bt_remove k m = m"
  by (induction m) (auto simp: bt_remove_def split: if_splits)

text \<open>The values of a map, counted: inserting a new key adds one, removing one takes it away.\<close>

lemma bt_insert_new_length: "bt_ok m \<Longrightarrow> bt_get m k = None \<Longrightarrow> length (bt_insert k v m) = length m + 1"
  by (induction k v m rule: bt_insert.induct) (auto simp: bt_ok_def split: if_splits)

end
