(* ===== verification/Proc_Lifecycle.thy ===== *)
theory Proc_Lifecycle
  imports Tx_Step
begin

text \<open>
  The lifecycle episode of a process (\<open>tx-subsystems/src/process/structure.rs\<close>): the slot
  \<open>group_exit\<close> of a process payload, through which exec, the exit of the whole group and the exit
  of single threads exclude each other, and the thread roster that an episode freezes.

  Each operation of the payload runs under the lock of the slot and is a function of the state.
  The theory \<open>Exit_Protocol\<close> interleaves them.
\<close>

section \<open>State\<close>

type_synonym tid = u32

datatype exit_status = Exited i32 | Signaled u8

definition wait_status_word :: "exit_status \<Rightarrow> i32" where
  "wait_status_word s =
     (case s of
        Exited code \<Rightarrow> push_bit 8 (code AND 0xff)
      | Signaled sig \<Rightarrow> uint sig AND 0x7f)"

datatype group_exit_owner = GE_Exit | GE_ThreadExit | GE_ExecReserved | GE_ExecCollapsing | GE_ExecAborting

record group_exit_state =
  ge_status :: exit_status
  ge_owner :: group_exit_owner
  ge_generation :: u64
  ge_initiator_tid :: tid
  ge_remaining_threads :: u32
  ge_claimed_thread_exits :: "tid set"

datatype exec_collapse_handoff = Handoff_Completed | Handoff_Aborting | Handoff_Stale

record thread_exit_permit =
  tp_generation :: u64
  tp_owner :: group_exit_owner
  tp_status :: exit_status
  tp_tid :: tid

text \<open>The part of \<open>ProcessPayload\<close> that the episode governs.\<close>

record lifecycle =
  lc_group_exit :: "group_exit_state option"
  lc_next_generation :: u64
  lc_threads :: "tid list"
  lc_thread_count :: u32

definition permit_thread_status :: "thread_exit_permit \<Rightarrow> i32 \<Rightarrow> i32" where
  "permit_thread_status permit requested_status =
     (if tp_owner permit = GE_ThreadExit then requested_status
      else wait_status_word (tp_status permit))"

section \<open>Thread roster\<close>

definition threads_attach :: "tid list \<Rightarrow> tid \<Rightarrow> tid list" where
  "threads_attach ts t = ts @ [t]"

text \<open>\<open>detach\<close> removes the first entry with this number and says whether there was one.\<close>

definition threads_detach :: "tid list \<Rightarrow> tid \<Rightarrow> bool \<times> tid list" where
  "threads_detach ts t = (t \<in> set ts, remove1 t ts)"

text \<open>\<open>checked_sub(1)\<close> inside \<open>fetch_update\<close>.\<close>

definition u32_pred :: "u32 \<Rightarrow> u32 option" where
  "u32_pred w = (if w = 0 then None else Some (w - 1))"

section \<open>Exec\<close>

definition reserve_exec_lifecycle :: "lifecycle \<Rightarrow> tid \<Rightarrow> u64 option \<times> lifecycle" where
  "reserve_exec_lifecycle l initiator_tid =
     (if lc_group_exit l \<noteq> None then (None, l)
      else
        let generation = lc_next_generation l + 1
        in (Some generation,
            l\<lparr>lc_group_exit := Some
                \<lparr>ge_status = Exited 0, ge_owner = GE_ExecReserved, ge_generation = generation,
                 ge_initiator_tid = initiator_tid, ge_remaining_threads = 0,
                 ge_claimed_thread_exits = {}\<rparr>,
              lc_next_generation := generation\<rparr>))"

definition attach_thread_if_lifecycle_idle :: "lifecycle \<Rightarrow> tid \<Rightarrow> bool \<times> lifecycle" where
  "attach_thread_if_lifecycle_idle l t =
     (case lc_group_exit l of
        Some current \<Rightarrow>
          if ge_owner current \<noteq> GE_ThreadExit then (False, l)
          else (True, l\<lparr>lc_threads := threads_attach (lc_threads l) t,
                         lc_thread_count := lc_thread_count l + 1\<rparr>)
      | None \<Rightarrow> (True, l\<lparr>lc_threads := threads_attach (lc_threads l) t,
                         lc_thread_count := lc_thread_count l + 1\<rparr>))"

definition exec_lifecycle_matches :: "lifecycle \<Rightarrow> u64 \<Rightarrow> bool" where
  "exec_lifecycle_matches l generation =
     (case lc_group_exit l of
        None \<Rightarrow> False
      | Some episode \<Rightarrow>
          ge_generation episode = generation \<and>
          (ge_owner episode = GE_ExecReserved \<or> ge_owner episode = GE_ExecCollapsing))"

definition begin_exec_collapse :: "lifecycle \<Rightarrow> u64 \<Rightarrow> u32 \<Rightarrow> bool \<times> lifecycle" where
  "begin_exec_collapse l generation remaining_threads =
     (case lc_group_exit l of
        None \<Rightarrow> (False, l)
      | Some current \<Rightarrow>
          if ge_generation current \<noteq> generation \<or> ge_owner current \<noteq> GE_ExecReserved
          then (False, l)
          else (True, l\<lparr>lc_group_exit := Some (current
                          \<lparr>ge_owner := GE_ExecCollapsing,
                           ge_remaining_threads := remaining_threads,
                           ge_claimed_thread_exits := {}\<rparr>)\<rparr>))"

definition finish_exec_collapse :: "lifecycle \<Rightarrow> u64 \<Rightarrow> bool \<times> lifecycle" where
  "finish_exec_collapse l generation =
     (case lc_group_exit l of
        None \<Rightarrow> (False, l)
      | Some current \<Rightarrow>
          if ge_generation current \<noteq> generation \<or> ge_owner current \<noteq> GE_ExecCollapsing
             \<or> ge_remaining_threads current \<noteq> 0
          then (False, l)
          else (True, l\<lparr>lc_group_exit := Some (current\<lparr>ge_owner := GE_ExecReserved\<rparr>)\<rparr>))"

definition handoff_exec_collapse_abort :: "lifecycle \<Rightarrow> u64 \<Rightarrow> exec_collapse_handoff \<times> lifecycle" where
  "handoff_exec_collapse_abort l generation =
     (case lc_group_exit l of
        None \<Rightarrow> (Handoff_Stale, l)
      | Some current \<Rightarrow>
          if ge_generation current \<noteq> generation \<or> ge_owner current \<noteq> GE_ExecCollapsing
          then (Handoff_Stale, l)
          else if ge_remaining_threads current = 0
          then (Handoff_Completed,
                l\<lparr>lc_group_exit := Some (current\<lparr>ge_owner := GE_ExecReserved\<rparr>)\<rparr>)
          else (Handoff_Aborting,
                l\<lparr>lc_group_exit := Some (current\<lparr>ge_owner := GE_ExecAborting\<rparr>)\<rparr>))"

definition release_exec_lifecycle :: "lifecycle \<Rightarrow> u64 \<Rightarrow> bool \<times> lifecycle" where
  "release_exec_lifecycle l generation =
     (if exec_lifecycle_matches l generation
      then (True, l\<lparr>lc_group_exit := None\<rparr>)
      else (False, l))"

section \<open>Exit\<close>

definition reserve_group_exit :: "lifecycle \<Rightarrow> exit_status \<Rightarrow> bool \<times> lifecycle" where
  "reserve_group_exit l status =
     (if lc_group_exit l \<noteq> None then (False, l)
      else (True,
            l\<lparr>lc_group_exit := Some
                \<lparr>ge_status = status, ge_owner = GE_Exit, ge_generation = 0, ge_initiator_tid = 0,
                 ge_remaining_threads = lc_thread_count l, ge_claimed_thread_exits = {}\<rparr>\<rparr>))"

text \<open>Inserting a claim fails when the thread has one already.\<close>

definition claim_thread_exit :: "lifecycle \<Rightarrow> group_exit_state \<Rightarrow> tid \<Rightarrow> thread_exit_permit option \<times> lifecycle" where
  "claim_thread_exit l current t =
     (if t \<in> ge_claimed_thread_exits current then (None, l)
      else (Some \<lparr>tp_generation = ge_generation current, tp_owner = ge_owner current,
                  tp_status = ge_status current, tp_tid = t\<rparr>,
            l\<lparr>lc_group_exit := Some (current
                \<lparr>ge_claimed_thread_exits := insert t (ge_claimed_thread_exits current)\<rparr>)\<rparr>))"

definition prepare_thread_exit ::
    "lifecycle \<Rightarrow> tid \<Rightarrow> exit_status \<Rightarrow> thread_exit_permit option \<times> lifecycle" where
  "prepare_thread_exit l t requested_status =
     (case lc_group_exit l of
        Some current \<Rightarrow>
          (case ge_owner current of
             GE_ExecReserved \<Rightarrow> (None, l)
           | GE_ExecCollapsing \<Rightarrow>
               if ge_initiator_tid current = t then (None, l) else claim_thread_exit l current t
           | GE_Exit \<Rightarrow> claim_thread_exit l current t
           | _ \<Rightarrow> (None, l))
      | None \<Rightarrow>
          let generation = lc_next_generation l + 1
          in (Some \<lparr>tp_generation = generation, tp_owner = GE_ThreadExit,
                    tp_status = requested_status, tp_tid = t\<rparr>,
              l\<lparr>lc_group_exit := Some
                  \<lparr>ge_status = Exited 0, ge_owner = GE_ThreadExit, ge_generation = generation,
                   ge_initiator_tid = t, ge_remaining_threads = 0, ge_claimed_thread_exits = {}\<rparr>,
                lc_next_generation := generation\<rparr>))"

definition owner_matches :: "group_exit_state \<Rightarrow> thread_exit_permit \<Rightarrow> bool" where
  "owner_matches current permit \<longleftrightarrow>
     ge_owner current = tp_owner permit \<or>
     (tp_owner permit = GE_ExecCollapsing \<and> ge_owner current = GE_ExecAborting)"

definition finish_thread_exit :: "lifecycle \<Rightarrow> thread_exit_permit \<Rightarrow> bool \<Rightarrow> bool \<times> lifecycle" where
  "finish_thread_exit l permit was_last =
     (case lc_group_exit l of
        None \<Rightarrow> (False, l)
      | Some current \<Rightarrow>
          if ge_generation current \<noteq> tp_generation permit \<or> \<not> owner_matches current permit
          then (False, l)
          else
            let claimed = ge_claimed_thread_exits current;
                unclaimed = current\<lparr>ge_claimed_thread_exits := claimed - {tp_tid permit}\<rparr>
            in (case tp_owner permit of
                  GE_ThreadExit \<Rightarrow>
                    if was_last
                    then (True, l\<lparr>lc_group_exit := Some (current\<lparr>ge_status := tp_status permit,
                                     ge_owner := GE_Exit, ge_remaining_threads := 0\<rparr>)\<rparr>)
                    else (True, l\<lparr>lc_group_exit := None\<rparr>)
                | GE_ExecCollapsing \<Rightarrow>
                    if tp_tid permit \<notin> claimed then (False, l)
                    else (case u32_pred (ge_remaining_threads current) of
                            None \<Rightarrow> (False, l\<lparr>lc_group_exit := Some unclaimed\<rparr>)
                          | Some remaining \<Rightarrow>
                              if ge_owner current = GE_ExecAborting \<and> remaining = 0
                              then (True, l\<lparr>lc_group_exit := None\<rparr>)
                              else (True, l\<lparr>lc_group_exit :=
                                      Some (unclaimed\<lparr>ge_remaining_threads := remaining\<rparr>)\<rparr>))
                | GE_Exit \<Rightarrow>
                    if tp_tid permit \<notin> claimed then (False, l)
                    else (case u32_pred (ge_remaining_threads current) of
                            None \<Rightarrow> (False, l\<lparr>lc_group_exit := Some unclaimed\<rparr>)
                          | Some remaining \<Rightarrow>
                              (True, l\<lparr>lc_group_exit :=
                                 Some (unclaimed\<lparr>ge_remaining_threads := remaining\<rparr>)\<rparr>))
                | _ \<Rightarrow> (False, l)))"

definition abort_thread_exit :: "lifecycle \<Rightarrow> tid \<Rightarrow> thread_exit_permit \<Rightarrow> bool \<times> lifecycle" where
  "abort_thread_exit l t permit =
     (if tp_tid permit \<noteq> t then (False, l)
      else
        (case lc_group_exit l of
           None \<Rightarrow> (False, l)
         | Some current \<Rightarrow>
             if ge_generation current \<noteq> tp_generation permit \<or> \<not> owner_matches current permit
             then (False, l)
             else
               (case tp_owner permit of
                  GE_ThreadExit \<Rightarrow>
                    if ge_initiator_tid current \<noteq> t then (False, l)
                    else (True, l\<lparr>lc_group_exit := None\<rparr>)
                | GE_Exit \<Rightarrow>
                    if t \<notin> ge_claimed_thread_exits current then (False, l)
                    else (True, l\<lparr>lc_group_exit := Some (current
                            \<lparr>ge_claimed_thread_exits := ge_claimed_thread_exits current - {t}\<rparr>)\<rparr>)
                | GE_ExecCollapsing \<Rightarrow>
                    if t \<notin> ge_claimed_thread_exits current then (False, l)
                    else (case u32_pred (ge_remaining_threads current) of
                            None \<Rightarrow> (False, l)
                          | Some remaining \<Rightarrow>
                              if ge_owner current = GE_ExecAborting \<and> remaining = 0
                              then (True, l\<lparr>lc_group_exit := None\<rparr>)
                              else (True, l\<lparr>lc_group_exit :=
                                      Some (current\<lparr>ge_remaining_threads := remaining\<rparr>)\<rparr>))
                | _ \<Rightarrow> (False, l))))"

end
