(* ===== verification/Exit_Protocol.thy ===== *)
theory Exit_Protocol
  imports Proc_Lifecycle "HOL-Library.Multiset"
begin

text \<open>
  Thread exit, group exit and exec of one process, interleaved: the operations of
  \<open>Proc_Lifecycle\<close> as \<open>thread_runtime/execution.rs\<close>, \<open>process/execution.rs\<close> and
  \<open>process/exec_prep.rs\<close> call them. Every access to a shared location is a step of its own, so a
  run is any interleaving of any number of exit operations, of exec and of thread creation.

  An exit operation first tests whether its thread is a zombie and then claims a permit, in two
  steps. The first argument of the step relation says whether another operation may turn the
  thread into a zombie between the two (the code allows it).
\<close>

section \<open>State\<close>

datatype op_phase =
    Op_Checked
  | Op_Prepared thread_exit_permit
  | Op_Zombified thread_exit_permit
  | Op_Detached thread_exit_permit bool
  | Op_Counted thread_exit_permit bool

text \<open>\<open>ProcessExecPrep\<close>: while threads are collapsed, the siblings still to be tried.\<close>

record exec_prep =
  ep_generation :: u64
  ep_initiator :: tid
  ep_todo :: "tid list option"

record exit_sys =
  es_life :: lifecycle
  es_zombies :: "tid set"
  es_ops :: "(tid \<times> op_phase) multiset"
  es_exec :: "exec_prep option"
  es_last :: nat

definition exit_init :: "tid \<Rightarrow> exit_sys" where
  "exit_init leader =
     \<lparr>es_life = \<lparr>lc_group_exit = None, lc_next_generation = 0, lc_threads = [leader], lc_thread_count = 1\<rparr>,
      es_zombies = {}, es_ops = {#}, es_exec = None, es_last = 0\<rparr>"

section \<open>Steps\<close>

text \<open>\<open>count_exit\<close>: the counter of threads is decremented when the roster held the thread.\<close>

definition count_exit :: "lifecycle \<Rightarrow> bool \<Rightarrow> bool \<times> lifecycle" where
  "count_exit l removed =
     (if removed
      then (case u32_pred (lc_thread_count l) of
              None \<Rightarrow> (False, l)
            | Some new_count \<Rightarrow> (new_count = 0, l\<lparr>lc_thread_count := new_count\<rparr>))
      else (False, l))"

definition claimed_exits :: "lifecycle \<Rightarrow> tid set" where
  "claimed_exits l = (case lc_group_exit l of None \<Rightarrow> {} | Some e \<Rightarrow> ge_claimed_thread_exits e)"

inductive exit_step :: "bool \<Rightarrow> exit_sys \<Rightarrow> exit_sys \<Rightarrow> bool" for racy where
  attach:
    "\<lbrakk>creator \<in> set (lc_threads (es_life s)); creator \<notin> es_zombies s;
      t \<notin> set (lc_threads (es_life s)); t \<notin> es_zombies s; t \<noteq> 0;
      attach_thread_if_lifecycle_idle (es_life s) t = (r, l)\<rbrakk>
     \<Longrightarrow> exit_step racy s (s\<lparr>es_life := l\<rparr>)"
| check:
    "\<lbrakk>t \<in> set (lc_threads (es_life s)); t \<notin> es_zombies s\<rbrakk>
     \<Longrightarrow> exit_step racy s (s\<lparr>es_ops := add_mset (t, Op_Checked) (es_ops s)\<rparr>)"
| prepare:
    "\<lbrakk>es_ops s = add_mset (t, Op_Checked) rest;
      prepare_thread_exit (es_life s) t status = (permit, l)\<rbrakk>
     \<Longrightarrow> exit_step racy s (s\<lparr>es_life := l,
           es_ops := (case permit of None \<Rightarrow> rest | Some p \<Rightarrow> add_mset (t, Op_Prepared p) rest)\<rparr>)"
| abort:
    "\<lbrakk>es_ops s = add_mset (t, Op_Prepared p) rest;
      abort_thread_exit (es_life s) t p = (r, l)\<rbrakk>
     \<Longrightarrow> exit_step racy s (s\<lparr>es_life := l, es_ops := rest\<rparr>)"
| zombify:
    "\<lbrakk>es_ops s = add_mset (t, Op_Prepared p) rest;
      racy \<or> (t, Op_Checked) \<notin># rest\<rbrakk>
     \<Longrightarrow> exit_step racy s (s\<lparr>es_zombies := insert t (es_zombies s),
           es_ops := add_mset (t, Op_Zombified p) rest\<rparr>)"
| detach:
    "\<lbrakk>es_ops s = add_mset (t, Op_Zombified p) rest;
      threads_detach (lc_threads (es_life s)) t = (removed, ts)\<rbrakk>
     \<Longrightarrow> exit_step racy s (s\<lparr>es_life := (es_life s)\<lparr>lc_threads := ts\<rparr>,
           es_ops := add_mset (t, Op_Detached p removed) rest\<rparr>)"
| count:
    "\<lbrakk>es_ops s = add_mset (t, Op_Detached p removed) rest;
      count_exit (es_life s) removed = (was_last, l)\<rbrakk>
     \<Longrightarrow> exit_step racy s (s\<lparr>es_life := l,
           es_ops := add_mset (t, Op_Counted p was_last) rest,
           es_last := es_last s + of_bool was_last\<rparr>)"
| finish:
    "\<lbrakk>es_ops s = add_mset (t, Op_Counted p was_last) rest;
      finish_thread_exit (es_life s) p was_last = (r, l)\<rbrakk>
     \<Longrightarrow> exit_step racy s (s\<lparr>es_life := l, es_ops := rest\<rparr>)"
| group_exit:
    "\<lbrakk>reserve_group_exit (es_life s) status = (r, l)\<rbrakk>
     \<Longrightarrow> exit_step racy s (s\<lparr>es_life := l\<rparr>)"
| exec_begin:
    "\<lbrakk>t \<in> set (lc_threads (es_life s)); t \<notin> es_zombies s;
      reserve_exec_lifecycle (es_life s) t = (Some g, l)\<rbrakk>
     \<Longrightarrow> exit_step racy s (s\<lparr>es_life := l,
           es_exec := Some \<lparr>ep_generation = g, ep_initiator = t, ep_todo = None\<rparr>\<rparr>)"
| collapse_begin:
    "\<lbrakk>es_exec s = Some ep; ep_todo ep = None;
      siblings = filter (\<lambda>x. x \<noteq> ep_initiator ep) (lc_threads (es_life s));
      begin_exec_collapse (es_life s) (ep_generation ep) (of_nat (length siblings)) = (True, l)\<rbrakk>
     \<Longrightarrow> exit_step racy s (s\<lparr>es_life := l, es_exec := Some (ep\<lparr>ep_todo := Some siblings\<rparr>)\<rparr>)"
| collapse_next:
    "\<lbrakk>es_exec s = Some ep; ep_todo ep = Some (x # todo);
      x \<in> es_zombies s \<or> x \<in> claimed_exits (es_life s)\<rbrakk>
     \<Longrightarrow> exit_step racy s (s\<lparr>es_exec := Some (ep\<lparr>ep_todo := Some todo\<rparr>)\<rparr>)"
| collapse_finish:
    "\<lbrakk>es_exec s = Some ep; ep_todo ep = Some [];
      finish_exec_collapse (es_life s) (ep_generation ep) = (True, l)\<rbrakk>
     \<Longrightarrow> exit_step racy s (s\<lparr>es_life := l, es_exec := Some (ep\<lparr>ep_todo := None\<rparr>)\<rparr>)"
| collapse_handoff:
    "\<lbrakk>es_exec s = Some ep; ep_todo ep = Some [];
      handoff_exec_collapse_abort (es_life s) (ep_generation ep) = (h, l)\<rbrakk>
     \<Longrightarrow> exit_step racy s (s\<lparr>es_life := l,
           es_exec := (if h = Handoff_Aborting then None else Some (ep\<lparr>ep_todo := None\<rparr>))\<rparr>)"
| exec_release:
    "\<lbrakk>es_exec s = Some ep; ep_todo ep = None;
      release_exec_lifecycle (es_life s) (ep_generation ep) = (r, l)\<rbrakk>
     \<Longrightarrow> exit_step racy s (s\<lparr>es_life := l, es_exec := None\<rparr>)"

definition exit_reachable :: "bool \<Rightarrow> exit_sys \<Rightarrow> bool" where
  "exit_reachable racy s \<longleftrightarrow> (\<exists>leader. leader \<noteq> 0 \<and> (exit_step racy)\<^sup>*\<^sup>* (exit_init leader) s)"

section \<open>Counting the threads\<close>

text \<open>
  The threads that the counter stands for: those of the roster, and those that left it and are
  not yet subtracted. In every interleaving the counter is their number.
\<close>

fun op_uncounted :: "tid \<times> op_phase \<Rightarrow> bool" where
  "op_uncounted (t, Op_Detached p removed) = removed"
| "op_uncounted (t, _) = False"

fun op_zombie :: "op_phase \<Rightarrow> bool" where
  "op_zombie (Op_Zombified p) = True"
| "op_zombie (Op_Detached p removed) = True"
| "op_zombie (Op_Counted p was_last) = True"
| "op_zombie _ = False"

definition uncounted :: "exit_sys \<Rightarrow> tid multiset" where
  "uncounted s = image_mset fst (filter_mset op_uncounted (es_ops s))"

definition counted_threads :: "exit_sys \<Rightarrow> tid multiset" where
  "counted_threads s = mset (lc_threads (es_life s)) + uncounted s"

definition roster_ok :: "exit_sys \<Rightarrow> bool" where
  "roster_ok s \<longleftrightarrow>
     (\<forall>t. count (counted_threads s) t \<le> 1) \<and> 0 \<notin># counted_threads s \<and>
     lc_thread_count (es_life s) = of_nat (size (counted_threads s)) \<and>
     (\<forall>t ph. (t, ph) \<in># es_ops s \<longrightarrow> op_zombie ph \<longrightarrow> t \<in> es_zombies s) \<and>
     es_last s \<le> 1 \<and> (es_last s = 1 \<longrightarrow> counted_threads s = {#})"


lemma prepare_thread_exit_roster:
  "prepare_thread_exit l t st = (r, l') \<Longrightarrow> lc_threads l' = lc_threads l \<and> lc_thread_count l' = lc_thread_count l"
  by (auto simp: prepare_thread_exit_def claim_thread_exit_def Let_def
           split: option.splits group_exit_owner.splits if_splits)

lemma abort_thread_exit_roster:
  "abort_thread_exit l t p = (r, l') \<Longrightarrow> lc_threads l' = lc_threads l \<and> lc_thread_count l' = lc_thread_count l"
  by (auto simp: abort_thread_exit_def split: option.splits group_exit_owner.splits if_splits)

lemma finish_thread_exit_roster:
  "finish_thread_exit l p w = (r, l') \<Longrightarrow> lc_threads l' = lc_threads l \<and> lc_thread_count l' = lc_thread_count l"
  by (auto simp: finish_thread_exit_def Let_def split: option.splits group_exit_owner.splits if_splits)

lemma exec_roster:
  "reserve_exec_lifecycle l t = (g, l') \<Longrightarrow> lc_threads l' = lc_threads l \<and> lc_thread_count l' = lc_thread_count l"
  "begin_exec_collapse l gen n = (b, l') \<Longrightarrow> lc_threads l' = lc_threads l \<and> lc_thread_count l' = lc_thread_count l"
  "finish_exec_collapse l gen = (b, l') \<Longrightarrow> lc_threads l' = lc_threads l \<and> lc_thread_count l' = lc_thread_count l"
  "handoff_exec_collapse_abort l gen = (h, l') \<Longrightarrow> lc_threads l' = lc_threads l \<and> lc_thread_count l' = lc_thread_count l"
  "release_exec_lifecycle l gen = (b, l') \<Longrightarrow> lc_threads l' = lc_threads l \<and> lc_thread_count l' = lc_thread_count l"
  "reserve_group_exit l st = (b, l') \<Longrightarrow> lc_threads l' = lc_threads l \<and> lc_thread_count l' = lc_thread_count l"
  by (auto simp: reserve_exec_lifecycle_def begin_exec_collapse_def finish_exec_collapse_def
        handoff_exec_collapse_abort_def release_exec_lifecycle_def reserve_group_exit_def Let_def
      split: option.splits if_splits)

lemmas roster_frame = prepare_thread_exit_roster abort_thread_exit_roster finish_thread_exit_roster exec_roster

text \<open>Thread numbers are 32-bit and not zero, so the counter never overflows.\<close>

lemma distinct_threads_bound:
  fixes W :: "u32 multiset"
  assumes "\<forall>t. count W t \<le> 1" "0 \<notin># W"
  shows "size W < 2 ^ 32"
proof -
  have "W = mset_set (set_mset W)"
    using assms(1) by (intro multiset_eqI) (auto simp: count_mset_set' le_Suc_eq count_eq_zero_iff)
  then have "size W = card (set_mset W)"
    by (metis size_mset_set)
  also have "\<dots> < card (UNIV :: u32 set)"
    using assms(2) by (intro psubset_card_mono) auto
  finally show ?thesis
    by (simp add: card_word)
qed

lemma roster_ok_init: "leader \<noteq> 0 \<Longrightarrow> roster_ok (exit_init leader)"
  by (simp add: roster_ok_def exit_init_def counted_threads_def uncounted_def)

lemma counted_threads_frame:
  "\<lbrakk>lc_threads (es_life s') = lc_threads (es_life s); uncounted s' = uncounted s\<rbrakk>
   \<Longrightarrow> counted_threads s' = counted_threads s"
  by (simp add: counted_threads_def)

text \<open>A step that leaves the roster, the counter and the uncounted threads alone.\<close>

lemma roster_ok_frame:
  assumes "roster_ok s"
    and "lc_threads (es_life s') = lc_threads (es_life s)"
    and "lc_thread_count (es_life s') = lc_thread_count (es_life s)"
    and "uncounted s' = uncounted s"
    and "\<And>t ph. (t, ph) \<in># es_ops s' \<Longrightarrow> op_zombie ph \<Longrightarrow> t \<in> es_zombies s'"
    and "es_last s' = es_last s"
  shows "roster_ok s'"
  using assms counted_threads_frame [OF assms(2, 4)] by (simp add: roster_ok_def)

lemma roster_ok_zombies: "\<lbrakk>roster_ok s; (t, ph) \<in># es_ops s; op_zombie ph\<rbrakk> \<Longrightarrow> t \<in> es_zombies s"
  unfolding roster_ok_def by blast

lemma uncounted_zombies:
  assumes "roster_ok s" "t \<in># uncounted s"
  shows "t \<in> es_zombies s"
proof -
  obtain ph where "(t, ph) \<in># es_ops s" "op_uncounted (t, ph)"
    using assms(2) by (auto simp: uncounted_def)
  then show ?thesis
    using assms(1) by (cases ph) (auto dest: roster_ok_zombies)
qed

lemma roster_ok_attach:
  assumes ok: "roster_ok s" and creator: "creator \<in> set (lc_threads (es_life s))"
    and fresh: "t \<notin> set (lc_threads (es_life s))" "t \<notin> es_zombies s" "t \<noteq> 0"
    and step: "attach_thread_if_lifecycle_idle (es_life s) t = (r, l)"
  shows "roster_ok (s\<lparr>es_life := l\<rparr>)"
proof (cases r)
  case False
  then have "l = es_life s"
    using step by (auto simp: attach_thread_if_lifecycle_idle_def split: option.splits if_splits)
  then show ?thesis using ok by simp
next
  case True
  then have l: "lc_threads l = lc_threads (es_life s) @ [t]"
    "lc_thread_count l = lc_thread_count (es_life s) + 1"
    using step by (auto simp: attach_thread_if_lifecycle_idle_def threads_attach_def
        split: option.splits if_splits)
  have threads: "counted_threads (s\<lparr>es_life := l\<rparr>) = add_mset t (counted_threads s)"
    by (simp add: counted_threads_def uncounted_def l)
  have "t \<notin># uncounted s" using uncounted_zombies [OF ok] fresh(2) by blast
  then have "t \<notin># counted_threads s" using fresh(1) by (simp add: counted_threads_def)
  moreover have "counted_threads s \<noteq> {#}" using creator by (auto simp: counted_threads_def)
  ultimately show ?thesis
    using ok fresh(3) by (auto simp: roster_ok_def threads l count_eq_zero_iff)
qed

lemma roster_ok_detach:
  assumes ok: "roster_ok s" and ops: "es_ops s = add_mset (t, Op_Zombified p) rest"
    and step: "threads_detach (lc_threads (es_life s)) t = (removed, ts)"
  shows "roster_ok (s\<lparr>es_life := (es_life s)\<lparr>lc_threads := ts\<rparr>,
           es_ops := add_mset (t, Op_Detached p removed) rest\<rparr>)"
proof -
  have "counted_threads (s\<lparr>es_life := (es_life s)\<lparr>lc_threads := ts\<rparr>,
          es_ops := add_mset (t, Op_Detached p removed) rest\<rparr>) = counted_threads s"
    using step by (auto simp: counted_threads_def uncounted_def ops threads_detach_def)
  then show ?thesis
    using ok by (auto simp: roster_ok_def ops)
qed

lemma roster_ok_count:
  assumes ok: "roster_ok s" and ops: "es_ops s = add_mset (t, Op_Detached p removed) rest"
    and step: "count_exit (es_life s) removed = (was_last, l)"
  shows "roster_ok (s\<lparr>es_life := l, es_ops := add_mset (t, Op_Counted p was_last) rest,
           es_last := es_last s + of_bool was_last\<rparr>)"
    (is "roster_ok ?s'")
proof (cases removed)
  case False
  then have "was_last = False" "l = es_life s"
    using step by (auto simp: count_exit_def)
  then show ?thesis
    using False roster_ok_zombies [OF ok]
    by (intro roster_ok_frame [OF ok]) (fastforce simp: uncounted_def ops)+
next
  case True
  define W where "W = counted_threads ?s'"
  have W: "counted_threads s = add_mset t W" and threads: "lc_threads l = lc_threads (es_life s)"
    using step True by (auto simp: W_def counted_threads_def uncounted_def ops count_exit_def
        split: option.splits)
  have bound: "size (counted_threads s) < 2 ^ 32"
    using ok distinct_threads_bound unfolding roster_ok_def by blast
  have number: "lc_thread_count (es_life s) = of_nat (size W + 1)"
    using ok by (simp add: roster_ok_def W)
  have fits: "size W + 1 < 2 ^ 32" using bound by (simp add: W)
  then have nonzero: "lc_thread_count (es_life s) \<noteq> 0"
    unfolding number by (subst of_nat_u32_0_iff) simp_all
  then have l: "lc_thread_count l = of_nat (size W)" "was_last = (of_nat (size W) = (0 :: u32))"
    using step True number by (auto simp: count_exit_def u32_pred_def)
  have "of_nat (size W) = (0 :: u32) \<longleftrightarrow> size W = 0"
    using fits by (intro of_nat_u32_0_iff) simp
  then have last: "was_last \<longleftrightarrow> W = {#}" using l(2) by simp
  have "count W x \<le> count (counted_threads s) x" for x by (simp add: W)
  then have single: "\<forall>x. count W x \<le> 1"
    using ok le_trans unfolding roster_ok_def by blast
  have old: "es_last s = 0" using ok by (auto simp: roster_ok_def W le_Suc_eq)
  show ?thesis
    unfolding roster_ok_def W_def [symmetric]
    using ok W last old l(1) single by (auto simp: roster_ok_def ops split: if_splits)
qed

lemma roster_ok_step:
  assumes ok: "roster_ok s" and step: "exit_step racy s s'"
  shows "roster_ok s'"
  using step
proof cases
  case (attach creator t r l)
  then show ?thesis using roster_ok_attach [OF ok] by simp
next
  case (detach t p rest removed ts)
  then show ?thesis using roster_ok_detach [OF ok] by simp
next
  case (count t p removed rest was_last l)
  then show ?thesis using roster_ok_count [OF ok] by simp
next
  case (check t)
  then show ?thesis
    using roster_ok_zombies [OF ok]
    by (intro roster_ok_frame [OF ok]) (auto simp: uncounted_def)
next
  case (prepare t rest status permit l)
  then show ?thesis
    using roster_ok_zombies [OF ok] roster_frame(1)
    by (intro roster_ok_frame [OF ok]) (auto simp: uncounted_def split: option.splits)
next
  case (abort t p rest r l)
  then show ?thesis
    using roster_ok_zombies [OF ok] roster_frame(2)
    by (intro roster_ok_frame [OF ok]) (auto simp: uncounted_def)
next
  case (zombify t p rest)
  then show ?thesis
    using roster_ok_zombies [OF ok]
    by (intro roster_ok_frame [OF ok]) (auto simp: uncounted_def)
next
  case (finish t p was_last rest r l)
  then show ?thesis
    using roster_ok_zombies [OF ok] roster_frame(3)
    by (intro roster_ok_frame [OF ok]) (auto simp: uncounted_def)
qed (intro roster_ok_frame [OF ok]; use roster_ok_zombies [OF ok] in
      \<open>auto simp: uncounted_def dest: roster_frame\<close>)+

lemma roster_ok_reachable:
  assumes "exit_reachable racy s"
  shows "roster_ok s"
proof -
  obtain leader where "leader \<noteq> 0" "(exit_step racy)\<^sup>*\<^sup>* (exit_init leader) s"
    using assms by (auto simp: exit_reachable_def)
  from this(2) show ?thesis
    by (induction rule: rtranclp_induct)
       (auto intro: roster_ok_step roster_ok_init simp: \<open>leader \<noteq> 0\<close>)
qed

end
