(* ===== verification/Exit_Permits.thy ===== *)
theory Exit_Permits
  imports Exit_Protocol
begin

text \<open>
  What an exit permit is worth: the invariant that ties the permits held by exit operations to
  the episode of the process. It holds in every run in which no thread becomes a zombie between
  the zombie test and the claim of another operation on it.
\<close>

section \<open>Invariant\<close>

fun op_permit :: "op_phase \<Rightarrow> thread_exit_permit option" where
  "op_permit Op_Checked = None"
| "op_permit (Op_Prepared p) = Some p"
| "op_permit (Op_Zombified p) = Some p"
| "op_permit (Op_Detached p removed) = Some p"
| "op_permit (Op_Counted p was_last) = Some p"

definition held :: "(tid \<times> op_phase) multiset \<Rightarrow> tid multiset" where
  "held ops = image_mset fst (filter_mset (\<lambda>(t, ph). op_permit ph \<noteq> None) ops)"



text \<open>A permit that \<open>finish_thread_exit\<close> and \<open>abort_thread_exit\<close> accept.\<close>

definition permit_valid :: "lifecycle \<Rightarrow> tid \<Rightarrow> thread_exit_permit \<Rightarrow> bool" where
  "permit_valid l t p \<longleftrightarrow>
     (case lc_group_exit l of
        None \<Rightarrow> False
      | Some e \<Rightarrow>
          tp_tid p = t \<and> ge_generation e = tp_generation p \<and> owner_matches e p \<and>
          (case tp_owner p of
             GE_ThreadExit \<Rightarrow> t = ge_initiator_tid e
           | GE_Exit \<Rightarrow> t \<in> ge_claimed_thread_exits e
           | GE_ExecCollapsing \<Rightarrow> t \<in> ge_claimed_thread_exits e \<and> t \<noteq> ge_initiator_tid e
           | _ \<Rightarrow> False))"

definition permits_ok :: "lifecycle \<Rightarrow> (tid \<times> op_phase) multiset \<Rightarrow> bool" where
  "permits_ok l ops \<longleftrightarrow>
     (\<forall>t ph p. (t, ph) \<in># ops \<longrightarrow> op_permit ph = Some p \<longrightarrow> permit_valid l t p)"




definition exec_ok :: "exit_sys \<Rightarrow> bool" where
  "exec_ok s \<longleftrightarrow>
     (case es_exec s of
        None \<Rightarrow> \<forall>e. lc_group_exit (es_life s) = Some e
                  \<longrightarrow> ge_owner e \<noteq> GE_ExecReserved \<and> ge_owner e \<noteq> GE_ExecCollapsing
      | Some ep \<Rightarrow>
          (\<exists>e. lc_group_exit (es_life s) = Some e \<and> ge_generation e = ep_generation ep \<and>
             ge_initiator_tid e = ep_initiator ep \<and>
             (case ep_todo ep of
                None \<Rightarrow> ge_owner e = GE_ExecReserved
              | Some todo \<Rightarrow>
                  ge_owner e = GE_ExecCollapsing \<and>
                  (\<forall>t \<in> set (lc_threads (es_life s)). t \<noteq> ep_initiator ep \<longrightarrow>
                     t \<in> set todo \<or> t \<in> es_zombies s \<or> t \<in> ge_claimed_thread_exits e))) \<and>
          ep_initiator ep \<in> set (lc_threads (es_life s)) \<and> ep_initiator ep \<notin> es_zombies s)"


section \<open>Counting down\<close>



lemma held_add [simp]:
  "held (add_mset (t, ph) ops) = (if op_permit ph = None then held ops else add_mset t (held ops))"
  by (simp add: held_def)

lemma held_empty [simp]: "held {#} = {#}"
  by (simp add: held_def)


lemma permits_ok_add [simp]:
  "permits_ok l (add_mset (t, ph) ops) \<longleftrightarrow>
     (\<forall>p. op_permit ph = Some p \<longrightarrow> permit_valid l t p) \<and> permits_ok l ops"
  by (auto simp: permits_ok_def)







section \<open>Steps of an exit operation\<close>



lemma exec_ok_ops [simp]: "exec_ok (s\<lparr>es_ops := ops\<rparr>) \<longleftrightarrow> exec_ok s"
  by (cases "es_exec s"; cases "ep_todo (the (es_exec s))") (simp_all add: exec_ok_def)













section \<open>Settling a permit\<close>






lemma exec_ok_idle:
  assumes "es_exec s = None" "\<And>e. lc_group_exit (es_life s) = Some e \<Longrightarrow> ge_owner e \<noteq> GE_ExecReserved \<and> ge_owner e \<noteq> GE_ExecCollapsing"
  shows "exec_ok s"
  using assms by (simp add: exec_ok_def)













section \<open>Steps of the others\<close>












section \<open>Every run\<close>



section \<open>An abandoned collapse ends\<close>







section \<open>Theorems\<close>




section \<open>Concrete runs\<close>

text \<open>
  A process with the threads 1 and 2. Thread 1 starts an exec and begins to collapse thread 2
  while thread 2 exits by itself.
\<close>

definition sample_episode :: "group_exit_owner \<Rightarrow> u32 \<Rightarrow> tid set \<Rightarrow> group_exit_state" where
  "sample_episode owner remaining claimed =
     \<lparr>ge_status = Exited 0, ge_owner = owner, ge_generation = 1, ge_initiator_tid = 1,
      ge_remaining_threads = remaining, ge_claimed_thread_exits = claimed\<rparr>"

definition sample_permit :: thread_exit_permit where
  "sample_permit = \<lparr>tp_generation = 1, tp_owner = GE_ExecCollapsing, tp_status = Exited 0, tp_tid = 2\<rparr>"

definition sample_exec :: "tid list option \<Rightarrow> exec_prep" where
  "sample_exec todo = \<lparr>ep_generation = 1, ep_initiator = 1, ep_todo = todo\<rparr>"

definition sample ::
    "group_exit_state option \<Rightarrow> u64 \<Rightarrow> tid list \<Rightarrow> u32 \<Rightarrow> tid set \<Rightarrow> (tid \<times> op_phase) multiset
     \<Rightarrow> exec_prep option \<Rightarrow> exit_sys" where
  "sample ge gen ts n Z ops ex =
     \<lparr>es_life = \<lparr>lc_group_exit = ge, lc_next_generation = gen, lc_threads = ts, lc_thread_count = n\<rparr>,
      es_zombies = Z, es_ops = ops, es_exec = ex, es_last = 0\<rparr>"

lemmas sample_defs = sample_def sample_episode_def sample_permit_def sample_exec_def

lemma exit_reachable_step: "exit_reachable racy s \<Longrightarrow> exit_step racy s s' \<Longrightarrow> exit_reachable racy s'"
  by (auto simp: exit_reachable_def intro: rtranclp.rtrancl_into_rtrancl)

lemma sample_attach: "exit_step racy (exit_init 1) (sample None 0 [1, 2] 2 {} {#} None)"
  using exit_step.attach [of 1 "exit_init 1" 2 True _ racy]
  by (simp add: exit_init_def attach_thread_if_lifecycle_idle_def threads_attach_def sample_defs)

lemma sample_exec_begin:
  "exit_step racy (sample None 0 [1, 2] 2 {} {#} None)
     (sample (Some (sample_episode GE_ExecReserved 0 {})) 1 [1, 2] 2 {} {#} (Some (sample_exec None)))"
  using exit_step.exec_begin [of 1 "sample None 0 [1, 2] 2 {} {#} None" 1 _ racy]
  by (simp add: reserve_exec_lifecycle_def sample_defs)

lemma sample_collapse_begin:
  "exit_step racy
     (sample (Some (sample_episode GE_ExecReserved 0 {})) 1 [1, 2] 2 {} {#} (Some (sample_exec None)))
     (sample (Some (sample_episode GE_ExecCollapsing 1 {})) 1 [1, 2] 2 {} {#} (Some (sample_exec (Some [2]))))"
  using exit_step.collapse_begin [of
      "sample (Some (sample_episode GE_ExecReserved 0 {})) 1 [1, 2] 2 {} {#} (Some (sample_exec None))"
      "sample_exec None" "[2]" _ racy]
  by (simp add: begin_exec_collapse_def sample_defs)

lemma sample_check:
  "exit_step racy
     (sample (Some (sample_episode GE_ExecCollapsing n C)) 1 [1, 2] 2 {} ops (Some (sample_exec (Some [2]))))
     (sample (Some (sample_episode GE_ExecCollapsing n C)) 1 [1, 2] 2 {} (add_mset (2, Op_Checked) ops)
        (Some (sample_exec (Some [2]))))"
  using exit_step.check [of 2
      "sample (Some (sample_episode GE_ExecCollapsing n C)) 1 [1, 2] 2 {} ops (Some (sample_exec (Some [2])))" racy]
  by (simp add: sample_defs)

lemma sample_prepare:
  "exit_step racy
     (sample (Some (sample_episode GE_ExecCollapsing n {})) 1 ts m Z (add_mset (2, Op_Checked) ops)
        (Some (sample_exec (Some [2]))))
     (sample (Some (sample_episode GE_ExecCollapsing n {2})) 1 ts m Z (add_mset (2, Op_Prepared sample_permit) ops)
        (Some (sample_exec (Some [2]))))"
  using exit_step.prepare [of
      "sample (Some (sample_episode GE_ExecCollapsing n {})) 1 ts m Z (add_mset (2, Op_Checked) ops)
         (Some (sample_exec (Some [2])))" 2 ops "Exited 0" "Some sample_permit" _ racy]
  by (simp add: prepare_thread_exit_def claim_thread_exit_def sample_defs)

lemma sample_claimed:
  "exit_reachable racy
     (sample (Some (sample_episode GE_ExecCollapsing 1 {2})) 1 [1, 2] 2 {} {#(2, Op_Prepared sample_permit)#}
        (Some (sample_exec (Some [2]))))"
proof -
  have "exit_reachable racy (exit_init 1)"
    unfolding exit_reachable_def by (rule exI [of _ 1]) simp
  then show ?thesis
    by (intro exit_reachable_step [OF _ sample_prepare] exit_reachable_step [OF _ sample_check]
        exit_reachable_step [OF _ sample_collapse_begin] exit_reachable_step [OF _ sample_exec_begin]
        exit_reachable_step [OF _ sample_attach])
qed


text \<open>
  C18: The zombie test of an exit operation and its claim are two steps, and the permit that it
  gets can be void. When an exec retires a thread that is exiting by itself, the exec may test
  the thread, the thread may then finish its exit and release its claim, and the exec may claim
  it once more: \<open>finish_thread_exit\<close> rejects the second permit, against the assertion of the
  exit path.
\<close>

theorem stale_zombie_test_voids_a_permit:
  "\<exists>s t p was_last. exit_reachable True s \<and> (t, Op_Counted p was_last) \<in># es_ops s \<and>
     \<not> fst (finish_thread_exit (es_life s) p was_last)"
proof -
  let ?ex = "Some (sample_exec (Some [2]))"
  let ?claimed = "\<lambda>ts m Z ops. sample (Some (sample_episode GE_ExecCollapsing 1 {2})) 1 ts m Z ops ?ex"
  let ?settled = "\<lambda>C ops. sample (Some (sample_episode GE_ExecCollapsing 0 C)) 1 [1] 1 {2} ops ?ex"
  let ?c = "(2, Op_Checked) :: tid \<times> op_phase"
  have "exit_reachable True (?claimed [1, 2] 2 {} {#?c, (2, Op_Prepared sample_permit)#})"
    using exit_reachable_step [OF sample_claimed sample_check] .
  then have "exit_reachable True (?claimed [1, 2] 2 {2} {#?c, (2, Op_Zombified sample_permit)#})"
    by (rule exit_reachable_step)
       (use exit_step.zombify [of "?claimed [1, 2] 2 {} {#?c, (2, Op_Prepared sample_permit)#}"
           2 sample_permit "{#?c#}" True] in \<open>simp add: sample_defs add_mset_commute\<close>)
  then have "exit_reachable True (?claimed [1] 2 {2} {#?c, (2, Op_Detached sample_permit True)#})"
    by (rule exit_reachable_step)
       (use exit_step.detach [of "?claimed [1, 2] 2 {2} {#?c, (2, Op_Zombified sample_permit)#}"
           2 sample_permit "{#?c#}" True "[1]" True] in
        \<open>simp add: sample_defs threads_detach_def add_mset_commute\<close>)
  then have "exit_reachable True (?claimed [1] 1 {2} {#?c, (2, Op_Counted sample_permit False)#})"
    by (rule exit_reachable_step)
       (use exit_step.count [of "?claimed [1] 2 {2} {#?c, (2, Op_Detached sample_permit True)#}"
           2 sample_permit True "{#?c#}" False _ True] in
        \<open>simp add: sample_defs count_exit_def u32_pred_def add_mset_commute\<close>)
  then have "exit_reachable True (?settled {} {#?c#})"
    by (rule exit_reachable_step)
       (use exit_step.finish [of "?claimed [1] 1 {2} {#?c, (2, Op_Counted sample_permit False)#}"
           2 sample_permit False "{#?c#}" True _ True] in
        \<open>simp add: sample_defs finish_thread_exit_def owner_matches_def u32_pred_def add_mset_commute\<close>)
  then have "exit_reachable True (?settled {2} {#(2, Op_Prepared sample_permit)#})"
    by (rule exit_reachable_step) (rule sample_prepare)
  then have "exit_reachable True (?settled {2} {#(2, Op_Zombified sample_permit)#})"
    by (rule exit_reachable_step)
       (use exit_step.zombify [of "?settled {2} {#(2, Op_Prepared sample_permit)#}"
           2 sample_permit "{#}" True] in \<open>simp add: sample_defs\<close>)
  then have "exit_reachable True (?settled {2} {#(2, Op_Detached sample_permit False)#})"
    by (rule exit_reachable_step)
       (use exit_step.detach [of "?settled {2} {#(2, Op_Zombified sample_permit)#}"
           2 sample_permit "{#}" False "[1]" True] in \<open>simp add: sample_defs threads_detach_def\<close>)
  then have "exit_reachable True (?settled {2} {#(2, Op_Counted sample_permit False)#})"
    by (rule exit_reachable_step)
       (use exit_step.count [of "?settled {2} {#(2, Op_Detached sample_permit False)#}"
           2 sample_permit False "{#}" False _ True] in \<open>simp add: sample_defs count_exit_def\<close>)
  moreover have "\<not> fst (finish_thread_exit (es_life (?settled {2} {#(2, Op_Counted sample_permit False)#}))
      sample_permit False)"
    by (simp add: sample_defs finish_thread_exit_def owner_matches_def u32_pred_def)
  moreover have "(2, Op_Counted sample_permit False)
      \<in># es_ops (?settled {2} {#(2, Op_Counted sample_permit False)#})"
    by (simp add: sample_def)
  ultimately show ?thesis by blast
qed




end
