(* ===== verification/Cred.thy ===== *)
theory Cred
  imports Tx_Step
begin

text \<open>
  Credentials (\<open>tx-subsystems/src/cred/mod.rs\<close>): user and group identifiers, capability sets,
  the credential of a process and the rules by which a change of the user identifiers changes
  the capabilities. The operations of this theory are pure; \<open>Cred_Steps\<close> publishes their
  results in a process.
\<close>

section \<open>Capabilities\<close>

type_synonym uid = u32
type_synonym gid = u32
type_synonym capability_set = u64

datatype capability = Capability (cap_raw: nat)

definition CAP_CHOWN :: capability where "CAP_CHOWN = Capability 0"
definition CAP_DAC_OVERRIDE :: capability where "CAP_DAC_OVERRIDE = Capability 1"
definition CAP_DAC_READ_SEARCH :: capability where "CAP_DAC_READ_SEARCH = Capability 2"
definition CAP_FOWNER :: capability where "CAP_FOWNER = Capability 3"
definition CAP_KILL :: capability where "CAP_KILL = Capability 5"
definition CAP_SETGID :: capability where "CAP_SETGID = Capability 6"
definition CAP_SETUID :: capability where "CAP_SETUID = Capability 7"

lemmas capability_defs =
  CAP_CHOWN_def CAP_DAC_OVERRIDE_def CAP_DAC_READ_SEARCH_def CAP_FOWNER_def CAP_KILL_def
  CAP_SETGID_def CAP_SETUID_def

definition cap_bit :: "capability \<Rightarrow> u64" where
  "cap_bit c = push_bit (cap_raw c) 1"

definition caps_empty :: capability_set where
  "caps_empty = 0"

definition caps_full :: capability_set where
  "caps_full = - 1"

definition caps_contains :: "capability_set \<Rightarrow> capability \<Rightarrow> bool" where
  "caps_contains s c \<longleftrightarrow> s AND cap_bit c \<noteq> 0"

definition caps_add :: "capability_set \<Rightarrow> capability \<Rightarrow> capability_set" where
  "caps_add s c = s OR cap_bit c"

definition caps_remove :: "capability_set \<Rightarrow> capability \<Rightarrow> capability_set" where
  "caps_remove s c = s AND NOT (cap_bit c)"

lemma cap_bit_iff: "bit (cap_bit c) n \<longleftrightarrow> n = cap_raw c \<and> n < 64"
  by (auto simp: cap_bit_def bit_simps)

lemma caps_contains_iff: "caps_contains s c \<longleftrightarrow> bit s (cap_raw c)"
proof -
  have "s AND cap_bit c \<noteq> 0 \<longleftrightarrow> (\<exists>n. bit (s AND cap_bit c) n)"
    by (metis bit_0_eq bit_eqI bot_apply bot_bool_def)
  also have "\<dots> \<longleftrightarrow> bit s (cap_raw c)"
    by (auto simp: bit_and_iff cap_bit_iff dest: bit_imp_le_length)
  finally show ?thesis
    by (simp add: caps_contains_def)
qed

lemma caps_contains_empty [simp]: "\<not> caps_contains caps_empty c"
  by (simp add: caps_contains_def caps_empty_def)

lemma caps_contains_full [simp]: "caps_contains caps_full c \<longleftrightarrow> cap_raw c < 64"
  by (simp add: caps_contains_iff caps_full_def)

lemma caps_contains_add:
  "caps_contains (caps_add s c) d \<longleftrightarrow> caps_contains s d \<or> (d = c \<and> cap_raw c < 64)"
  by (cases c; cases d) (auto simp: caps_contains_iff caps_add_def bit_or_iff cap_bit_iff)

lemma caps_contains_remove:
  "caps_contains (caps_remove s c) d \<longleftrightarrow> caps_contains s d \<and> d \<noteq> c"
  by (cases c; cases d)
     (auto simp: caps_contains_iff caps_remove_def bit_and_iff bit_not_iff cap_bit_iff
           dest: bit_imp_le_length)

section \<open>Credentials\<close>

record cred =
  cr_uid :: uid
  cr_euid :: uid
  cr_suid :: uid
  cr_gid :: gid
  cr_egid :: gid
  cr_sgid :: gid
  cr_effective_caps :: capability_set
  cr_permitted_caps :: capability_set

definition is_root :: "uid \<Rightarrow> bool" where
  "is_root u \<longleftrightarrow> u = 0"

definition cred_root :: cred where
  "cred_root =
     \<lparr>cr_uid = 0, cr_euid = 0, cr_suid = 0, cr_gid = 0, cr_egid = 0, cr_sgid = 0,
      cr_effective_caps = caps_full, cr_permitted_caps = caps_full\<rparr>"

definition is_privileged_for :: "cred \<Rightarrow> capability \<Rightarrow> bool" where
  "is_privileged_for c cap \<longleftrightarrow> is_root (cr_euid c) \<or> caps_contains (cr_effective_caps c) cap"

definition shares_euid :: "cred \<Rightarrow> cred \<Rightarrow> bool" where
  "shares_euid c d \<longleftrightarrow> cr_euid c = cr_euid d"

definition has_root_uid :: "cred \<Rightarrow> bool" where
  "has_root_uid c \<longleftrightarrow> is_root (cr_uid c) \<or> is_root (cr_euid c) \<or> is_root (cr_suid c)"

definition apply_uid_capability_transition :: "cred \<Rightarrow> cred \<Rightarrow> cred" where
  "apply_uid_capability_transition prev new =
     (let prev_had_root_uid = has_root_uid prev;
          new_has_root_uid = has_root_uid new;
          new =
            (if is_root (cr_euid prev) \<and> \<not> is_root (cr_euid new)
             then new\<lparr>cr_effective_caps := caps_empty\<rparr>
             else if \<not> is_root (cr_euid prev) \<and> is_root (cr_euid new)
             then new\<lparr>cr_effective_caps := cr_permitted_caps new\<rparr>
             else new)
      in if prev_had_root_uid \<and> \<not> new_has_root_uid
         then new\<lparr>cr_effective_caps := caps_empty, cr_permitted_caps := caps_empty\<rparr>
         else new)"

section \<open>Changes of the identifiers\<close>

text \<open>
  What each call asks for, as a change of the credential: \<^term>\<open>None\<close> is a refusal. The
  source computes it inside the closure that it passes to \<open>with_cred_mutation\<close>.
\<close>

definition setuid_cred :: "uid \<Rightarrow> cred \<Rightarrow> cred option" where
  "setuid_cred new_uid prev =
     (if is_privileged_for prev CAP_SETUID
      then Some (apply_uid_capability_transition prev
             (prev\<lparr>cr_uid := new_uid, cr_euid := new_uid, cr_suid := new_uid\<rparr>))
      else if new_uid = cr_uid prev \<or> new_uid = cr_euid prev \<or> new_uid = cr_suid prev
      then Some (apply_uid_capability_transition prev (prev\<lparr>cr_euid := new_uid\<rparr>))
      else None)"

definition setgid_cred :: "gid \<Rightarrow> cred \<Rightarrow> cred option" where
  "setgid_cred new_gid prev =
     (if is_privileged_for prev CAP_SETGID
      then Some (prev\<lparr>cr_gid := new_gid, cr_egid := new_gid, cr_sgid := new_gid\<rparr>)
      else if new_gid = cr_gid prev \<or> new_gid = cr_egid prev \<or> new_gid = cr_sgid prev
      then Some (prev\<lparr>cr_egid := new_gid\<rparr>)
      else None)"

text \<open>\<open>allowed\<close>: without privilege each requested identifier is one of the current three.\<close>

definition uid_allowed :: "cred \<Rightarrow> uid option \<Rightarrow> bool" where
  "uid_allowed prev candidate =
     (case candidate of
        None \<Rightarrow> True
      | Some u \<Rightarrow> u = cr_uid prev \<or> u = cr_euid prev \<or> u = cr_suid prev)"

definition gid_allowed :: "cred \<Rightarrow> gid option \<Rightarrow> bool" where
  "gid_allowed prev candidate =
     (case candidate of
        None \<Rightarrow> True
      | Some g \<Rightarrow> g = cr_gid prev \<or> g = cr_egid prev \<or> g = cr_sgid prev)"

definition or_keep :: "'a option \<Rightarrow> 'a \<Rightarrow> 'a" where
  "or_keep request current = (case request of None \<Rightarrow> current | Some v \<Rightarrow> v)"

lemma or_keep_simps [simp]:
  "or_keep None x = x"
  "or_keep (Some v) x = v"
  by (simp_all add: or_keep_def)

definition setresuid_cred ::
    "uid option \<Rightarrow> uid option \<Rightarrow> uid option \<Rightarrow> cred \<Rightarrow> cred option" where
  "setresuid_cred ruid euid suid prev =
     (if \<not> is_privileged_for prev CAP_SETUID \<and>
         \<not> (uid_allowed prev ruid \<and> uid_allowed prev euid \<and> uid_allowed prev suid)
      then None
      else Some (apply_uid_capability_transition prev
             (prev\<lparr>cr_uid := or_keep ruid (cr_uid prev),
                   cr_euid := or_keep euid (cr_euid prev),
                   cr_suid := or_keep suid (cr_suid prev)\<rparr>)))"

definition setresgid_cred ::
    "gid option \<Rightarrow> gid option \<Rightarrow> gid option \<Rightarrow> cred \<Rightarrow> cred option" where
  "setresgid_cred rgid egid sgid prev =
     (if \<not> is_privileged_for prev CAP_SETGID \<and>
         \<not> (gid_allowed prev rgid \<and> gid_allowed prev egid \<and> gid_allowed prev sgid)
      then None
      else Some (prev\<lparr>cr_gid := or_keep rgid (cr_gid prev),
                      cr_egid := or_keep egid (cr_egid prev),
                      cr_sgid := or_keep sgid (cr_sgid prev)\<rparr>))"

definition setreuid_cred :: "uid option \<Rightarrow> uid option \<Rightarrow> cred \<Rightarrow> cred option" where
  "setreuid_cred ruid euid prev =
     (if \<not> is_privileged_for prev CAP_SETUID \<and> \<not> (uid_allowed prev ruid \<and> uid_allowed prev euid)
      then None
      else
        let new = prev\<lparr>cr_uid := or_keep ruid (cr_uid prev), cr_euid := or_keep euid (cr_euid prev)\<rparr>;
            new = (if ruid \<noteq> None \<or> cr_euid new \<noteq> cr_uid prev
                   then new\<lparr>cr_suid := cr_euid new\<rparr> else new)
        in Some (apply_uid_capability_transition prev new))"

definition setregid_cred :: "gid option \<Rightarrow> gid option \<Rightarrow> cred \<Rightarrow> cred option" where
  "setregid_cred rgid egid prev =
     (if \<not> is_privileged_for prev CAP_SETGID \<and> \<not> (gid_allowed prev rgid \<and> gid_allowed prev egid)
      then None
      else
        let new = prev\<lparr>cr_gid := or_keep rgid (cr_gid prev), cr_egid := or_keep egid (cr_egid prev)\<rparr>
        in Some (if rgid \<noteq> None \<or> cr_egid new \<noteq> cr_gid prev
                 then new\<lparr>cr_sgid := cr_egid new\<rparr> else new))"

section \<open>What a change may do\<close>

definition uids_of :: "cred \<Rightarrow> uid set" where
  "uids_of c = {cr_uid c, cr_euid c, cr_suid c}"

definition gids_of :: "cred \<Rightarrow> gid set" where
  "gids_of c = {cr_gid c, cr_egid c, cr_sgid c}"

lemma has_root_uid_iff: "has_root_uid c \<longleftrightarrow> 0 \<in> uids_of c"
  by (auto simp: has_root_uid_def uids_of_def is_root_def)

text \<open>The transition changes the capabilities only, and never beyond the permitted ones.\<close>

lemma transition_ids [simp]:
  "cr_uid (apply_uid_capability_transition p n) = cr_uid n"
  "cr_euid (apply_uid_capability_transition p n) = cr_euid n"
  "cr_suid (apply_uid_capability_transition p n) = cr_suid n"
  "cr_gid (apply_uid_capability_transition p n) = cr_gid n"
  "cr_egid (apply_uid_capability_transition p n) = cr_egid n"
  "cr_sgid (apply_uid_capability_transition p n) = cr_sgid n"
  by (simp_all add: apply_uid_capability_transition_def Let_def)

lemma transition_without_root:
  assumes "\<not> has_root_uid p" "\<not> has_root_uid n"
  shows "apply_uid_capability_transition p n = n"
  using assms by (simp add: apply_uid_capability_transition_def has_root_uid_def)

lemma transition_drop:
  assumes "has_root_uid p" "\<not> has_root_uid n"
  shows "cr_effective_caps (apply_uid_capability_transition p n) = caps_empty"
    and "cr_permitted_caps (apply_uid_capability_transition p n) = caps_empty"
  using assms by (simp_all add: apply_uid_capability_transition_def)

text \<open>The permitted set never grows and the effective one stays inside what was held.\<close>

lemma transition_permitted:
  "cr_permitted_caps (apply_uid_capability_transition p n) \<in> {cr_permitted_caps n, caps_empty}"
  by (simp add: apply_uid_capability_transition_def Let_def)

lemma transition_effective:
  "cr_effective_caps (apply_uid_capability_transition p n)
     \<in> {cr_effective_caps n, cr_permitted_caps n, caps_empty}"
  by (simp add: apply_uid_capability_transition_def Let_def)

end
