(* ===== verification/Cred_Steps.thy ===== *)
theory Cred_Steps
  imports Cred Proc_Lifecycle
begin

text \<open>
  The credential lane of a process: the slot that holds the credential, the reservation by which
  an exec keeps it (\<open>tx-subsystems/src/process/structure.rs\<close>), the calls that replace it
  (\<open>tx-subsystems/src/cred/mod.rs\<close>), and the two halves of the credential change of an exec with the
  lifecycle reservation they run under (\<open>tx-subsystems/src/process/exec_prep.rs\<close>).

  Allocating the cell of a new credential can fail: \<open>sign_cred\<close> is the parameter
  \<open>zone_ok\<close>. A process is a slot that names its payload, or none once it is a zombie; an exec
  that was prepared keeps its payload alive, so payloads live in a store of their own.
\<close>

section \<open>Credential lane\<close>

record cred_lane =
  cl_cred :: cred
  cl_next_generation :: u64
  cl_exec_reservation :: "u64 option"

definition cred_lane_new :: "cred \<Rightarrow> cred_lane" where
  "cred_lane_new c = \<lparr>cl_cred = c, cl_next_generation = 0, cl_exec_reservation = None\<rparr>"

definition reserve_exec_cred :: "cred_lane \<Rightarrow> (u64 \<times> cred) option \<times> cred_lane" where
  "reserve_exec_cred l =
     (if cl_exec_reservation l \<noteq> None then (None, l)
      else
        let generation = cl_next_generation l + 1
        in (Some (generation, cl_cred l),
            l\<lparr>cl_next_generation := generation, cl_exec_reservation := Some generation\<rparr>))"

definition release_exec_cred_reservation :: "cred_lane \<Rightarrow> u64 \<Rightarrow> cred_lane" where
  "release_exec_cred_reservation l token =
     (if cl_exec_reservation l = Some token then l\<lparr>cl_exec_reservation := None\<rparr> else l)"

definition replace_cred :: "cred_lane \<Rightarrow> cred \<Rightarrow> cred \<times> cred_lane" where
  "replace_cred l new = (cl_cred l, l\<lparr>cl_cred := new\<rparr>)"

definition commit_exec_cred_reservation :: "cred_lane \<Rightarrow> u64 \<Rightarrow> cred option \<Rightarrow> cred option \<times> cred_lane" where
  "commit_exec_cred_reservation l token replacement =
     (if cl_exec_reservation l \<noteq> Some token then (None, l)
      else
        let l = l\<lparr>cl_exec_reservation := None\<rparr>
        in (case replacement of
              Some new \<Rightarrow> (let (previous, l) = replace_cred l new in (Some previous, l))
            | None \<Rightarrow> (Some (cl_cred l), l)))"

text \<open>A change runs under the lock of the lane and only when no exec holds it.\<close>

definition with_unreserved_cred_mutation :: "cred_lane \<Rightarrow> (cred_lane \<Rightarrow> 'r \<times> cred_lane) \<Rightarrow> 'r option \<times> cred_lane" where
  "with_unreserved_cred_mutation l mutation =
     (if cl_exec_reservation l \<noteq> None then (None, l)
      else (let (r, l) = mutation l in (Some r, l)))"

section \<open>Processes\<close>

record payload =
  pl_lane :: cred_lane
  pl_life :: lifecycle

record process =
  pr_slot :: "nat option"
  pr_store :: "nat \<Rightarrow> payload"

definition update_lane :: "nat \<Rightarrow> (cred_lane \<Rightarrow> cred_lane) \<Rightarrow> process \<Rightarrow> process" where
  "update_lane k f pr =
     pr\<lparr>pr_store := (pr_store pr)(k := (pr_store pr k)\<lparr>pl_lane := f (pl_lane (pr_store pr k))\<rparr>)\<rparr>"

definition update_life :: "nat \<Rightarrow> (lifecycle \<Rightarrow> lifecycle) \<Rightarrow> process \<Rightarrow> process" where
  "update_life k f pr =
     pr\<lparr>pr_store := (pr_store pr)(k := (pr_store pr k)\<lparr>pl_life := f (pl_life (pr_store pr k))\<rparr>)\<rparr>"

lemma update_lane_simps [simp]:
  "pr_slot (update_lane k f pr) = pr_slot pr"
  "pl_life (pr_store (update_lane k f pr) j) = pl_life (pr_store pr j)"
  "pl_lane (pr_store (update_lane k f pr) j) = (if j = k then f (pl_lane (pr_store pr k)) else pl_lane (pr_store pr j))"
  by (simp_all add: update_lane_def)

lemma update_life_simps [simp]:
  "pr_slot (update_life k f pr) = pr_slot pr"
  "pl_lane (pr_store (update_life k f pr) j) = pl_lane (pr_store pr j)"
  "pl_life (pr_store (update_life k f pr) j) = (if j = k then f (pl_life (pr_store pr k)) else pl_life (pr_store pr j))"
  by (simp_all add: update_life_def)

section \<open>Credential calls\<close>

datatype cred_change = Replaced cred cred | Zombie | Again | PermissionDenied

definition with_cred_mutation :: "process \<Rightarrow> (cred_lane \<Rightarrow> cred_change \<times> cred_lane) \<Rightarrow> cred_change \<times> process" where
  "with_cred_mutation target mutation =
     (case pr_slot target of
        None \<Rightarrow> (Zombie, target)
      | Some k \<Rightarrow>
          (case with_unreserved_cred_mutation (pl_lane (pr_store target k)) mutation of
             (None, l) \<Rightarrow> (Again, update_lane k (\<lambda>_. l) target)
           | (Some change, l) \<Rightarrow> (change, update_lane k (\<lambda>_. l) target)))"

text \<open>The common body of the six calls: compute, sign, publish.\<close>

definition publish_cred :: "bool \<Rightarrow> (cred \<Rightarrow> cred option) \<Rightarrow> cred_lane \<Rightarrow> cred_change \<times> cred_lane" where
  "publish_cred zone_ok change l =
     (let prev = cl_cred l
      in case change prev of
           None \<Rightarrow> (PermissionDenied, l)
         | Some new \<Rightarrow>
             if \<not> zone_ok then (PermissionDenied, l)
             else (Replaced prev new, snd (replace_cred l new)))"

definition step_setuid :: "bool \<Rightarrow> process \<Rightarrow> uid \<Rightarrow> cred_change \<times> process" where
  "step_setuid zone_ok target new_uid =
     with_cred_mutation target (publish_cred zone_ok (setuid_cred new_uid))"

definition step_setgid :: "bool \<Rightarrow> process \<Rightarrow> gid \<Rightarrow> cred_change \<times> process" where
  "step_setgid zone_ok target new_gid =
     with_cred_mutation target (publish_cred zone_ok (setgid_cred new_gid))"

definition step_setresuid ::
    "bool \<Rightarrow> process \<Rightarrow> uid option \<Rightarrow> uid option \<Rightarrow> uid option \<Rightarrow> cred_change \<times> process" where
  "step_setresuid zone_ok target ruid euid suid =
     with_cred_mutation target (publish_cred zone_ok (setresuid_cred ruid euid suid))"

definition step_setresgid ::
    "bool \<Rightarrow> process \<Rightarrow> gid option \<Rightarrow> gid option \<Rightarrow> gid option \<Rightarrow> cred_change \<times> process" where
  "step_setresgid zone_ok target rgid egid sgid =
     with_cred_mutation target (publish_cred zone_ok (setresgid_cred rgid egid sgid))"

definition step_setreuid :: "bool \<Rightarrow> process \<Rightarrow> uid option \<Rightarrow> uid option \<Rightarrow> cred_change \<times> process" where
  "step_setreuid zone_ok target ruid euid =
     with_cred_mutation target (publish_cred zone_ok (setreuid_cred ruid euid))"

definition step_setregid :: "bool \<Rightarrow> process \<Rightarrow> gid option \<Rightarrow> gid option \<Rightarrow> cred_change \<times> process" where
  "step_setregid zone_ok target rgid egid =
     with_cred_mutation target (publish_cred zone_ok (setregid_cred rgid egid))"

text \<open>\<open>capset\<close> publishes masks that the system call layer has checked; it reports a failed
  allocation as a zombie.\<close>

definition step_set_capability_sets ::
    "bool \<Rightarrow> process \<Rightarrow> capability_set \<Rightarrow> capability_set \<Rightarrow> cred_change \<times> process" where
  "step_set_capability_sets zone_ok target effective permitted =
     with_cred_mutation target
       (\<lambda>l. let prev = cl_cred l;
                new = prev\<lparr>cr_effective_caps := effective, cr_permitted_caps := permitted\<rparr>
            in if \<not> zone_ok then (Zombie, l)
               else (Replaced prev new, snd (replace_cred l new)))"

section \<open>Exec\<close>

datatype exec_prep_error = Prep_Again | Prep_OutOfMemory | Prep_Zombie | Prep_StaleBinding

record process_exec_prep =
  xp_payload :: nat
  xp_generation :: u64
  xp_active :: bool

definition exec_prep_begin :: "process \<Rightarrow> tid \<Rightarrow> (exec_prep_error + process_exec_prep) \<times> process" where
  "exec_prep_begin pr initiator =
     (case pr_slot pr of
        None \<Rightarrow> (Inl Prep_Zombie, pr)
      | Some k \<Rightarrow>
          if initiator \<notin> set (lc_threads (pl_life (pr_store pr k))) then (Inl Prep_StaleBinding, pr)
          else (case reserve_exec_lifecycle (pl_life (pr_store pr k)) initiator of
                  (None, l) \<Rightarrow> (Inl Prep_Again, update_life k (\<lambda>_. l) pr)
                | (Some g, l) \<Rightarrow>
                    (Inr \<lparr>xp_payload = k, xp_generation = g, xp_active = True\<rparr>, update_life k (\<lambda>_. l) pr)))"

definition validate_binding :: "process \<Rightarrow> process_exec_prep \<Rightarrow> exec_prep_error + unit" where
  "validate_binding pr xp =
     (if \<not> xp_active xp then Inl Prep_StaleBinding
      else (case pr_slot pr of
              None \<Rightarrow> Inl Prep_Zombie
            | Some bound \<Rightarrow>
                if bound \<noteq> xp_payload xp \<or>
                   \<not> exec_lifecycle_matches (pl_life (pr_store pr (xp_payload xp))) (xp_generation xp)
                then Inl Prep_StaleBinding
                else Inr ()))"

text \<open>Dropping a preparation or a reservation gives back what it still owns.\<close>

definition drop_exec_prep :: "process_exec_prep \<Rightarrow> process \<Rightarrow> process" where
  "drop_exec_prep xp pr =
     (if xp_active xp
      then update_life (xp_payload xp) (\<lambda>l. snd (release_exec_lifecycle l (xp_generation xp))) pr
      else pr)"

record exec_cred_reservation =
  xr_payload :: nat
  xr_token :: u64
  xr_active :: bool

definition drop_exec_cred_reservation :: "exec_cred_reservation \<Rightarrow> process \<Rightarrow> process" where
  "drop_exec_cred_reservation xr pr =
     (if xr_active xr
      then update_lane (xr_payload xr) (\<lambda>l. release_exec_cred_reservation l (xr_token xr)) pr
      else pr)"

datatype exec_setid_policy = Setid_Apply | Setid_Suppress

definition S_ISUID :: u16 where "S_ISUID = 0x800"
definition S_ISGID :: u16 where "S_ISGID = 0x400"
definition S_ISVTX :: u16 where "S_ISVTX = 0x200"

record prepared_exec_cred =
  xc_process_prep :: process_exec_prep
  xc_reservation :: exec_cred_reservation
  xc_new_cred :: "cred option"
  xc_credential_snapshot :: cred
  xc_at_secure :: bool

definition exec_setuid :: "exec_setid_policy \<Rightarrow> u16 \<Rightarrow> bool" where
  "exec_setuid policy file_mode \<longleftrightarrow> policy = Setid_Apply \<and> file_mode AND S_ISUID \<noteq> 0"

definition exec_setgid :: "exec_setid_policy \<Rightarrow> u16 \<Rightarrow> bool" where
  "exec_setgid policy file_mode \<longleftrightarrow>
     policy = Setid_Apply \<and> file_mode AND S_ISGID \<noteq> 0 \<and> file_mode AND 0x008 \<noteq> 0"

definition exec_new_cred :: "uid \<Rightarrow> gid \<Rightarrow> u16 \<Rightarrow> exec_setid_policy \<Rightarrow> cred \<Rightarrow> cred" where
  "exec_new_cred file_uid file_gid file_mode policy prev =
     (let new = (if exec_setuid policy file_mode then prev\<lparr>cr_euid := file_uid, cr_suid := file_uid\<rparr> else prev)
      in if exec_setgid policy file_mode then new\<lparr>cr_egid := file_gid, cr_sgid := file_gid\<rparr> else new)"

definition prepare_exec_cred_in ::
    "bool \<Rightarrow> process_exec_prep \<Rightarrow> uid \<Rightarrow> gid \<Rightarrow> u16 \<Rightarrow> exec_setid_policy \<Rightarrow> process
     \<Rightarrow> prepared_exec_cred result \<times> process" where
  "prepare_exec_cred_in zone_ok xp file_uid file_gid file_mode policy pr =
     (case validate_binding pr xp of
        Inl _ \<Rightarrow> (Error EAGAIN, drop_exec_prep xp pr)
      | Inr _ \<Rightarrow>
          (let k = xp_payload xp
           in case reserve_exec_cred (pl_lane (pr_store pr k)) of
                (None, l) \<Rightarrow> (Error EAGAIN, drop_exec_prep xp (update_lane k (\<lambda>_. l) pr))
              | (Some (token, prev), l) \<Rightarrow>
                  (let pr = update_lane k (\<lambda>_. l) pr;
                       xr = \<lparr>xr_payload = k, xr_token = token, xr_active = True\<rparr>;
                       new = exec_new_cred file_uid file_gid file_mode policy prev;
                       at_secure = (exec_setuid policy file_mode \<and> cr_euid new \<noteq> cr_euid prev \<or>
                                    exec_setgid policy file_mode \<and> cr_egid new \<noteq> cr_egid prev)
                   in if policy = Setid_Apply \<and> \<not> zone_ok
                      then (Error ENOMEM, drop_exec_prep xp (drop_exec_cred_reservation xr pr))
                      else (Ok \<lparr>xc_process_prep = xp, xc_reservation = xr,
                                xc_new_cred = (if policy = Setid_Apply then Some new else None),
                                xc_credential_snapshot = new, xc_at_secure = at_secure\<rparr>, pr))))"

definition exec_prep_errno :: "exec_prep_error \<Rightarrow> errno" where
  "exec_prep_errno e =
     (case e of
        Prep_Again \<Rightarrow> EAGAIN
      | Prep_OutOfMemory \<Rightarrow> ENOMEM
      | Prep_Zombie \<Rightarrow> ESRCH
      | Prep_StaleBinding \<Rightarrow> ESRCH)"

definition prepare_exec_cred ::
    "bool \<Rightarrow> uid \<Rightarrow> gid \<Rightarrow> u16 \<Rightarrow> exec_setid_policy \<Rightarrow> process \<Rightarrow> prepared_exec_cred result \<times> process" where
  "prepare_exec_cred zone_ok file_uid file_gid file_mode policy pr =
     (case pr_slot pr of
        None \<Rightarrow> (Error ESRCH, pr)
      | Some k \<Rightarrow>
          (case lc_threads (pl_life (pr_store pr k)) of
             [] \<Rightarrow> (Error ESRCH, pr)
           | initiator # _ \<Rightarrow>
               (case exec_prep_begin pr initiator of
                  (Inl e, pr) \<Rightarrow> (Error (exec_prep_errno e), pr)
                | (Inr xp, pr) \<Rightarrow> prepare_exec_cred_in zone_ok xp file_uid file_gid file_mode policy pr)))"

definition prepare_setid_for_exec ::
    "bool \<Rightarrow> uid \<Rightarrow> gid \<Rightarrow> u16 \<Rightarrow> process \<Rightarrow> prepared_exec_cred result \<times> process" where
  "prepare_setid_for_exec zone_ok file_uid file_gid file_mode pr =
     prepare_exec_cred zone_ok file_uid file_gid file_mode Setid_Apply pr"

record exec_cred_outcome =
  xo_at_secure :: bool
  xo_previous_cred :: cred

definition drop_prepared :: "prepared_exec_cred \<Rightarrow> process \<Rightarrow> process" where
  "drop_prepared xc pr = drop_exec_prep (xc_process_prep xc) (drop_exec_cred_reservation (xc_reservation xc) pr)"

text \<open>The outer option is the assertion that the lifecycle did not change during the commit.\<close>

definition commit_prepared_exec_cred ::
    "prepared_exec_cred \<Rightarrow> process \<Rightarrow> ((exec_prep_error + exec_cred_outcome) \<times> process) option" where
  "commit_prepared_exec_cred xc pr =
     (let xp = xc_process_prep xc; xr = xc_reservation xc; k = xp_payload xp
      in case validate_binding pr xp of
           Inl e \<Rightarrow> Some (Inl e, drop_prepared xc pr)
         | Inr _ \<Rightarrow>
             if k \<noteq> xr_payload xr then Some (Inl Prep_StaleBinding, drop_prepared xc pr)
             else
               (case commit_exec_cred_reservation (pl_lane (pr_store pr k)) (xr_token xr) (xc_new_cred xc) of
                  (None, l) \<Rightarrow> Some (Inl Prep_StaleBinding, drop_prepared xc (update_lane k (\<lambda>_. l) pr))
                | (Some previous, l) \<Rightarrow>
                    (let pr = update_lane k (\<lambda>_. l) pr;
                         (released, life) = release_exec_lifecycle (pl_life (pr_store pr k)) (xp_generation xp)
                     in do {
                          assert_that released;
                          Some (Inr \<lparr>xo_at_secure = xc_at_secure xc, xo_previous_cred = previous\<rparr>,
                                update_life k (\<lambda>_. life) pr)
                        })))"

text \<open>\<open>None\<close> of the inner option is a failed preparation.\<close>

definition step_apply_suid_for_exec ::
    "bool \<Rightarrow> uid \<Rightarrow> gid \<Rightarrow> u16 \<Rightarrow> process \<Rightarrow> (exec_cred_outcome option \<times> process) option" where
  "step_apply_suid_for_exec zone_ok file_uid file_gid file_mode pr =
     (case prepare_setid_for_exec zone_ok file_uid file_gid file_mode pr of
        (Inl _, pr) \<Rightarrow> Some (None, pr)
      | (Inr xc, pr) \<Rightarrow>
          (case commit_prepared_exec_cred xc pr of
             Some (Inr outcome, pr) \<Rightarrow> Some (Some outcome, pr)
           | _ \<Rightarrow> None))"

section \<open>Step operations\<close>

text \<open>The one-shot operations that the scripts drive: each is done after one step.\<close>

definition done_with :: "'a \<times> process \<Rightarrow> 'a step_outcome \<times> process" where
  "done_with r = (Done (fst r), snd r)"

definition setuid_op_step :: "bool \<Rightarrow> process \<Rightarrow> uid \<Rightarrow> cred_change step_outcome \<times> process" where
  "setuid_op_step zone_ok target new_uid = done_with (step_setuid zone_ok target new_uid)"

definition setgid_op_step :: "bool \<Rightarrow> process \<Rightarrow> gid \<Rightarrow> cred_change step_outcome \<times> process" where
  "setgid_op_step zone_ok target new_gid = done_with (step_setgid zone_ok target new_gid)"

definition setreuid_op_step ::
    "bool \<Rightarrow> process \<Rightarrow> uid option \<Rightarrow> uid option \<Rightarrow> cred_change step_outcome \<times> process" where
  "setreuid_op_step zone_ok target ruid euid = done_with (step_setreuid zone_ok target ruid euid)"

definition setresuid_op_step ::
    "bool \<Rightarrow> process \<Rightarrow> uid option \<Rightarrow> uid option \<Rightarrow> uid option \<Rightarrow> cred_change step_outcome \<times> process" where
  "setresuid_op_step zone_ok target ruid euid suid = done_with (step_setresuid zone_ok target ruid euid suid)"

definition setresgid_op_step ::
    "bool \<Rightarrow> process \<Rightarrow> gid option \<Rightarrow> gid option \<Rightarrow> gid option \<Rightarrow> cred_change step_outcome \<times> process" where
  "setresgid_op_step zone_ok target rgid egid sgid = done_with (step_setresgid zone_ok target rgid egid sgid)"

definition setregid_op_step ::
    "bool \<Rightarrow> process \<Rightarrow> gid option \<Rightarrow> gid option \<Rightarrow> cred_change step_outcome \<times> process" where
  "setregid_op_step zone_ok target rgid egid = done_with (step_setregid zone_ok target rgid egid)"

definition apply_suid_for_exec_op_step ::
    "bool \<Rightarrow> uid \<Rightarrow> gid \<Rightarrow> u16 \<Rightarrow> process \<Rightarrow> (exec_cred_outcome option step_outcome \<times> process) option" where
  "apply_suid_for_exec_op_step zone_ok file_uid file_gid file_mode target =
     map_option done_with (step_apply_suid_for_exec zone_ok file_uid file_gid file_mode target)"

end
