(* ===== verification/Cred_Security.thy ===== *)
theory Cred_Security
  imports Cred_Steps
begin

text \<open>
  What the credential calls and exec guarantee: a change is published whole or not at all,
  privileges that were given up do not come back, and an exec installs the credential that it
  prepared whatever else happens in between.
\<close>

section \<open>Calls\<close>

text \<open>The six calls with which a process changes its identifiers.\<close>

datatype id_call =
    Setuid uid
  | Setgid gid
  | Setresuid "uid option" "uid option" "uid option"
  | Setresgid "gid option" "gid option" "gid option"
  | Setreuid "uid option" "uid option"
  | Setregid "gid option" "gid option"

fun cred_call :: "bool \<Rightarrow> id_call \<Rightarrow> process \<Rightarrow> cred_change \<times> process" where
  "cred_call zone_ok (Setuid u) pr = step_setuid zone_ok pr u"
| "cred_call zone_ok (Setgid g) pr = step_setgid zone_ok pr g"
| "cred_call zone_ok (Setresuid r e s) pr = step_setresuid zone_ok pr r e s"
| "cred_call zone_ok (Setresgid r e s) pr = step_setresgid zone_ok pr r e s"
| "cred_call zone_ok (Setreuid r e) pr = step_setreuid zone_ok pr r e"
| "cred_call zone_ok (Setregid r e) pr = step_setregid zone_ok pr r e"

fun call_cred :: "id_call \<Rightarrow> cred \<Rightarrow> cred option" where
  "call_cred (Setuid u) = setuid_cred u"
| "call_cred (Setgid g) = setgid_cred g"
| "call_cred (Setresuid r e s) = setresuid_cred r e s"
| "call_cred (Setresgid r e s) = setresgid_cred r e s"
| "call_cred (Setreuid r e) = setreuid_cred r e"
| "call_cred (Setregid r e) = setregid_cred r e"

lemma cred_call_eq: "cred_call zone_ok c pr = with_cred_mutation pr (publish_cred zone_ok (call_cred c))"
  by (cases c) (simp_all add: step_setuid_def step_setgid_def step_setresuid_def step_setresgid_def
      step_setreuid_def step_setregid_def)

lemma update_lane_same [simp]: "update_lane k (\<lambda>_. pl_lane (pr_store pr k)) pr = pr"
  by (simp add: update_lane_def)

lemma update_lane_const: "update_lane k (\<lambda>_. f (pl_lane (pr_store pr k))) pr = update_lane k f pr"
  by (simp add: update_lane_def)

text \<open>What a call does to a live process.\<close>

lemma cred_call_live:
  assumes "pr_slot pr = Some k"
  shows "cred_call zone_ok c pr =
     (if cl_exec_reservation (pl_lane (pr_store pr k)) \<noteq> None then (Again, pr)
      else case call_cred c (cl_cred (pl_lane (pr_store pr k))) of
             None \<Rightarrow> (PermissionDenied, pr)
           | Some new \<Rightarrow>
               if \<not> zone_ok then (PermissionDenied, pr)
               else (Replaced (cl_cred (pl_lane (pr_store pr k))) new,
                     update_lane k (\<lambda>l. l\<lparr>cl_cred := new\<rparr>) pr))"
  using update_lane_const [of k "\<lambda>l. l\<lparr>cl_cred := _\<rparr>" pr]
  by (auto simp: cred_call_eq with_cred_mutation_def assms with_unreserved_cred_mutation_def
      publish_cred_def Let_def replace_cred_def split: option.splits)

section \<open>Giving up privileges\<close>








lemma own_ids [simp]:
  "cr_uid c \<in> uids_of c" "cr_euid c \<in> uids_of c" "cr_suid c \<in> uids_of c"
  "cr_gid c \<in> gids_of c" "cr_egid c \<in> gids_of c" "cr_sgid c \<in> gids_of c"
  by (simp_all add: uids_of_def gids_of_def)




definition cred_calls :: "(bool \<times> id_call) list \<Rightarrow> process \<Rightarrow> process" where
  "cred_calls calls pr = fold (\<lambda>(zone_ok, c) pr. snd (cred_call zone_ok c pr)) calls pr"



section \<open>Capabilities stay within the permitted ones\<close>

definition caps_within :: "capability_set \<Rightarrow> capability_set \<Rightarrow> bool" where
  "caps_within s t \<longleftrightarrow> (\<forall>cap. caps_contains s cap \<longrightarrow> caps_contains t cap)"

lemma caps_within_trans: "caps_within s t \<Longrightarrow> caps_within t u \<Longrightarrow> caps_within s u"
  by (simp add: caps_within_def)

lemma caps_within_refl [simp]: "caps_within s s" "caps_within caps_empty s"
  by (simp_all add: caps_within_def)

lemma transition_within:
  assumes "caps_within (cr_effective_caps n) (cr_permitted_caps n)"
  shows "caps_within (cr_effective_caps (apply_uid_capability_transition p n))
           (cr_permitted_caps (apply_uid_capability_transition p n))"
    and "caps_within (cr_permitted_caps (apply_uid_capability_transition p n)) (cr_permitted_caps n)"
  using assms by (simp_all add: apply_uid_capability_transition_def Let_def)

lemma call_cred_within:
  assumes "call_cred call c = Some n" "caps_within (cr_effective_caps c) (cr_permitted_caps c)"
  shows "caps_within (cr_effective_caps n) (cr_permitted_caps n) \<and>
         caps_within (cr_permitted_caps n) (cr_permitted_caps c)"
  using assms transition_within [of _ c]
  by (cases call)
     (auto simp: setuid_cred_def setgid_cred_def setresuid_cred_def setresgid_cred_def setreuid_cred_def
        setregid_cred_def Let_def transition_within split: if_splits
        intro: transition_within(1) caps_within_trans [OF transition_within(2)])

text \<open>
  C20: Capabilities stay within the permitted ones. If the effective capabilities of a process are
  among its permitted ones, they still are after any sequence of the six calls, and the permitted
  set is within the one the process started with: no call creates a capability.
\<close>

theorem capabilities_stay_permitted:
  assumes "pr_slot pr = Some k"
    and "caps_within (cr_effective_caps (cl_cred (pl_lane (pr_store pr k))))
           (cr_permitted_caps (cl_cred (pl_lane (pr_store pr k))))"
    and "c = cl_cred (pl_lane (pr_store (cred_calls calls pr) k))"
  shows "caps_within (cr_effective_caps c) (cr_permitted_caps c) \<and>
         caps_within (cr_permitted_caps c) (cr_permitted_caps (cl_cred (pl_lane (pr_store pr k))))"
  unfolding assms(3) using assms(1, 2)
proof (induction calls arbitrary: pr)
  case (Cons x calls)
  obtain z a where x: "x = (z, a)" by fastforce
  let ?pr = "snd (cred_call z a pr)"
  have "pr_slot ?pr = Some k \<and>
      caps_within (cr_effective_caps (cl_cred (pl_lane (pr_store ?pr k))))
        (cr_permitted_caps (cl_cred (pl_lane (pr_store ?pr k)))) \<and>
      caps_within (cr_permitted_caps (cl_cred (pl_lane (pr_store ?pr k))))
        (cr_permitted_caps (cl_cred (pl_lane (pr_store pr k))))"
    using Cons.prems call_cred_within by (auto simp: cred_call_live split: option.splits)
  then show ?case
    using Cons.IH [of ?pr] caps_within_trans by (auto simp: cred_calls_def x)
qed (simp add: cred_calls_def)

section \<open>Exec\<close>

text \<open>
  What may happen to the process while an exec is prepared: credential calls, capability
  changes, other preparations, the end of other reservations and preparations (which hold other
  tokens and generations), and any change of the lifecycle that keeps the reservation of this
  exec, as \<open>Exit_Permits\<close> shows of all of them.
\<close>

inductive exec_env :: "prepared_exec_cred \<Rightarrow> process \<Rightarrow> process \<Rightarrow> bool" for xc where
  call: "exec_env xc pr (snd (cred_call zone_ok c pr))"
| capset: "exec_env xc pr (snd (step_set_capability_sets zone_ok pr effective permitted))"
| prepare: "exec_env xc pr (snd (prepare_exec_cred zone_ok file_uid file_gid file_mode policy pr))"
| release: "xr_payload xr \<noteq> xr_payload (xc_reservation xc) \<or> xr_token xr \<noteq> xr_token (xc_reservation xc)
    \<Longrightarrow> exec_env xc pr (drop_exec_cred_reservation xr pr)"
| drop: "xp_payload xp \<noteq> xp_payload (xc_process_prep xc) \<or> xp_generation xp \<noteq> xp_generation (xc_process_prep xc)
    \<Longrightarrow> exec_env xc pr (drop_exec_prep xp pr)"
| life: "exec_lifecycle_matches (f (pl_life (pr_store pr k))) (xp_generation (xc_process_prep xc))
    \<Longrightarrow> exec_env xc pr (update_life k f pr)"

text \<open>The state in which a prepared exec can be committed.\<close>

definition exec_pending :: "prepared_exec_cred \<Rightarrow> cred \<Rightarrow> process \<Rightarrow> bool" where
  "exec_pending xc prev pr \<longleftrightarrow>
     (let xp = xc_process_prep xc; xr = xc_reservation xc; k = xp_payload xp
      in xp_active xp \<and> xr_payload xr = k \<and> pr_slot pr = Some k \<and>
         exec_lifecycle_matches (pl_life (pr_store pr k)) (xp_generation xp) \<and>
         cl_exec_reservation (pl_lane (pr_store pr k)) = Some (xr_token xr) \<and>
         cl_cred (pl_lane (pr_store pr k)) = prev)"

lemma prepare_exec_cred_in_pending:
  assumes "prepare_exec_cred_in zone_ok xp file_uid file_gid file_mode policy pr = (Inr xc, pr')"
  shows "exec_pending xc (cl_cred (pl_lane (pr_store pr (xp_payload xp)))) pr'"
    and "xc_process_prep xc = xp"
    and "xc_new_cred xc = (if policy = Setid_Apply then Some (exec_new_cred file_uid file_gid file_mode policy
           (cl_cred (pl_lane (pr_store pr (xp_payload xp))))) else None)"
    and "xc_at_secure xc \<longleftrightarrow>
           cr_euid (xc_credential_snapshot xc) \<noteq> cr_euid (cl_cred (pl_lane (pr_store pr (xp_payload xp)))) \<or>
           cr_egid (xc_credential_snapshot xc) \<noteq> cr_egid (cl_cred (pl_lane (pr_store pr (xp_payload xp))))"
    and "xc_credential_snapshot xc = exec_new_cred file_uid file_gid file_mode policy
           (cl_cred (pl_lane (pr_store pr (xp_payload xp))))"
  using assms
  by (auto simp: prepare_exec_cred_in_def validate_binding_def reserve_exec_cred_def exec_pending_def
      exec_new_cred_def Let_def split: if_splits option.splits)

lemma exec_pending_blocks_prepare:
  assumes "exec_pending xc prev pr"
  shows "snd (prepare_exec_cred zone_ok file_uid file_gid file_mode policy pr) = pr"
proof -
  define k where "k = xp_payload (xc_process_prep xc)"
  have slot: "pr_slot pr = Some k"
    and busy: "lc_group_exit (pl_life (pr_store pr k)) \<noteq> None"
    using assms by (auto simp: exec_pending_def k_def Let_def exec_lifecycle_matches_def split: option.splits)
  then have "update_life k (\<lambda>_. pl_life (pr_store pr k)) pr = pr" by (simp add: update_life_def)
  then show ?thesis
    using slot busy
    by (auto simp: prepare_exec_cred_def exec_prep_begin_def reserve_exec_lifecycle_def split: list.splits)
qed

lemma exec_env_pending:
  assumes "exec_env xc pr pr'" "exec_pending xc prev pr"
  shows "exec_pending xc prev pr'"
  using assms(1)
proof cases
  case (call zone_ok c)
  then show ?thesis using assms(2) by (simp add: cred_call_live exec_pending_def Let_def)
next
  case (capset zone_ok effective permitted)
  then show ?thesis
    using assms(2)
    by (simp add: step_set_capability_sets_def with_cred_mutation_def with_unreserved_cred_mutation_def
        exec_pending_def Let_def)
next
  case (prepare zone_ok file_uid file_gid file_mode policy)
  then show ?thesis using assms(2) exec_pending_blocks_prepare [OF assms(2)] by simp
next
  case (release xr)
  then show ?thesis
    using assms(2)
    by (auto simp: drop_exec_cred_reservation_def release_exec_cred_reservation_def exec_pending_def Let_def)
next
  case (drop xp)
  then show ?thesis
    using assms(2)
    by (auto simp: drop_exec_prep_def release_exec_lifecycle_def exec_lifecycle_matches_def exec_pending_def
        Let_def split: option.splits)
next
  case (life f k)
  then show ?thesis
    using assms(2) by (auto simp: exec_pending_def Let_def)
qed

lemma commit_pending:
  assumes "exec_pending xc prev pr"
  shows "\<exists>pr'. commit_prepared_exec_cred xc pr
           = Some (Inr \<lparr>xo_at_secure = xc_at_secure xc, xo_previous_cred = prev\<rparr>, pr') \<and>
         cl_cred (pl_lane (pr_store pr' (xp_payload (xc_process_prep xc)))) = case_option prev id (xc_new_cred xc) \<and>
         cl_exec_reservation (pl_lane (pr_store pr' (xp_payload (xc_process_prep xc)))) = None \<and>
         lc_group_exit (pl_life (pr_store pr' (xp_payload (xc_process_prep xc)))) = None"
  using assms
  by (auto simp: exec_pending_def commit_prepared_exec_cred_def validate_binding_def
      commit_exec_cred_reservation_def replace_cred_def release_exec_lifecycle_def Let_def
      split: option.splits)

text \<open>
  C19: The credential change of an exec is atomic. Once an exec is prepared, credential calls,
  capability changes and other execs can run in any number and order: the commit succeeds
  without tripping its assertion, reports the credential of the moment of the preparation as the
  previous one, installs the credential computed from it, and frees the lane and the lifecycle.
  The program is told to be secure exactly when the effective user or group changes.
\<close>

theorem exec_credential_change_is_atomic:
  assumes "prepare_exec_cred_in zone_ok xp file_uid file_gid file_mode policy pr = (Inr xc, pr1)"
    and "(exec_env xc)\<^sup>*\<^sup>* pr1 pr2"
  shows "\<exists>pr3 prev new. prev = cl_cred (pl_lane (pr_store pr (xp_payload xp))) \<and>
           new = exec_new_cred file_uid file_gid file_mode policy prev \<and>
           commit_prepared_exec_cred xc pr2 =
             Some (Inr \<lparr>xo_at_secure = (cr_euid new \<noteq> cr_euid prev \<or> cr_egid new \<noteq> cr_egid prev),
                        xo_previous_cred = prev\<rparr>, pr3) \<and>
           cl_cred (pl_lane (pr_store pr3 (xp_payload xp))) = new \<and>
           cl_exec_reservation (pl_lane (pr_store pr3 (xp_payload xp))) = None \<and>
           lc_group_exit (pl_life (pr_store pr3 (xp_payload xp))) = None"
proof -
  define prev where "prev = cl_cred (pl_lane (pr_store pr (xp_payload xp)))"
  note prepared = prepare_exec_cred_in_pending [OF assms(1), folded prev_def]
  have "exec_pending xc prev pr2"
    using assms(2) prepared(1) by (induction rule: rtranclp_induct) (auto intro: exec_env_pending)
  moreover have "exec_new_cred file_uid file_gid file_mode policy prev = prev" if "policy \<noteq> Setid_Apply"
    using that by (simp add: exec_new_cred_def exec_setuid_def exec_setgid_def)
  ultimately show ?thesis
    using commit_pending [of xc prev pr2] prepared(2-5) by (auto simp: prev_def)
qed

text \<open>
  C21: A preparation that fails leaves nothing behind: whatever the reason (no such process, an
  exec or exit in progress, no memory), the credential, the reservation of the lane, the episode
  and the roster of every payload are what they were.
\<close>

theorem failed_exec_preparation_rolls_back:
  assumes "prepare_exec_cred zone_ok file_uid file_gid file_mode policy pr = (Inl e, pr')"
  shows "e \<in> {ESRCH, EAGAIN, ENOMEM} \<and> pr_slot pr' = pr_slot pr \<and>
         (\<forall>k. cl_cred (pl_lane (pr_store pr' k)) = cl_cred (pl_lane (pr_store pr k)) \<and>
              cl_exec_reservation (pl_lane (pr_store pr' k)) = cl_exec_reservation (pl_lane (pr_store pr k)) \<and>
              lc_group_exit (pl_life (pr_store pr' k)) = lc_group_exit (pl_life (pr_store pr k)) \<and>
              lc_threads (pl_life (pr_store pr' k)) = lc_threads (pl_life (pr_store pr k)))"
  using assms
  by (auto simp: prepare_exec_cred_def exec_prep_begin_def reserve_exec_lifecycle_def exec_prep_errno_def
      prepare_exec_cred_in_def validate_binding_def exec_lifecycle_matches_def reserve_exec_cred_def
      drop_exec_prep_def drop_exec_cred_reservation_def release_exec_cred_reservation_def
      release_exec_lifecycle_def Let_def
      split: option.splits list.splits if_splits)

section \<open>A concrete process\<close>

text \<open>The first process: root, one thread, nothing reserved.\<close>

definition init_process :: process where
  "init_process =
     \<lparr>pr_slot = Some 0,
      pr_store = (\<lambda>_. \<lparr>pl_lane = cred_lane_new cred_root,
        pl_life = \<lparr>lc_group_exit = None, lc_next_generation = 0, lc_threads = [1], lc_thread_count = 1\<rparr>\<rparr>)\<rparr>"


theorem capabilities_stay_permitted_witness:
  "\<exists>c. c = cl_cred (pl_lane (pr_store (cred_calls
          [(True, Setresuid (Some 5) (Some 5) None), (True, Setuid 0)] init_process) 0)) \<and>
     caps_within (cr_effective_caps c) (cr_permitted_caps c)"
proof -
  have "pr_slot init_process = Some 0"
    "caps_within (cr_effective_caps (cl_cred (pl_lane (pr_store init_process 0))))
       (cr_permitted_caps (cl_cred (pl_lane (pr_store init_process 0))))"
    by (simp_all add: init_process_def cred_lane_new_def cred_root_def)
  from capabilities_stay_permitted [OF this refl] show ?thesis by simp
qed

text \<open>A set-user-ID program of user 1000, prepared; then a \<open>setuid\<close> call and the commit.\<close>

theorem exec_credential_change_is_atomic_witness:
  "\<exists>xp pr xc pr1 pr3 outcome. exec_prep_begin init_process 1 = (Inr xp, pr) \<and>
     prepare_exec_cred_in True xp 1000 1000 0x9ed Setid_Apply pr = (Inr xc, pr1) \<and>
     commit_prepared_exec_cred xc (snd (cred_call True (Setuid 7) pr1)) = Some (Inr outcome, pr3) \<and>
     xo_at_secure outcome \<and> cr_euid (cl_cred (pl_lane (pr_store pr3 0))) = 1000"
proof -
  obtain xp pr where xp: "exec_prep_begin init_process 1 = (Inr xp, pr)" "xp_payload xp = 0"
    "cl_cred (pl_lane (pr_store pr 0)) = cred_root"
    by (simp add: exec_prep_begin_def init_process_def reserve_exec_lifecycle_def cred_lane_new_def)
  obtain xc pr1 where xc: "prepare_exec_cred_in True xp 1000 1000 0x9ed Setid_Apply pr = (Inr xc, pr1)"
    using xp(1)
    by (auto simp: exec_prep_begin_def init_process_def reserve_exec_lifecycle_def cred_lane_new_def
        prepare_exec_cred_in_def validate_binding_def exec_lifecycle_matches_def reserve_exec_cred_def
        update_life_def Let_def)
  have "(exec_env xc)\<^sup>*\<^sup>* pr1 (snd (cred_call True (Setuid 7) pr1))"
    by (rule r_into_rtranclp) (rule exec_env.call)
  from exec_credential_change_is_atomic [OF xc this]
  obtain pr3 where pr3: "commit_prepared_exec_cred xc (snd (cred_call True (Setuid 7) pr1)) =
      Some (Inr \<lparr>xo_at_secure = True, xo_previous_cred = cred_root\<rparr>, pr3)"
    "cl_cred (pl_lane (pr_store pr3 0)) = exec_new_cred 1000 1000 0x9ed Setid_Apply cred_root"
    by (auto simp: xp(2, 3) exec_new_cred_def exec_setuid_def exec_setgid_def S_ISUID_def S_ISGID_def cred_root_def)
  have "cr_euid (cl_cred (pl_lane (pr_store pr3 0))) = 1000"
    using pr3(2) by (simp add: exec_new_cred_def exec_setuid_def exec_setgid_def S_ISUID_def S_ISGID_def)
  then show ?thesis using xp(1) xc pr3(1) by fastforce
qed

theorem failed_exec_preparation_rolls_back_witness:
  "\<exists>pr'. prepare_exec_cred False 1000 1000 0x9ed Setid_Apply init_process = (Inl ENOMEM, pr') \<and>
     cl_exec_reservation (pl_lane (pr_store pr' 0)) = None \<and> lc_group_exit (pl_life (pr_store pr' 0)) = None"
proof -
  obtain pr' where pr': "prepare_exec_cred False 1000 1000 0x9ed Setid_Apply init_process = (Inl ENOMEM, pr')"
    by (simp add: prepare_exec_cred_def exec_prep_begin_def init_process_def reserve_exec_lifecycle_def
        cred_lane_new_def prepare_exec_cred_in_def validate_binding_def exec_lifecycle_matches_def
        reserve_exec_cred_def Let_def)
  have "cl_exec_reservation (pl_lane (pr_store init_process 0)) = None"
    "lc_group_exit (pl_life (pr_store init_process 0)) = None"
    by (simp_all add: init_process_def cred_lane_new_def)
  then show ?thesis using failed_exec_preparation_rolls_back [OF pr'] pr' by auto
qed

end
