(* ===== verification/Cred_Checks.thy ===== *)
theory Cred_Checks
  imports Cred_Security
begin

text \<open>
  Authorization: the discretionary access checks on inodes
  (\<open>tx-subsystems/src/vfs/predicates.rs\<close>), the \<open>require_\<close> and \<open>authorize_\<close> surface over
  them and the signal permission (\<open>tx-subsystems/src/cred/checks.rs\<close> and \<open>cred/mod.rs\<close>).

  The witnesses that the
  \<open>require_\<close> functions return are proofs without content, here the unit value; the epoch
  guards that they are tied to have no effect on the decision.
\<close>

section \<open>Inputs\<close>

datatype inode_kind = Regular | Directory | Symlink | CharDevice | BlockDevice | Fifo | Socket

definition S_IFMT :: u16 where "S_IFMT = 0xf000"
definition S_IFREG :: u16 where "S_IFREG = 0x8000"
definition S_IFDIR :: u16 where "S_IFDIR = 0x4000"
definition S_IFLNK :: u16 where "S_IFLNK = 0xa000"
definition S_IFCHR :: u16 where "S_IFCHR = 0x2000"
definition S_IFBLK :: u16 where "S_IFBLK = 0x6000"
definition S_IFIFO :: u16 where "S_IFIFO = 0x1000"
definition S_IFSOCK :: u16 where "S_IFSOCK = 0xc000"

lemmas S_IF_defs =
  S_IFMT_def S_IFREG_def S_IFDIR_def S_IFLNK_def S_IFCHR_def S_IFBLK_def S_IFIFO_def S_IFSOCK_def

record timespec =
  ts_sec :: i64
  ts_nsec :: i32

definition EPOCH :: timespec where "EPOCH = \<lparr>ts_sec = 0, ts_nsec = 0\<rparr>"

record inode_meta =
  im_mode :: u16
  im_uid :: u32
  im_gid :: u32
  im_size :: u64
  im_atime :: timespec
  im_mtime :: timespec
  im_ctime :: timespec
  im_nlinks :: u32
  im_blocks :: u64
  im_flags :: u32

fun kind_to_ifmt :: "inode_kind \<Rightarrow> u16" where
  "kind_to_ifmt Regular = S_IFREG"
| "kind_to_ifmt Directory = S_IFDIR"
| "kind_to_ifmt Symlink = S_IFLNK"
| "kind_to_ifmt CharDevice = S_IFCHR"
| "kind_to_ifmt BlockDevice = S_IFBLK"
| "kind_to_ifmt Fifo = S_IFIFO"
| "kind_to_ifmt Socket = S_IFSOCK"

definition inode_meta_new :: "inode_kind \<Rightarrow> u16 \<Rightarrow> inode_meta" where
  "inode_meta_new k mode =
     \<lparr>im_mode = (if mode AND S_IFMT = 0 then mode OR kind_to_ifmt k else mode),
      im_uid = 0, im_gid = 0, im_size = 0, im_atime = EPOCH, im_mtime = EPOCH, im_ctime = EPOCH,
      im_nlinks = 1, im_blocks = 0, im_flags = 0\<rparr>"

definition inode_meta_kind :: "inode_meta \<Rightarrow> inode_kind" where
  "inode_meta_kind meta =
     (let fmt = im_mode meta AND S_IFMT
      in if fmt = S_IFDIR then Directory
         else if fmt = S_IFLNK then Symlink
         else if fmt = S_IFCHR then CharDevice
         else if fmt = S_IFBLK then BlockDevice
         else if fmt = S_IFIFO then Fifo
         else if fmt = S_IFSOCK then Socket
         else Regular)"

record credential =
  cd_uid :: u32
  cd_gid :: u32
  cd_effective_caps :: capability_set

definition credential_from :: "cred \<Rightarrow> credential" where
  "credential_from c =
     \<lparr>cd_uid = cr_euid c, cd_gid = cr_egid c, cd_effective_caps = cr_effective_caps c\<rparr>"

record open_file_flags =
  of_read :: bool
  of_write :: bool
  of_append :: bool
  of_cloexec :: bool
  of_nonblocking :: bool
  of_packet :: bool

section \<open>Checks on inodes\<close>

definition select_perm_triplet :: "inode_meta \<Rightarrow> credential \<Rightarrow> u32" where
  "select_perm_triplet meta c =
     (let mode = ucast (im_mode meta) :: u32
      in if cd_uid c = im_uid meta then drop_bit 6 mode AND 7
         else if cd_gid c = im_gid meta then drop_bit 3 mode AND 7
         else mode AND 7)"

definition check_descend_perm :: "inode_meta \<Rightarrow> credential \<Rightarrow> unit result" where
  "check_descend_perm meta c =
     (if caps_contains (cd_effective_caps c) CAP_DAC_OVERRIDE then Ok ()
      else if select_perm_triplet meta c AND 1 = 0 then Error EACCES
      else Ok ())"

definition check_unlink_perm :: "inode_meta \<Rightarrow> inode_meta \<Rightarrow> credential \<Rightarrow> unit result" where
  "check_unlink_perm parent_meta child_meta c =
     (if \<not> caps_contains (cd_effective_caps c) CAP_DAC_OVERRIDE \<and>
         select_perm_triplet parent_meta c AND 3 \<noteq> 3
      then Error EACCES
      else if im_mode parent_meta AND S_ISVTX \<noteq> 0 \<and>
              \<not> (cd_uid c = im_uid child_meta \<or> cd_uid c = im_uid parent_meta \<or>
                 caps_contains (cd_effective_caps c) CAP_FOWNER \<or> cd_uid c = 0)
      then Error EPERM
      else Ok ())"

definition check_link_perm :: "inode_meta \<Rightarrow> credential \<Rightarrow> unit result" where
  "check_link_perm new_parent_meta c =
     (if caps_contains (cd_effective_caps c) CAP_DAC_OVERRIDE then Ok ()
      else if select_perm_triplet new_parent_meta c AND 3 \<noteq> 3 then Error EACCES
      else Ok ())"

definition check_chmod_perm :: "inode_meta \<Rightarrow> credential \<Rightarrow> unit result" where
  "check_chmod_perm meta c =
     (if cd_uid c = im_uid meta \<or> caps_contains (cd_effective_caps c) CAP_FOWNER \<or> cd_uid c = 0
      then Ok () else Error EPERM)"

definition check_chown_perm :: "inode_meta \<Rightarrow> u32 option \<Rightarrow> u32 option \<Rightarrow> credential \<Rightarrow> unit result" where
  "check_chown_perm meta new_uid new_gid c =
     (let privileged = (caps_contains (cd_effective_caps c) CAP_FOWNER \<or> cd_uid c = 0)
      in if (case new_uid of None \<Rightarrow> False | Some u \<Rightarrow> \<not> privileged \<and> u \<noteq> cd_uid c) then Error EPERM
         else if (case new_gid of None \<Rightarrow> False | Some g \<Rightarrow> \<not> privileged \<and> g \<noteq> cd_gid c) then Error EPERM
         else Ok ())"

definition check_open_perm :: "inode_meta \<Rightarrow> open_file_flags \<Rightarrow> credential \<Rightarrow> unit result" where
  "check_open_perm meta flags c =
     (if caps_contains (cd_effective_caps c) CAP_DAC_OVERRIDE then Ok ()
      else
        let bits = select_perm_triplet meta c
        in if of_read flags \<and> bits AND 4 = 0 then Error EACCES
           else if of_write flags \<and> bits AND 2 = 0 then Error EACCES
           else Ok ())"

section \<open>Authorization surface\<close>

definition require_path_search :: "cred \<Rightarrow> inode_meta \<Rightarrow> unit result" where
  "require_path_search source meta = check_descend_perm meta (credential_from source)"

definition require_path_search_with_walker_cred :: "credential \<Rightarrow> inode_meta \<Rightarrow> unit result" where
  "require_path_search_with_walker_cred walker_cred meta = check_descend_perm meta walker_cred"

definition require_open :: "cred \<Rightarrow> inode_meta \<Rightarrow> open_file_flags \<Rightarrow> unit result" where
  "require_open source meta flags = check_open_perm meta flags (credential_from source)"

definition require_open_with_walker_cred :: "credential \<Rightarrow> inode_meta \<Rightarrow> open_file_flags \<Rightarrow> unit result" where
  "require_open_with_walker_cred walker_cred meta flags = check_open_perm meta flags walker_cred"

definition require_unlink :: "cred \<Rightarrow> inode_meta \<Rightarrow> inode_meta \<Rightarrow> unit result" where
  "require_unlink source parent_meta child_meta =
     check_unlink_perm parent_meta child_meta (credential_from source)"

definition require_link :: "cred \<Rightarrow> inode_meta \<Rightarrow> unit result" where
  "require_link source new_parent_meta = check_link_perm new_parent_meta (credential_from source)"

definition require_rename ::
    "cred \<Rightarrow> inode_meta \<Rightarrow> inode_meta \<Rightarrow> inode_meta \<Rightarrow> inode_meta option \<Rightarrow> unit result" where
  "require_rename source old_parent_meta old_child_meta new_parent_meta displaced_child =
     (let projection = credential_from source
      in and_then (check_unlink_perm old_parent_meta old_child_meta projection) (\<lambda>_.
         and_then (check_link_perm new_parent_meta projection) (\<lambda>_.
           case displaced_child of
             None \<Rightarrow> Ok ()
           | Some displaced \<Rightarrow> check_unlink_perm new_parent_meta displaced projection)))"

definition require_chmod :: "cred \<Rightarrow> inode_meta \<Rightarrow> u16 \<Rightarrow> unit result" where
  "require_chmod source target_meta new_mode = check_chmod_perm target_meta (credential_from source)"

definition require_chown :: "cred \<Rightarrow> inode_meta \<Rightarrow> u32 option \<Rightarrow> u32 option \<Rightarrow> unit result" where
  "require_chown source target_meta new_uid new_gid =
     check_chown_perm target_meta new_uid new_gid (credential_from source)"

definition authorize_path_search :: "cred \<Rightarrow> inode_meta \<Rightarrow> unit result" where
  "authorize_path_search source meta = require_path_search source meta"

definition authorize_open :: "cred \<Rightarrow> inode_meta \<Rightarrow> open_file_flags \<Rightarrow> unit result" where
  "authorize_open source meta flags = require_open source meta flags"

definition authorize_unlink :: "cred \<Rightarrow> inode_meta \<Rightarrow> inode_meta \<Rightarrow> unit result" where
  "authorize_unlink source parent_meta child_meta = require_unlink source parent_meta child_meta"

definition authorize_link :: "cred \<Rightarrow> inode_meta \<Rightarrow> unit result" where
  "authorize_link source new_parent_meta = require_link source new_parent_meta"

definition authorize_rename ::
    "cred \<Rightarrow> inode_meta \<Rightarrow> inode_meta \<Rightarrow> inode_meta \<Rightarrow> inode_meta option \<Rightarrow> unit result" where
  "authorize_rename source old_parent_meta old_child_meta new_parent_meta displaced_child =
     require_rename source old_parent_meta old_child_meta new_parent_meta displaced_child"

definition authorize_chmod :: "cred \<Rightarrow> inode_meta \<Rightarrow> u16 \<Rightarrow> unit result" where
  "authorize_chmod source target_meta new_mode = require_chmod source target_meta new_mode"

definition authorize_chown :: "cred \<Rightarrow> inode_meta \<Rightarrow> u32 option \<Rightarrow> u32 option \<Rightarrow> unit result" where
  "authorize_chown source target_meta new_uid new_gid = require_chown source target_meta new_uid new_gid"

lemmas authorize_defs =
  authorize_path_search_def authorize_open_def authorize_unlink_def authorize_link_def
  authorize_rename_def authorize_chmod_def authorize_chown_def

lemmas require_defs =
  require_path_search_def require_open_def require_unlink_def require_link_def require_rename_def
  require_chmod_def require_chown_def

section \<open>Signals\<close>










section \<open>Mode bits\<close>

text \<open>
  The reference: a caller is in the class of the owner, of the group or of the others, and an
  access is bit 2, 1 or 0 of the three bits of the class.
\<close>

datatype perm_class = Class_Owner | Class_Group | Class_Other

definition perm_class_of :: "inode_meta \<Rightarrow> credential \<Rightarrow> perm_class" where
  "perm_class_of meta c =
     (if cd_uid c = im_uid meta then Class_Owner
      else if cd_gid c = im_gid meta then Class_Group
      else Class_Other)"

definition class_offset :: "perm_class \<Rightarrow> nat" where
  "class_offset pc = (case pc of Class_Owner \<Rightarrow> 6 | Class_Group \<Rightarrow> 3 | Class_Other \<Rightarrow> 0)"

definition mode_grants :: "inode_meta \<Rightarrow> credential \<Rightarrow> nat \<Rightarrow> bool" where
  "mode_grants meta c n \<longleftrightarrow> bit (im_mode meta) (class_offset (perm_class_of meta c) + n)"

lemma triplet_bit:
  assumes "n < 3"
  shows "bit (select_perm_triplet meta c) n \<longleftrightarrow> mode_grants meta c n"
proof -
  have seven: "bit (7 :: u32) n"
    using assms by (auto simp: less_Suc_eq numeral_3_eq_3 bit_simps)
  show ?thesis
    using assms seven
    by (auto simp: select_perm_triplet_def mode_grants_def perm_class_of_def class_offset_def Let_def
        bit_simps)
qed

lemma triplet_masks:
  "select_perm_triplet meta c AND 1 = 0 \<longleftrightarrow> \<not> mode_grants meta c 0"
  "select_perm_triplet meta c AND 2 = 0 \<longleftrightarrow> \<not> mode_grants meta c 1"
  "select_perm_triplet meta c AND 4 = 0 \<longleftrightarrow> \<not> mode_grants meta c 2"
  using and_exp_eq_0_iff_not_bit [of "select_perm_triplet meta c" 0]
    and_exp_eq_0_iff_not_bit [of "select_perm_triplet meta c" 1]
    and_exp_eq_0_iff_not_bit [of "select_perm_triplet meta c" 2] triplet_bit [of 0 meta c]
    triplet_bit [of 1 meta c] triplet_bit [of 2 meta c]
  by simp_all

lemma triplet_write_search:
  "select_perm_triplet meta c AND 3 = 3 \<longleftrightarrow> mode_grants meta c 0 \<and> mode_grants meta c 1"
proof -
  have "select_perm_triplet meta c AND 3 = 3 \<longleftrightarrow>
      (\<forall>n. bit (3 :: u32) n \<longrightarrow> bit (select_perm_triplet meta c) n)"
    by (auto simp: bit_eq_iff bit_and_iff)
  also have "\<dots> \<longleftrightarrow> bit (select_perm_triplet meta c) 0 \<and> bit (select_perm_triplet meta c) 1"
    by (auto simp: bit_numeral_rec bit_simps split: nat.splits)
  finally show ?thesis using triplet_bit [of 0] triplet_bit [of 1] by simp
qed

definition requested_bits :: "open_file_flags \<Rightarrow> nat set" where
  "requested_bits flags = (if of_read flags then {2} else {}) \<union> (if of_write flags then {1} else {})"

lemmas triplet_tests = triplet_masks triplet_write_search

text \<open>
  The kind given to a new inode is the kind read back from its mode, when the requested
  mode carries no type bits; the permission bits are kept.
\<close>

lemma inode_kind_round_trip:
  assumes "mode AND S_IFMT = 0"
  shows "inode_meta_kind (inode_meta_new k mode) = k \<and>
         im_mode (inode_meta_new k mode) AND NOT S_IFMT = mode"
proof -
  have fmt: "(mode OR kind_to_ifmt k) AND S_IFMT = kind_to_ifmt k"
    using assms by (cases k) (simp_all add: bit.conj_disj_distrib2 S_IF_defs)
  have "(mode OR kind_to_ifmt k) AND NOT S_IFMT = mode AND NOT S_IFMT"
    by (cases k) (simp_all add: bit.conj_disj_distrib2 S_IF_defs)
  moreover have "mode AND NOT S_IFMT = mode"
    using assms by (metis bit.conj_disj_distrib bit.conj_one_right bit.disj_cancel_right or.left_neutral)
  ultimately show ?thesis
    using assms fmt
    by (cases k) (simp_all add: inode_meta_kind_def inode_meta_new_def Let_def, simp_all add: S_IF_defs)
qed

section \<open>What the checks decide\<close>

text \<open>
  C22: Opening, searching and adding a name are decided by the mode bits of one class alone: with
  the capability to override they are granted; without it, exactly when the class of the caller
  (the owner's if the effective user owns the inode, else the group's if the effective group is
  the inode's, else the others') has the read and write bits that the open requests, the search
  bit, or both the write and the search bit. Every refusal is \<open>EACCES\<close>.
\<close>

theorem access_follows_one_class:
  fixes c :: cred and meta :: inode_meta
  defines "override \<equiv> caps_contains (cr_effective_caps c) CAP_DAC_OVERRIDE"
    and "granted \<equiv> {n. bit (im_mode meta) (class_offset (perm_class_of meta (credential_from c)) + n)}"
  shows "authorize_open c meta flags =
           (if override \<or> requested_bits flags \<subseteq> granted then Ok () else Error EACCES) \<and>
         authorize_path_search c meta = (if override \<or> {0} \<subseteq> granted then Ok () else Error EACCES) \<and>
         authorize_link c meta = (if override \<or> {0, 1} \<subseteq> granted then Ok () else Error EACCES)"
  unfolding override_def granted_def
  by (auto simp: authorize_defs require_defs check_open_perm_def check_descend_perm_def check_link_perm_def
      triplet_tests requested_bits_def mode_grants_def Let_def credential_from_def)

text \<open>
  C23: In a sticky directory a caller that owns neither the entry nor the directory and is
  neither root nor able to act as owner can remove the entry in no way: not by unlinking it, not
  by renaming it away to any directory, and not by renaming another entry over it. The override
  capability does not help.
\<close>

theorem sticky_directory_protects_entries:
  assumes "im_mode dir AND S_ISVTX \<noteq> 0"
    and "cr_euid c \<noteq> im_uid entry" "cr_euid c \<noteq> im_uid dir" "cr_euid c \<noteq> 0"
    and "\<not> caps_contains (cr_effective_caps c) CAP_FOWNER"
  shows "authorize_unlink c dir entry \<in> {Error EPERM, Error EACCES} \<and>
         authorize_rename c dir entry elsewhere displaced \<in> {Error EPERM, Error EACCES} \<and>
         authorize_rename c from other dir (Some entry) \<in> {Error EPERM, Error EACCES} \<and>
         (caps_contains (cr_effective_caps c) CAP_DAC_OVERRIDE \<longrightarrow> authorize_unlink c dir entry = Error EPERM)"
proof -
  have "check_unlink_perm dir entry (credential_from c) =
      (if caps_contains (cr_effective_caps c) CAP_DAC_OVERRIDE \<or>
          select_perm_triplet dir (credential_from c) AND 3 = 3 then Error EPERM else Error EACCES)"
    using assms by (auto simp: check_unlink_perm_def credential_from_def)
  then show ?thesis
    by (auto simp: authorize_defs require_defs Let_def check_link_perm_def check_unlink_perm_def
        split: sum.splits if_splits)
qed


section \<open>Instances\<close>

definition sample_tmp :: inode_meta where
  "sample_tmp = inode_meta_new Directory 0x3ff"

definition sample_user :: cred where
  "sample_user = cred_root\<lparr>cr_uid := 1000, cr_euid := 1000, cr_suid := 1000, cr_gid := 100, cr_egid := 100,
     cr_sgid := 100, cr_permitted_caps := caps_empty, cr_effective_caps := caps_empty\<rparr>"

theorem sticky_directory_protects_entries_witness:
  "authorize_unlink sample_user sample_tmp ((inode_meta_new Regular 0x1a4)\<lparr>im_uid := 1001\<rparr>)
     \<in> {Error EPERM, Error EACCES}"
proof -
  have *: "im_mode sample_tmp AND S_ISVTX \<noteq> 0" "im_uid sample_tmp = 0"
    "cr_euid sample_user = 1000" "\<not> caps_contains (cr_effective_caps sample_user) CAP_FOWNER"
    by (simp_all add: sample_tmp_def sample_user_def inode_meta_new_def S_IF_defs S_ISVTX_def
        caps_contains_def caps_empty_def)
  show ?thesis
    using sticky_directory_protects_entries [of sample_tmp sample_user
        "(inode_meta_new Regular 0x1a4)\<lparr>im_uid := 1001\<rparr>" sample_tmp None sample_tmp sample_tmp] *
    by simp
qed



end
