(* ===== verification/Ipc_Common.thy ===== *)
theory Ipc_Common
  imports Cred_Checks "HOL-Library.List_Lexorder"
begin

text \<open>
  What the four IPC subsystems share (\<open>tx-subsystems/src/ipc\<close> and \<open>process/nsproxy.rs\<close>): the
  permission bits, the constants, the limits and the namespace with its tables from keys to
  objects. The three System V kinds repeat the same permission checks and two of them the same
  registry; their contracts are the locales at the end, interpreted in the theory of each kind.

  An object behind a \<open>Cap\<close> is an element of a list that only grows; a capability is its
  position, so that two tables that hold clones of a capability share the object.
\<close>

type_synonym addr = nat
type_synonym sysv_key = u32
type_synonym posix_mq_name = "u8 list"

section \<open>Permission bits\<close>

record ipc_perm =
  ip_mode :: u16

definition ipc_perm_new :: "u16 \<Rightarrow> ipc_perm" where
  "ipc_perm_new mode = \<lparr>ip_mode = mode AND 0x1ff\<rparr>"

definition owner_read :: "ipc_perm \<Rightarrow> bool" where "owner_read p \<longleftrightarrow> ip_mode p AND 0x100 \<noteq> 0"
definition owner_write :: "ipc_perm \<Rightarrow> bool" where "owner_write p \<longleftrightarrow> ip_mode p AND 0x80 \<noteq> 0"
definition group_read :: "ipc_perm \<Rightarrow> bool" where "group_read p \<longleftrightarrow> ip_mode p AND 0x20 \<noteq> 0"
definition group_write :: "ipc_perm \<Rightarrow> bool" where "group_write p \<longleftrightarrow> ip_mode p AND 0x10 \<noteq> 0"
definition other_read :: "ipc_perm \<Rightarrow> bool" where "other_read p \<longleftrightarrow> ip_mode p AND 4 \<noteq> 0"
definition other_write :: "ipc_perm \<Rightarrow> bool" where "other_write p \<longleftrightarrow> ip_mode p AND 2 \<noteq> 0"

lemmas ipc_perm_defs =
  owner_read_def owner_write_def group_read_def group_write_def other_read_def other_write_def

section \<open>Constants\<close>

definition IPC_CREAT :: i32 where "IPC_CREAT = 0x200"
definition IPC_EXCL :: i32 where "IPC_EXCL = 0x400"
definition IPC_PRIVATE :: i32 where "IPC_PRIVATE = 0"
definition IPC_RMID :: i32 where "IPC_RMID = 0"
definition IPC_SET :: i32 where "IPC_SET = 1"
definition IPC_STAT :: i32 where "IPC_STAT = 2"
definition IPC_INFO :: i32 where "IPC_INFO = 3"
definition IPC_NOWAIT :: i32 where "IPC_NOWAIT = 0x800"

lemmas ipc_consts =
  IPC_CREAT_def IPC_EXCL_def IPC_PRIVATE_def IPC_RMID_def IPC_SET_def IPC_STAT_def IPC_INFO_def IPC_NOWAIT_def

text \<open>\<open>int_flag x m\<close> is the test \<open>x & m != 0\<close> on signed integers.\<close>

definition int_flag :: "int \<Rightarrow> int \<Rightarrow> bool" where
  "int_flag x m \<longleftrightarrow> x AND m \<noteq> 0"

definition ipc_key_of :: "i32 \<Rightarrow> sysv_key option" where
  "ipc_key_of key = (if key = IPC_PRIVATE then None else Some (word_of_int key))"

definition key_raw :: "sysv_key option \<Rightarrow> i32" where
  "key_raw key = (case key of None \<Rightarrow> 0 | Some k \<Rightarrow> sint k)"

definition perm_of_flags :: "i32 \<Rightarrow> ipc_perm" where
  "perm_of_flags flags = ipc_perm_new (word_of_int (flags AND 0x1ff))"

section \<open>Limits and namespaces\<close>

record ipc_limits =
  il_semmni :: u32
  il_semmns :: u32
  il_semmsl :: u32
  il_semopm :: u32
  il_shmmni :: u32
  il_shmmax :: u64
  il_shmmin :: u64
  il_msgmni :: u32
  il_msgmax :: u32
  il_msgmnb :: u32
  il_mq_queues_max :: u32
  il_mq_msgsize_max :: u32
  il_mq_maxmsg :: u32

definition ipc_limits_default :: ipc_limits where
  "ipc_limits_default =
     \<lparr>il_semmni = 32000, il_semmns = 1024000000, il_semmsl = 32000, il_semopm = 500, il_shmmni = 4096,
      il_shmmax = - 1, il_shmmin = 1, il_msgmni = 32000, il_msgmax = 8192, il_msgmnb = 16384,
      il_mq_queues_max = 256, il_mq_msgsize_max = 8192, il_mq_maxmsg = 10\<rparr>"

record ipc_namespace =
  ns_sysv_sem :: "(sysv_key, addr) btree"
  ns_sysv_shm :: "(sysv_key, addr) btree"
  ns_sysv_msg :: "(sysv_key, addr) btree"
  ns_posix_mq :: "(posix_mq_name, addr) btree"
  ns_limits :: ipc_limits
  ns_next_private_id :: u32

definition ipc_namespace_with_limits :: "ipc_limits \<Rightarrow> ipc_namespace" where
  "ipc_namespace_with_limits limits =
     \<lparr>ns_sysv_sem = [], ns_sysv_shm = [], ns_sysv_msg = [], ns_posix_mq = [], ns_limits = limits,
      ns_next_private_id = 0\<rparr>"

definition ipc_namespace_default :: ipc_namespace where
  "ipc_namespace_default = ipc_namespace_with_limits ipc_limits_default"

definition alloc_private_key :: "ipc_namespace \<Rightarrow> sysv_key \<times> ipc_namespace" where
  "alloc_private_key ns =
     (ns_next_private_id ns OR 0x80000000, ns\<lparr>ns_next_private_id := ns_next_private_id ns + 1\<rparr>)"

section \<open>The permission contract\<close>

text \<open>
  The class of a caller: owner or creator, their groups, others; its read bit is bit 2 of the
  three bits from the offset on, its write bit is bit 1.
\<close>

definition ipc_class :: "u32 \<Rightarrow> u32 \<Rightarrow> u32 \<Rightarrow> u32 \<Rightarrow> cred \<Rightarrow> nat" where
  "ipc_class own grp cre cgrp c =
     (if cr_euid c = own \<or> cr_euid c = cre then 6
      else if cr_egid c = grp \<or> cr_egid c = cgrp then 3
      else 0)"

lemma ipc_perm_bits:
  "owner_read (ipc_perm_new m) \<longleftrightarrow> bit m 8" "owner_write (ipc_perm_new m) \<longleftrightarrow> bit m 7"
  "group_read (ipc_perm_new m) \<longleftrightarrow> bit m 5" "group_write (ipc_perm_new m) \<longleftrightarrow> bit m 4"
  "other_read (ipc_perm_new m) \<longleftrightarrow> bit m 2" "other_write (ipc_perm_new m) \<longleftrightarrow> bit m 1"
proof -
  have mask: "(m AND 0x1ff) AND 2 ^ n = 0 \<longleftrightarrow> \<not> bit m n" if "n < 9" for n
    using that and_exp_eq_0_iff_not_bit [of "m AND 0x1ff" n]
    by (auto simp: bit_and_iff less_Suc_eq eval_nat_numeral)
  show "owner_read (ipc_perm_new m) \<longleftrightarrow> bit m 8" "owner_write (ipc_perm_new m) \<longleftrightarrow> bit m 7"
    "group_read (ipc_perm_new m) \<longleftrightarrow> bit m 5" "group_write (ipc_perm_new m) \<longleftrightarrow> bit m 4"
    "other_read (ipc_perm_new m) \<longleftrightarrow> bit m 2" "other_write (ipc_perm_new m) \<longleftrightarrow> bit m 1"
    using mask [of 8] mask [of 7] mask [of 5] mask [of 4] mask [of 2] mask [of 1]
    by (simp_all add: ipc_perm_defs ipc_perm_new_def)
qed

locale ipc_object =
  fixes own grp cre cgrp :: "'a \<Rightarrow> u32"
    and mode :: "'a \<Rightarrow> u16"
    and can_read can_write manages :: "'a \<Rightarrow> cred \<Rightarrow> unit result"
  assumes read_bit: "can_read x c =
      (if cr_euid c = 0 \<or> bit (mode x) (ipc_class (own x) (grp x) (cre x) (cgrp x) c + 2)
       then Ok () else Error EACCES)"
    and write_bit: "can_write x c =
      (if cr_euid c = 0 \<or> bit (mode x) (ipc_class (own x) (grp x) (cre x) (cgrp x) c + 1)
       then Ok () else Error EACCES)"
    and manages_owner: "manages x c =
      (if cr_euid c \<in> {0, own x, cre x} then Ok () else Error EPERM)"
begin

text \<open>Whoever may not manage an object is in neither of its owners' classes.\<close>

lemma outsider_class:
  "manages x c = Error EPERM \<Longrightarrow>
     cr_euid c \<noteq> 0 \<and> ipc_class (own x) (grp x) (cre x) (cgrp x) c \<in> {0, 3}"
  by (auto simp: manages_owner ipc_class_def split: if_splits)

text \<open>Clearing the bits of group and others keeps every outsider out, whatever its groups.\<close>

lemma private_object:
  assumes "mode x AND 0x3f = 0" "manages x c = Error EPERM"
  shows "can_read x c = Error EACCES" "can_write x c = Error EACCES"
proof -
  have low: "\<not> bit (mode x) n" if "n < 6" for n
  proof -
    have "bit (mode x AND 0x3f) n \<longleftrightarrow> bit (mode x) n"
      using that by (auto simp: bit_and_iff less_Suc_eq eval_nat_numeral)
    then show ?thesis using assms(1) by simp
  qed
  show "can_read x c = Error EACCES" "can_write x c = Error EACCES"
    using outsider_class [OF assms(2)] low [of 2] low [of 5] low [of 1] low [of 4]
    by (auto simp: read_bit write_bit numeral_eq_Suc)
qed

end

section \<open>The registry contract\<close>

text \<open>
  Semaphores and message queues keep the identifiers of removed objects apart from those never
  handed out.
\<close>

locale ipc_registry =
  fixes lookup :: "'s \<Rightarrow> u32 \<Rightarrow> addr option"
    and was_removed :: "'s \<Rightarrow> u32 \<Rightarrow> bool"
    and withdraw :: "u32 \<Rightarrow> 's \<Rightarrow> addr option \<times> 's"
    and require_exists :: "'s \<Rightarrow> u32 \<Rightarrow> addr result"
  assumes withdraw_result: "fst (withdraw i s) = lookup s i"
    and lookup_withdraw: "lookup (snd (withdraw i s)) j = (if i = j then None else lookup s j)"
    and removed_withdraw: "was_removed (snd (withdraw i s)) j \<longleftrightarrow>
          was_removed s j \<or> (i = j \<and> lookup s i \<noteq> None)"
    and exists_lookup: "require_exists s i =
          (case lookup s i of Some a \<Rightarrow> Ok a | None \<Rightarrow> Error (if was_removed s i then EIDRM else EINVAL))"
begin

lemma withdrawn_is_gone:
  "lookup s i \<noteq> None \<Longrightarrow> require_exists (snd (withdraw i s)) i = Error EIDRM"
  by (simp add: exists_lookup lookup_withdraw removed_withdraw)

lemma others_unaffected:
  "i \<noteq> j \<Longrightarrow> require_exists (snd (withdraw i s)) j = require_exists s j"
  by (simp add: exists_lookup lookup_withdraw removed_withdraw)

end

end
