(* ===== verification/Sysv_Sem.thy ===== *)
theory Sysv_Sem
  imports Ipc_Common
begin

text \<open>
  System V semaphores (\<open>tx-subsystems/src/ipc/sysv_sem\<close>): arrays, the registry, the permission
  checks, \<open>semget\<close>, \<open>semop\<close>, \<open>semctl\<close> and the adjustments that an exiting process undoes. The
  lock of an array's values is held through each operation on them, so an operation is one step.
  A notification of the waiters of an array is an entry of a log of notified sources; indexing
  out of range is a panic, the value \<^term>\<open>None\<close>.
\<close>

section \<open>State\<close>

record sem_value =
  sv_val :: i16
  sv_last_pid :: u32

record sem_buf =
  sb_sem_num :: u16
  sb_sem_op :: i16
  sb_sem_flg :: i16

definition FLG_NOWAIT :: i16 where "FLG_NOWAIT = 0x800"
definition SEM_UNDO :: i16 where "SEM_UNDO = 0x1000"

record sem_undo =
  su_semid :: u32
  su_adjustments :: "i16 list"

record sem_payload =
  sp_values :: "sem_value list"
  sp_changed_seq :: u64
  sp_changed_source_id :: u64

record sem_array =
  sa_key :: "sysv_key option"
  sa_semid :: u32
  sa_cred :: cred
  sa_nsems :: u16
  sa_mode :: u16
  sa_uid :: u32
  sa_gid :: u32
  sa_cuid :: u32
  sa_cgid :: u32
  sa_destroyed :: bool
  sa_payload :: "sem_payload option"

record sem_sys =
  sy_arrays :: "sem_array list"
  sy_table :: "(u32, addr) btree"
  sy_removed :: "u32 list"
  sy_next_semid :: u32
  sy_next_source :: u64
  sy_posts :: "(u64 \<times> u64) list"

text \<open>The part of a process that \<open>semop\<close> uses; a zombie has no undo list.\<close>

record sem_proc =
  sq_pid :: u32
  sq_undos :: "(u32, sem_undo) btree option"

abbreviation sem_at :: "sem_sys \<Rightarrow> addr \<Rightarrow> sem_array" where
  "sem_at s a \<equiv> sy_arrays s ! a"

definition update_sem :: "addr \<Rightarrow> (sem_array \<Rightarrow> sem_array) \<Rightarrow> sem_sys \<Rightarrow> sem_sys" where
  "update_sem a f s = s\<lparr>sy_arrays := (sy_arrays s)[a := f (sem_at s a)]\<rparr>"

definition sem_perm :: "sem_array \<Rightarrow> ipc_perm" where
  "sem_perm x = ipc_perm_new (sa_mode x)"

section \<open>Notification\<close>

definition SEM_CHANGED :: u64 where "SEM_CHANGED = 1"

definition sem_wait_for_change :: "sem_payload \<Rightarrow> nat step_outcome" where
  "sem_wait_for_change p = yield_on_wait_source (sp_changed_source_id p) SEM_CHANGED"

definition sem_notify_changed :: "sem_payload \<Rightarrow> sem_sys \<Rightarrow> sem_sys" where
  "sem_notify_changed p s = s\<lparr>sy_posts := sy_posts s @ [(sp_changed_source_id p, SEM_CHANGED)]\<rparr>"

text \<open>Storing new values, counting the change and waking the waiters.\<close>

definition sem_publish :: "addr \<Rightarrow> sem_payload \<Rightarrow> sem_value list \<Rightarrow> sem_sys \<Rightarrow> sem_sys" where
  "sem_publish a p values s =
     sem_notify_changed p
       (update_sem a (\<lambda>x. x\<lparr>sa_payload :=
          Some (p\<lparr>sp_values := values, sp_changed_seq := sp_changed_seq p + 1\<rparr>)\<rparr>) s)"

section \<open>Registry\<close>

definition lookup_sem :: "sem_sys \<Rightarrow> u32 \<Rightarrow> addr option" where
  "lookup_sem s semid = bt_get (sy_table s) semid"

definition was_sem_removed :: "sem_sys \<Rightarrow> u32 \<Rightarrow> bool" where
  "was_sem_removed s semid \<longleftrightarrow> semid \<in> set (sy_removed s)"

definition register_sem ::
    "bool \<Rightarrow> sysv_key option \<Rightarrow> cred \<Rightarrow> u16 \<Rightarrow> ipc_perm \<Rightarrow> u32 \<Rightarrow> u32 \<Rightarrow> sem_sys \<Rightarrow> addr option \<times> sem_sys" where
  "register_sem zone_ok key c nsems perm cuid cgid s =
     (let semid = sy_next_semid s;
          source = sy_next_source s;
          s = s\<lparr>sy_next_semid := semid + 1, sy_next_source := source + 1\<rparr>;
          a = length (sy_arrays s)
      in if \<not> zone_ok then (None, s)
         else
           (Some a,
            s\<lparr>sy_arrays := sy_arrays s @
                [\<lparr>sa_key = key, sa_semid = semid, sa_cred = c, sa_nsems = nsems, sa_mode = ip_mode perm,
                  sa_uid = cuid, sa_gid = cgid, sa_cuid = cuid, sa_cgid = cgid, sa_destroyed = False,
                  sa_payload = Some \<lparr>sp_values = replicate (unat nsems) \<lparr>sv_val = 0, sv_last_pid = 0\<rparr>,
                    sp_changed_seq = 0, sp_changed_source_id = source\<rparr>\<rparr>],
              sy_table := bt_insert semid a (sy_table s)\<rparr>))"

definition withdraw_sem :: "u32 \<Rightarrow> sem_sys \<Rightarrow> addr option \<times> sem_sys" where
  "withdraw_sem semid s =
     (case bt_get (sy_table s) semid of
        None \<Rightarrow> (None, s)
      | Some a \<Rightarrow> (Some a, s\<lparr>sy_table := bt_remove semid (sy_table s), sy_removed := sy_removed s @ [semid]\<rparr>))"

definition all_sem_arrays :: "sem_sys \<Rightarrow> sem_array list" where
  "all_sem_arrays s = map (sem_at s) (bt_values (sy_table s))"

section \<open>Checks\<close>

definition require_can_read_sem :: "sem_array \<Rightarrow> cred \<Rightarrow> unit result" where
  "require_can_read_sem x c =
     (if cr_euid c = 0 then Ok ()
      else if cr_euid c = sa_uid x \<or> cr_euid c = sa_cuid x
      then (if owner_read (sem_perm x) then Ok () else Error EACCES)
      else if cr_egid c = sa_gid x \<or> cr_egid c = sa_cgid x
      then (if group_read (sem_perm x) then Ok () else Error EACCES)
      else if other_read (sem_perm x) then Ok () else Error EACCES)"

definition require_can_write_sem :: "sem_array \<Rightarrow> cred \<Rightarrow> unit result" where
  "require_can_write_sem x c =
     (if cr_euid c = 0 then Ok ()
      else if cr_euid c = sa_uid x \<or> cr_euid c = sa_cuid x
      then (if owner_write (sem_perm x) then Ok () else Error EACCES)
      else if cr_egid c = sa_gid x \<or> cr_egid c = sa_cgid x
      then (if group_write (sem_perm x) then Ok () else Error EACCES)
      else if other_write (sem_perm x) then Ok () else Error EACCES)"

definition sem_require_owner_or_admin :: "sem_array \<Rightarrow> cred \<Rightarrow> unit result" where
  "sem_require_owner_or_admin x c =
     (if cr_euid c = 0 \<or> cr_euid c = sa_uid x \<or> cr_euid c = sa_cuid x then Ok () else Error EPERM)"

definition require_sem_exists :: "sem_sys \<Rightarrow> u32 \<Rightarrow> addr result" where
  "require_sem_exists s semid =
     ok_or (lookup_sem s semid) (if was_sem_removed s semid then EIDRM else EINVAL)"

interpretation sem_obj: ipc_object sa_uid sa_gid sa_cuid sa_cgid sa_mode
  require_can_read_sem require_can_write_sem sem_require_owner_or_admin
  by unfold_locales
    (auto simp: require_can_read_sem_def require_can_write_sem_def sem_require_owner_or_admin_def
      ipc_class_def sem_perm_def ipc_perm_bits numeral_eq_Suc)

interpretation sem_reg: ipc_registry lookup_sem was_sem_removed withdraw_sem require_sem_exists
  by unfold_locales
    (auto simp: lookup_sem_def was_sem_removed_def withdraw_sem_def require_sem_exists_def split: option.splits)

section \<open>semget\<close>

definition step_semget ::
    "bool \<Rightarrow> i32 \<Rightarrow> u16 \<Rightarrow> i32 \<Rightarrow> cred \<Rightarrow> ipc_namespace \<Rightarrow> sem_sys \<Rightarrow> u32 result \<times> ipc_namespace \<times> sem_sys" where
  "step_semget zone_ok key nsems semflg c ns s =
     (let ipc_key = ipc_key_of key;
          create = int_flag semflg IPC_CREAT;
          exclusive = int_flag semflg IPC_EXCL;
          perm = perm_of_flags semflg
      in if nsems = 0 \<or> ucast (il_semmsl (ns_limits ns)) < nsems then (Error EINVAL, ns, s)
         else
           (case Option.bind ipc_key (bt_get (ns_sysv_sem ns)) of
              Some a \<Rightarrow>
                let x = sem_at s a
                in if exclusive then (Error EEXIST, ns, s)
                   else if sa_nsems x < nsems then (Error EINVAL, ns, s)
                   else (and_then (require_can_read_sem x c) (\<lambda>_. Ok (sa_semid x)), ns, s)
            | None \<Rightarrow>
                if \<not> create \<and> ipc_key \<noteq> None then (Error ENOENT, ns, s)
                else
                  (case register_sem zone_ok ipc_key c nsems perm (cr_euid c) (cr_egid c) s of
                     (None, s) \<Rightarrow> (Error ENOMEM, ns, s)
                   | (Some a, s) \<Rightarrow>
                       (Ok (sa_semid (sem_at s a)),
                        (case ipc_key of
                           None \<Rightarrow> ns
                         | Some k \<Rightarrow> ns\<lparr>ns_sysv_sem := bt_insert k a (ns_sysv_sem ns)\<rparr>),
                        s))))"

section \<open>semop\<close>

text \<open>Whether some operation would have to wait; each is tested against the current values.\<close>

fun sem_would_block :: "sem_value list \<Rightarrow> sem_buf list \<Rightarrow> bool option" where
  "sem_would_block values [] = Some False"
| "sem_would_block values (b # bs) =
     do {
       v \<leftarrow> idx values (unat (sb_sem_num b));
       if sb_sem_op b = 0 then (if sv_val v \<noteq> 0 then Some True else sem_would_block values bs)
       else if sb_sem_op b < 0 \<and> sv_val v < wrap_i16 (- sb_sem_op b) then Some True
       else sem_would_block values bs
     }"

definition sem_new_val :: "i16 \<Rightarrow> i16 \<Rightarrow> i16" where
  "sem_new_val v sem_op =
     (if 0 < sem_op then sat_i16 (v + sem_op)
      else if sem_op < 0 then sat_i16 (v - wrap_i16 (- sem_op))
      else v)"

text \<open>The loop that applies the operations and collects the adjustments to undo.\<close>

fun sem_apply_ops ::
    "u32 \<Rightarrow> sem_buf list \<Rightarrow> sem_value list \<Rightarrow> i16 list \<Rightarrow> bool \<Rightarrow> (sem_value list \<times> i16 list \<times> bool) option" where
  "sem_apply_ops pid [] values undo has_undo = Some (values, undo, has_undo)"
| "sem_apply_ops pid (b # bs) values undo has_undo =
     do {
       let n = unat (sb_sem_num b);
       v \<leftarrow> idx values n;
       let values = values[n := \<lparr>sv_val = sem_new_val (sv_val v) (sb_sem_op b), sv_last_pid = pid\<rparr>];
       if int_flag (sb_sem_flg b) SEM_UNDO
       then do {
         u \<leftarrow> idx undo n;
         sem_apply_ops pid bs values (undo[n := wrap_i16 (u - sb_sem_op b)]) True
       }
       else sem_apply_ops pid bs values undo has_undo
     }"

definition merge_adjustments :: "i16 list \<Rightarrow> i16 list \<Rightarrow> i16 list" where
  "merge_adjustments old new =
     map (\<lambda>i. if i < length new \<and> new ! i \<noteq> 0 then wrap_i16 (old ! i + new ! i) else old ! i) [0..<length old]"

definition record_sem_undo :: "u32 \<Rightarrow> i16 list \<Rightarrow> (u32, sem_undo) btree \<Rightarrow> (u32, sem_undo) btree" where
  "record_sem_undo semid adjustments undos =
     (case bt_get undos semid of
        Some u \<Rightarrow> bt_insert semid (u\<lparr>su_adjustments := merge_adjustments (su_adjustments u) adjustments\<rparr>) undos
      | None \<Rightarrow> bt_insert semid \<lparr>su_semid = semid, su_adjustments = adjustments\<rparr> undos)"

definition drain_sem_undos :: "sem_proc \<Rightarrow> (u32, sem_undo) btree \<times> sem_proc" where
  "drain_sem_undos q = (case sq_undos q of None \<Rightarrow> ([], q) | Some undos \<Rightarrow> (undos, q\<lparr>sq_undos := Some []\<rparr>))"

text \<open>
  The section under the lock of the values. The values are stored before the undo list of the
  process is looked up: without one the operation fails with the values changed.
\<close>

definition semop_locked ::
    "u32 \<Rightarrow> sem_buf list \<Rightarrow> addr \<Rightarrow> sem_payload \<Rightarrow> sem_proc \<Rightarrow> sem_sys
     \<Rightarrow> (nat step_outcome \<times> sem_proc \<times> sem_sys) option" where
  "semop_locked semid sops a p q s =
     (if \<exists>b \<in> set sops. sa_nsems (sem_at s a) \<le> sb_sem_num b then Some (Err EFBIG, q, s)
      else do {
        would_block \<leftarrow> sem_would_block (sp_values p) sops;
        if would_block
        then Some (if \<exists>b \<in> set sops. int_flag (sb_sem_flg b) FLG_NOWAIT then Err EAGAIN
                   else sem_wait_for_change p, q, s)
        else do {
          (values, undo, has_undo) \<leftarrow>
            sem_apply_ops (sq_pid q) sops (sp_values p) (replicate (unat (sa_nsems (sem_at s a))) 0) False;
          case (has_undo, sq_undos q) of
            (True, None) \<Rightarrow>
              Some (Err ESRCH, q, update_sem a (\<lambda>x. x\<lparr>sa_payload := Some (p\<lparr>sp_values := values\<rparr>)\<rparr>) s)
          | (True, Some undos) \<Rightarrow>
              Some (Done (length sops), q\<lparr>sq_undos := Some (record_sem_undo semid undo undos)\<rparr>,
                    sem_publish a p values s)
          | (False, _) \<Rightarrow> Some (Done (length sops), q, sem_publish a p values s)
        }
      })"

definition step_semop_v3 ::
    "u32 \<Rightarrow> sem_buf list \<Rightarrow> cred \<Rightarrow> sem_proc \<Rightarrow> sem_sys \<Rightarrow> (nat step_outcome \<times> sem_proc \<times> sem_sys) option" where
  "step_semop_v3 semid sops c q s =
     (if sops = [] then Some (Err EINVAL, q, s)
      else
        (case require_sem_exists s semid of
           Inl e \<Rightarrow> Some (Err e, q, s)
         | Inr a \<Rightarrow>
             if sa_destroyed (sem_at s a) then Some (Err EIDRM, q, s)
             else
               (case require_can_write_sem (sem_at s a) c of
                  Inl e \<Rightarrow> Some (Err e, q, s)
                | Inr _ \<Rightarrow>
                    (case sa_payload (sem_at s a) of
                       None \<Rightarrow> Some (Err EIDRM, q, s)
                     | Some p \<Rightarrow> semop_locked semid sops a p q s))))"

definition step_semop ::
    "u32 \<Rightarrow> sem_buf list \<Rightarrow> cred \<Rightarrow> sem_proc \<Rightarrow> sem_sys \<Rightarrow> (nat result \<times> sem_proc \<times> sem_sys) option" where
  "step_semop semid sops c q s =
     map_option (\<lambda>(r, q, s). (outcome_result r, q, s)) (step_semop_v3 semid sops c q s)"

section \<open>semctl\<close>

definition SEM_STAT :: i32 where "SEM_STAT = 18"
definition GETALL :: i32 where "GETALL = 13"
definition GETNCNT :: i32 where "GETNCNT = 14"
definition GETPID :: i32 where "GETPID = 11"
definition GETVAL :: i32 where "GETVAL = 12"
definition GETZCNT :: i32 where "GETZCNT = 15"
definition SETALL :: i32 where "SETALL = 17"
definition SETVAL :: i32 where "SETVAL = 16"
definition SEM_INFO :: i32 where "SEM_INFO = 19"
definition SEM_STAT_ANY :: i32 where "SEM_STAT_ANY = 20"

lemmas semctl_consts =
  SEM_STAT_def GETALL_def GETNCNT_def GETPID_def GETVAL_def GETZCNT_def SETALL_def SETVAL_def
  SEM_INFO_def SEM_STAT_ANY_def IPC_RMID_def IPC_SET_def IPC_STAT_def IPC_INFO_def

record sem_info =
  si_key :: i32
  si_semid :: u32
  si_nsems :: u16
  si_uid :: u32
  si_gid :: u32
  si_cuid :: u32
  si_cgid :: u32
  si_perm :: ipc_perm

datatype sem_ctl_arg = Arg_None | Arg_Val i32 | Arg_All "u16 list" | Arg_IpcSet u16 u32 u32

datatype sem_ctl_result =
    Sem_Success
  | Sem_Val i32
  | Sem_All "u16 list"
  | Sem_Stat sem_info
  | Sem_Info u64 u64 u64 u64 u64 u64

definition sem_remove :: "u32 \<Rightarrow> sem_sys \<Rightarrow> sem_sys" where
  "sem_remove semid s =
     (case withdraw_sem semid s of
        (None, s) \<Rightarrow> s
      | (Some a, s) \<Rightarrow>
          (let s = update_sem a (\<lambda>x. x\<lparr>sa_destroyed := True\<rparr>) s
           in case sa_payload (sem_at s a) of
                None \<Rightarrow> s
              | Some p \<Rightarrow> sem_publish a p (sp_values p) s))"

definition sem_info_of :: "sem_array \<Rightarrow> sem_info" where
  "sem_info_of x =
     \<lparr>si_key = key_raw (sa_key x), si_semid = sa_semid x, si_nsems = sa_nsems x, si_uid = sa_uid x,
      si_gid = sa_gid x, si_cuid = sa_cuid x, si_cgid = sa_cgid x, si_perm = sem_perm x\<rparr>"

definition store_pid :: "u32 option \<Rightarrow> sem_value \<Rightarrow> sem_value" where
  "store_pid pid v = (case pid of None \<Rightarrow> v | Some p \<Rightarrow> v\<lparr>sv_last_pid := p\<rparr>)"

definition sem_setval :: "addr \<Rightarrow> u16 \<Rightarrow> i32 \<Rightarrow> u32 option \<Rightarrow> sem_sys \<Rightarrow> (sem_ctl_result result \<times> sem_sys) option" where
  "sem_setval a semnum setval pid s =
     (case sa_payload (sem_at s a) of
        None \<Rightarrow> Some (Error EIDRM, s)
      | Some p \<Rightarrow>
          do {
            v \<leftarrow> idx (sp_values p) (unat semnum);
            Some (Ok Sem_Success,
              sem_publish a p
                ((sp_values p)[unat semnum := store_pid pid (v\<lparr>sv_val := wrap_i16 setval\<rparr>)]) s)
          })"

definition sem_setall :: "addr \<Rightarrow> u16 list \<Rightarrow> u32 option \<Rightarrow> sem_sys \<Rightarrow> sem_ctl_result result \<times> sem_sys" where
  "sem_setall a set_values pid s =
     (case sa_payload (sem_at s a) of
        None \<Rightarrow> (Error EIDRM, s)
      | Some p \<Rightarrow>
          (Ok Sem_Success,
           sem_publish a p
             (map (\<lambda>(slot, w). store_pid pid (slot\<lparr>sv_val := sint w\<rparr>)) (zip (sp_values p) set_values)
               @ drop (length set_values) (sp_values p)) s))"

text \<open>Reading under the payload: \<open>f\<close> is what is read from the values.\<close>

definition sem_read :: "addr \<Rightarrow> (sem_value list \<Rightarrow> sem_ctl_result option) \<Rightarrow> sem_sys
    \<Rightarrow> (sem_ctl_result result \<times> sem_sys) option" where
  "sem_read a f s =
     (case sa_payload (sem_at s a) of
        None \<Rightarrow> Some (Error EIDRM, s)
      | Some p \<Rightarrow> map_option (\<lambda>r. (Ok r, s)) (f (sp_values p)))"

definition sem_info_counts :: "i32 \<Rightarrow> sem_sys \<Rightarrow> u64 \<times> u64" where
  "sem_info_counts cmd s =
     (if cmd = SEM_INFO
      then (of_nat (length (all_sem_arrays s)), sum_list (map (\<lambda>x. ucast (sa_nsems x)) (all_sem_arrays s)))
      else (20, 32767))"

text \<open>The guards of a command: the array exists and the check on it passes.\<close>

definition with_sem :: "u32 \<Rightarrow> (sem_array \<Rightarrow> cred \<Rightarrow> unit result) \<Rightarrow> cred
    \<Rightarrow> (addr \<Rightarrow> (sem_ctl_result result \<times> sem_sys) option) \<Rightarrow> sem_sys \<Rightarrow> (sem_ctl_result result \<times> sem_sys) option" where
  "with_sem semid check c f s =
     (case require_sem_exists s semid of
        Inl e \<Rightarrow> Some (Error e, s)
      | Inr a \<Rightarrow>
          (case check (sem_at s a) c of
             Inl e \<Rightarrow> Some (Error e, s)
           | Inr _ \<Rightarrow> f a))"

definition step_semctl ::
    "u32 \<Rightarrow> u16 \<Rightarrow> i32 \<Rightarrow> sem_ctl_arg \<Rightarrow> cred \<Rightarrow> u32 option \<Rightarrow> sem_sys
     \<Rightarrow> (sem_ctl_result result \<times> sem_sys) option" where
  "step_semctl semid semnum cmd arg c pid s =
     (if cmd = IPC_RMID then
        with_sem semid sem_require_owner_or_admin c (\<lambda>a. Some (Ok Sem_Success, sem_remove semid s)) s
      else if cmd = IPC_SET then
        with_sem semid sem_require_owner_or_admin c (\<lambda>a.
          case arg of
            Arg_IpcSet mode uid gid \<Rightarrow>
              Some (Ok Sem_Success,
                update_sem a (\<lambda>x. x\<lparr>sa_mode := mode AND 0x1ff, sa_uid := uid, sa_gid := gid\<rparr>) s)
          | _ \<Rightarrow> Some (Error EINVAL, s)) s
      else if cmd = IPC_STAT \<or> cmd = SEM_STAT \<or> cmd = SEM_STAT_ANY then
        with_sem semid require_can_read_sem c (\<lambda>a. Some (Ok (Sem_Stat (sem_info_of (sem_at s a))), s)) s
      else if cmd = GETVAL then
        with_sem semid require_can_read_sem c (\<lambda>a.
          if sa_nsems (sem_at s a) \<le> semnum then Some (Error EINVAL, s)
          else sem_read a (\<lambda>values. map_option (\<lambda>v. Sem_Val (sv_val v)) (idx values (unat semnum))) s) s
      else if cmd = SETVAL then
        with_sem semid require_can_write_sem c (\<lambda>a.
          if sa_nsems (sem_at s a) \<le> semnum then Some (Error EINVAL, s)
          else (case arg of
                  Arg_Val setval \<Rightarrow>
                    if setval < 0 \<or> 32767 < setval then Some (Error ERANGE, s)
                    else sem_setval a semnum setval pid s
                | _ \<Rightarrow> Some (Error EINVAL, s))) s
      else if cmd = GETALL then
        with_sem semid require_can_read_sem c
          (\<lambda>a. sem_read a (\<lambda>values. Some (Sem_All (map (\<lambda>v. word_of_int (sv_val v)) values))) s) s
      else if cmd = SETALL then
        with_sem semid require_can_write_sem c (\<lambda>a.
          case arg of
            Arg_All set_values \<Rightarrow>
              if length set_values \<noteq> unat (sa_nsems (sem_at s a)) \<or> (\<exists>w \<in> set set_values. 32767 < w)
              then Some (Error ERANGE, s)
              else Some (sem_setall a set_values pid s)
          | _ \<Rightarrow> Some (Error EINVAL, s)) s
      else if cmd = GETPID then
        with_sem semid require_can_read_sem c (\<lambda>a.
          if sa_nsems (sem_at s a) \<le> semnum then Some (Error EINVAL, s)
          else sem_read a (\<lambda>values. map_option (\<lambda>v. Sem_Val (sint (sv_last_pid v))) (idx values (unat semnum))) s) s
      else if cmd = GETNCNT \<or> cmd = GETZCNT then Some (Ok (Sem_Val 0), s)
      else if cmd = IPC_INFO \<or> cmd = SEM_INFO then
        (case sem_info_counts cmd s of
           (semusz, semaem) \<Rightarrow> Some (Ok (Sem_Info 32000 1024000000 32000 500 semusz semaem), s))
      else Some (Error EINVAL, s))"

definition step_semctl_in_ns ::
    "u32 \<Rightarrow> u16 \<Rightarrow> i32 \<Rightarrow> sem_ctl_arg \<Rightarrow> cred \<Rightarrow> ipc_namespace \<Rightarrow> u32 option \<Rightarrow> sem_sys
     \<Rightarrow> (sem_ctl_result result \<times> ipc_namespace \<times> sem_sys) option" where
  "step_semctl_in_ns semid semnum cmd arg c ns pid s =
     (let ctl = \<lambda>key.
            do {
              (r, s) \<leftarrow> step_semctl semid semnum cmd arg c pid s;
              Some (r,
                (case (r, key) of
                   (Inr _, Some k) \<Rightarrow>
                     if map_option (\<lambda>a. sa_semid (sem_at s a)) (bt_get (ns_sysv_sem ns) k) = Some semid
                     then ns\<lparr>ns_sysv_sem := bt_remove k (ns_sysv_sem ns)\<rparr>
                     else ns
                 | _ \<Rightarrow> ns), s)
            }
      in if cmd = IPC_RMID
         then (case require_sem_exists s semid of
                 Inl e \<Rightarrow> Some (Error e, ns, s)
               | Inr a \<Rightarrow> ctl (sa_key (sem_at s a)))
         else ctl None)"

section \<open>Undo at exit\<close>

definition sem_undo_values :: "i16 list \<Rightarrow> sem_value list \<Rightarrow> sem_value list" where
  "sem_undo_values adjustments values =
     map (\<lambda>i. if i < length adjustments \<and> adjustments ! i \<noteq> 0
              then (values ! i)\<lparr>sv_val := wrap_i16 (sv_val (values ! i) + adjustments ! i)\<rparr>
              else values ! i) [0..<length values]"

definition sem_undo_one :: "sem_undo \<Rightarrow> sem_sys \<Rightarrow> sem_sys" where
  "sem_undo_one u s =
     (case lookup_sem s (su_semid u) of
        None \<Rightarrow> s
      | Some a \<Rightarrow>
          (case sa_payload (sem_at s a) of
             None \<Rightarrow> s
           | Some p \<Rightarrow> sem_publish a p (sem_undo_values (su_adjustments u) (sp_values p)) s))"

definition step_sem_undo :: "sem_proc \<Rightarrow> sem_sys \<Rightarrow> sem_proc \<times> sem_sys" where
  "step_sem_undo q s =
     (case sq_undos q of
        None \<Rightarrow> (q, s)
      | Some _ \<Rightarrow> (case drain_sem_undos q of (undos, q) \<Rightarrow> (q, fold sem_undo_one (bt_values undos) s)))"

section \<open>Projection\<close>

record sysvipc_sem_row =
  rs_key :: i32
  rs_semid :: u32
  rs_mode :: u16
  rs_nsems :: u16
  rs_uid :: u32
  rs_gid :: u32
  rs_cuid :: u32
  rs_cgid :: u32

definition project_sysvipc_sem :: "sem_sys \<Rightarrow> sysvipc_sem_row list" where
  "project_sysvipc_sem s =
     sort_key rs_semid
       (map (\<lambda>x. \<lparr>rs_key = key_raw (sa_key x), rs_semid = sa_semid x, rs_mode = ip_mode (sem_perm x),
                  rs_nsems = sa_nsems x, rs_uid = sa_uid x, rs_gid = sa_gid x, rs_cuid = sa_cuid x,
                  rs_cgid = sa_cgid x\<rparr>) (all_sem_arrays s))"

end
