(* ===== verification/Sem_Ops.thy ===== *)
theory Sem_Ops
  imports Sysv_Sem
begin

text \<open>
  What semaphores promise: the invariant of the registry, atomic operation arrays, woken waiters,
  removed identifiers that stay removed, and adjustments that are undone at exit.
\<close>

section \<open>Invariant\<close>

definition sem_array_ok :: "sem_array \<Rightarrow> bool" where
  "sem_array_ok x \<longleftrightarrow>
     (\<exists>p. sa_payload x = Some p \<and> length (sp_values p) = unat (sa_nsems x) \<and>
          (\<forall>v \<in> set (sp_values p). i16_range (sv_val v)))"

definition sem_ok :: "sem_sys \<Rightarrow> bool" where
  "sem_ok s \<longleftrightarrow>
     bt_ok (sy_table s) \<and>
     (\<forall>i a. bt_get (sy_table s) i = Some a \<longrightarrow>
        a < length (sy_arrays s) \<and> sa_semid (sem_at s a) = i \<and> \<not> sa_destroyed (sem_at s a)) \<and>
     (\<forall>x \<in> set (sy_arrays s). sem_array_ok x \<and> sa_semid x < sy_next_semid s) \<and>
     (\<forall>i \<in> set (sy_removed s). bt_get (sy_table s) i = None \<and> i < sy_next_semid s)"

lemma sem_okD:
  assumes "sem_ok s" "lookup_sem s i = Some a"
  shows "a < length (sy_arrays s)" "sa_semid (sem_at s a) = i" "\<not> sa_destroyed (sem_at s a)"
    and "sem_array_ok (sem_at s a)"
  using assms by (auto simp: sem_ok_def lookup_sem_def)

lemma sem_payloadE:
  assumes "sem_ok s" "lookup_sem s i = Some a"
  obtains p where "sa_payload (sem_at s a) = Some p" "length (sp_values p) = unat (sa_nsems (sem_at s a))"
    "\<And>j. j < length (sp_values p) \<Longrightarrow> i16_range (sv_val (sp_values p ! j))"
  using sem_okD(4) [OF assms] by (auto simp: sem_array_ok_def)

text \<open>Updating an array in place keeps the invariant when the array stays well formed.\<close>

lemma sem_ok_update:
  assumes "sem_ok s" "a < length (sy_arrays s)"
    and "sem_array_ok (f (sem_at s a))" "sa_semid (f (sem_at s a)) = sa_semid (sem_at s a)"
    and "bt_get (sy_table s) (sa_semid (sem_at s a)) = Some a \<Longrightarrow> \<not> sa_destroyed (f (sem_at s a))"
  shows "sem_ok (update_sem a f s)"
proof -
  have sub: "x \<in> set ((sy_arrays s)[a := f (sem_at s a)]) \<Longrightarrow> x = f (sem_at s a) \<or> x \<in> set (sy_arrays s)" for x
    using set_update_subset_insert by fastforce
  have "sa_semid (sem_at s a) < sy_next_semid s"
    using assms(1,2) by (auto simp: sem_ok_def)
  then have "\<forall>x \<in> set ((sy_arrays s)[a := f (sem_at s a)]). sem_array_ok x \<and> sa_semid x < sy_next_semid s"
    using sub assms unfolding sem_ok_def by metis
  then show ?thesis
    using assms unfolding sem_ok_def update_sem_def
    by (auto simp: nth_list_update)
qed

lemma sem_at_update [simp]:
  "a < length (sy_arrays s) \<Longrightarrow> sem_at (update_sem a f s) b = (if b = a then f (sem_at s a) else sem_at s b)"
  by (simp add: update_sem_def nth_list_update)

lemma update_sem_simps [simp]:
  "length (sy_arrays (update_sem a f s)) = length (sy_arrays s)"
  "sy_table (update_sem a f s) = sy_table s" "sy_removed (update_sem a f s) = sy_removed s"
  "sy_next_semid (update_sem a f s) = sy_next_semid s" "sy_posts (update_sem a f s) = sy_posts s"
  by (simp_all add: update_sem_def)

lemma sem_publish_simps [simp]:
  "length (sy_arrays (sem_publish a p vs s)) = length (sy_arrays s)"
  "sy_table (sem_publish a p vs s) = sy_table s" "sy_removed (sem_publish a p vs s) = sy_removed s"
  "sy_next_semid (sem_publish a p vs s) = sy_next_semid s"
  "sy_posts (sem_publish a p vs s) = sy_posts s @ [(sp_changed_source_id p, SEM_CHANGED)]"
  by (simp_all add: sem_publish_def sem_notify_changed_def)

lemma sem_at_publish [simp]:
  "a < length (sy_arrays s) \<Longrightarrow>
     sem_at (sem_publish a p vs s) b =
       (if b = a then (sem_at s a)\<lparr>sa_payload := Some (p\<lparr>sp_values := vs, sp_changed_seq := sp_changed_seq p + 1\<rparr>)\<rparr>
        else sem_at s b)"
  by (simp add: sem_publish_def sem_notify_changed_def update_sem_def nth_list_update)

lemma sem_ok_notify [simp]: "sem_ok (sem_notify_changed p s) = sem_ok s"
  by (simp add: sem_ok_def sem_notify_changed_def)

lemma sem_ok_publish:
  assumes "sem_ok s" "lookup_sem s i = Some a" "length vs = unat (sa_nsems (sem_at s a))"
    and "\<forall>v \<in> set vs. i16_range (sv_val v)"
  shows "sem_ok (sem_publish a p vs s)"
  unfolding sem_publish_def sem_ok_notify
  using assms sem_okD [OF assms(1,2)]
  by (intro sem_ok_update) (auto simp: sem_array_ok_def)

section \<open>Operation arrays\<close>

text \<open>The value of one semaphore after an array, and the adjustment collected for it.\<close>

fun sem_val_after :: "sem_buf list \<Rightarrow> nat \<Rightarrow> i16 \<Rightarrow> i16" where
  "sem_val_after [] i v = v"
| "sem_val_after (b # bs) i v =
     sem_val_after bs i (if unat (sb_sem_num b) = i then sem_new_val v (sb_sem_op b) else v)"

fun sem_undo_after :: "sem_buf list \<Rightarrow> nat \<Rightarrow> i16 \<Rightarrow> i16" where
  "sem_undo_after [] i u = u"
| "sem_undo_after (b # bs) i u =
     sem_undo_after bs i
       (if unat (sb_sem_num b) = i \<and> int_flag (sb_sem_flg b) SEM_UNDO then wrap_i16 (u - sb_sem_op b) else u)"

lemma sem_apply_ops_result:
  assumes "\<forall>b \<in> set bs. unat (sb_sem_num b) < length vals" "length undo = length vals"
  obtains vals' undo' where
    "sem_apply_ops pid bs vals undo h =
       Some (vals', undo', h \<or> (\<exists>b \<in> set bs. int_flag (sb_sem_flg b) SEM_UNDO))"
    "length vals' = length vals" "length undo' = length vals"
    "\<And>i. i < length vals \<Longrightarrow> sv_val (vals' ! i) = sem_val_after bs i (sv_val (vals ! i))"
    "\<And>i. i < length vals \<Longrightarrow> undo' ! i = sem_undo_after bs i (undo ! i)"
proof -
  have "\<exists>vals' undo'.
    sem_apply_ops pid bs vals undo h =
       Some (vals', undo', h \<or> (\<exists>b \<in> set bs. int_flag (sb_sem_flg b) SEM_UNDO)) \<and>
    length vals' = length vals \<and> length undo' = length vals \<and>
    (\<forall>i < length vals. sv_val (vals' ! i) = sem_val_after bs i (sv_val (vals ! i)) \<and>
       undo' ! i = sem_undo_after bs i (undo ! i))"
    using assms
  proof (induction bs arbitrary: vals undo h)
    case (Cons b bs)
    let ?n = "unat (sb_sem_num b)"
    let ?vs = "vals[?n := \<lparr>sv_val = sem_new_val (sv_val (vals ! ?n)) (sb_sem_op b), sv_last_pid = pid\<rparr>]"
    let ?us = "if int_flag (sb_sem_flg b) SEM_UNDO then undo[?n := wrap_i16 (undo ! ?n - sb_sem_op b)] else undo"
    have n: "?n < length vals" using Cons.prems by simp
    have step: "sem_apply_ops pid (b # bs) vals undo h =
        sem_apply_ops pid bs ?vs ?us (h \<or> int_flag (sb_sem_flg b) SEM_UNDO)"
      using n Cons.prems(2) by (auto simp: Let_def)
    show ?case
      unfolding step
      using Cons.IH [of ?vs ?us "h \<or> int_flag (sb_sem_flg b) SEM_UNDO"] Cons.prems n
      by (fastforce simp: nth_list_update)
  qed simp
  then show ?thesis using that by blast
qed

definition op_blocks :: "sem_buf \<Rightarrow> i16 \<Rightarrow> bool" where
  "op_blocks b v \<longleftrightarrow>
     (if sb_sem_op b = 0 then v \<noteq> 0 else sb_sem_op b < 0 \<and> v < wrap_i16 (- sb_sem_op b))"

lemma sem_would_block_result:
  "\<forall>b \<in> set bs. unat (sb_sem_num b) < length vals \<Longrightarrow>
     sem_would_block vals bs =
       Some (\<exists>b \<in> set bs. op_blocks b (sv_val (vals ! unat (sb_sem_num b))))"
  by (induction bs) (auto simp: op_blocks_def)

text \<open>An array that touches every semaphore at most once.\<close>

lemma sem_val_after_untouched:
  "\<forall>b \<in> set bs. unat (sb_sem_num b) \<noteq> i \<Longrightarrow> sem_val_after bs i v = v"
  by (induction bs arbitrary: v) auto

lemma sem_val_after_once:
  assumes "distinct (map sb_sem_num bs)" "b \<in> set bs"
  shows "sem_val_after bs (unat (sb_sem_num b)) v = sem_new_val v (sb_sem_op b)"
  using assms
proof (induction bs arbitrary: v)
  case (Cons c bs)
  show ?case
  proof (cases "c = b")
    case True
    then have "sb_sem_num b \<notin> sb_sem_num ` set bs"
      using Cons.prems(1) by simp
    then have "\<forall>b' \<in> set bs. unat (sb_sem_num b') \<noteq> unat (sb_sem_num b)"
      by (metis image_eqI word_unat_eq_iff)
    then show ?thesis using True by (simp add: sem_val_after_untouched)
  next
    case False
    then have "sb_sem_num c \<notin> sb_sem_num ` set bs" "b \<in> set bs"
      using Cons.prems by auto
    then have "unat (sb_sem_num c) \<noteq> unat (sb_sem_num b)"
      by (metis image_eqI word_unat_eq_iff)
    then show ?thesis using Cons False by simp
  qed
qed simp

lemma sem_new_val_unblocked:
  assumes "0 \<le> v" "v \<le> 32767" "- 32768 < sb_sem_op b" "sb_sem_op b \<le> 32767" "\<not> op_blocks b v"
  shows "sem_new_val v (sb_sem_op b) = min 32767 (v + sb_sem_op b)" "0 \<le> v + sb_sem_op b"
proof -
  have "wrap_i16 (- sb_sem_op b) = - sb_sem_op b"
    using assms by (intro wrap_i16_id) (auto simp: i16_range_def)
  then show "sem_new_val v (sb_sem_op b) = min 32767 (v + sb_sem_op b)" "0 \<le> v + sb_sem_op b"
    using assms by (auto simp: sem_new_val_def sat_i16_def op_blocks_def split: if_splits)
qed

text \<open>The three outcomes, given the values and adjustments that the loop computes.\<close>

definition semop_effect ::
    "u32 \<Rightarrow> sem_buf list \<Rightarrow> addr \<Rightarrow> sem_payload \<Rightarrow> sem_proc \<Rightarrow> sem_sys \<Rightarrow> sem_value list \<Rightarrow> i16 list
     \<Rightarrow> (nat step_outcome \<times> sem_proc \<times> sem_sys) option" where
  "semop_effect semid sops a p q s vals undo =
       (if \<exists>b \<in> set sops. op_blocks b (sv_val (sp_values p ! unat (sb_sem_num b)))
        then Some (if \<exists>b \<in> set sops. int_flag (sb_sem_flg b) FLG_NOWAIT then Err EAGAIN
                   else sem_wait_for_change p, q, s)
        else case (\<exists>b \<in> set sops. int_flag (sb_sem_flg b) SEM_UNDO, sq_undos q) of
            (True, None) \<Rightarrow>
              Some (Err ESRCH, q, update_sem a (\<lambda>x. x\<lparr>sa_payload := Some (p\<lparr>sp_values := vals\<rparr>)\<rparr>) s)
          | (True, Some undos) \<Rightarrow>
              Some (Done (length sops), q\<lparr>sq_undos := Some (record_sem_undo semid undo undos)\<rparr>,
                    sem_publish a p vals s)
          | (False, _) \<Rightarrow> Some (Done (length sops), q, sem_publish a p vals s))"

text \<open>The outcome of an operation on an array that the caller may write.\<close>

lemma semop_result:
  assumes "sem_ok s" "lookup_sem s semid = Some a" "require_can_write_sem (sem_at s a) c = Ok ()"
    and "sops \<noteq> []" "\<forall>b \<in> set sops. sb_sem_num b < sa_nsems (sem_at s a)" "sa_payload (sem_at s a) = Some p"
  obtains vals undo where
    "step_semop_v3 semid sops c q s =
       semop_effect semid sops a p q s vals undo"
    "length vals = length (sp_values p)" "length undo = length (sp_values p)"
    "\<And>i. i < length (sp_values p) \<Longrightarrow> sv_val (vals ! i) = sem_val_after sops i (sv_val (sp_values p ! i))"
    "\<And>i. i < length (sp_values p) \<Longrightarrow> undo ! i = sem_undo_after sops i 0"
proof -
  have len: "length (sp_values p) = unat (sa_nsems (sem_at s a))"
    using sem_okD(4) [OF assms(1,2)] assms(6) by (auto simp: sem_array_ok_def)
  then have rng: "\<forall>b \<in> set sops. unat (sb_sem_num b) < length (sp_values p)"
    using assms(5) by (simp add: word_less_nat_alt)
  obtain vals undo where r: "sem_apply_ops (sq_pid q) sops (sp_values p) (replicate (length (sp_values p)) 0) False
        = Some (vals, undo, \<exists>b \<in> set sops. int_flag (sb_sem_flg b) SEM_UNDO)"
    and l: "length vals = length (sp_values p)" "length undo = length (sp_values p)"
    and v: "\<And>i. i < length (sp_values p) \<Longrightarrow> sv_val (vals ! i) = sem_val_after sops i (sv_val (sp_values p ! i))"
    and u: "\<And>i. i < length (sp_values p) \<Longrightarrow> undo ! i = sem_undo_after sops i (replicate (length (sp_values p)) 0 ! i)"
    using sem_apply_ops_result [OF rng, of "replicate (length (sp_values p)) 0" "sq_pid q" False] by auto
  have exists: "require_sem_exists s semid = Ok a"
    using assms(2) by (simp add: sem_reg.exists_lookup)
  have "step_semop_v3 semid sops c q s = semop_locked semid sops a p q s"
    using assms exists sem_okD(3) [OF assms(1,2)] by (simp add: step_semop_v3_def)
  also have "\<dots> = semop_effect semid sops a p q s vals undo"
    using assms(5) len r
    by (auto simp: semop_effect_def semop_locked_def sem_would_block_result [OF rng] linorder_not_le [symmetric])
  finally show ?thesis using that [OF _ l v] u by simp
qed

end
