(* ===== verification/Sem_Calls.thy ===== *)
theory Sem_Calls
  imports Sem_Ops
begin

text \<open>
  Every call on semaphores, in any order: no call panics, the state stays well formed, waiters
  hear of every change, and a removed identifier stays removed.
\<close>

section \<open>All calls\<close>

datatype sem_call =
    Call_semget bool i32 u16 i32 cred
  | Call_semop u32 "sem_buf list" cred sem_proc
  | Call_semctl u32 u16 i32 sem_ctl_arg cred "u32 option"
  | Call_exit sem_proc

fun sem_call_step :: "sem_call \<Rightarrow> ipc_namespace \<times> sem_sys \<Rightarrow> (ipc_namespace \<times> sem_sys) option" where
  "sem_call_step (Call_semget zone_ok key nsems semflg c) (ns, s) = Some (snd (step_semget zone_ok key nsems semflg c ns s))"
| "sem_call_step (Call_semop semid sops c q) (ns, s) =
     map_option (\<lambda>(r, q, s). (ns, s)) (step_semop_v3 semid sops c q s)"
| "sem_call_step (Call_semctl semid semnum cmd arg c pid) (ns, s) =
     map_option snd (step_semctl_in_ns semid semnum cmd arg c ns pid s)"
| "sem_call_step (Call_exit q) (ns, s) = Some (ns, snd (step_sem_undo q s))"

fun sem_run :: "sem_call list \<Rightarrow> ipc_namespace \<times> sem_sys \<Rightarrow> (ipc_namespace \<times> sem_sys) option" where
  "sem_run [] st = Some st"
| "sem_run (call # calls) st = Option.bind (sem_call_step call st) (sem_run calls)"

fun live_caller :: "sem_call \<Rightarrow> bool" where
  "live_caller (Call_semop semid sops c q) \<longleftrightarrow> sq_undos q \<noteq> None"
| "live_caller _ \<longleftrightarrow> True"

definition sem_ns_ok :: "ipc_namespace \<Rightarrow> sem_sys \<Rightarrow> bool" where
  "sem_ns_ok ns s \<longleftrightarrow> (\<forall>k a. bt_get (ns_sysv_sem ns) k = Some a \<longrightarrow> a < length (sy_arrays s))"

text \<open>
  How a call may change the state: arrays are only added and keep their wait source, removed
  identifiers stay removed, the log only grows, and for every array whose values or mark of
  removal changed the log has a notification of its waiters.
\<close>

definition sem_source :: "sem_array \<Rightarrow> u64 option" where
  "sem_source x = map_option sp_changed_source_id (sa_payload x)"

definition sem_view :: "sem_array \<Rightarrow> sem_value list option \<times> bool" where
  "sem_view x = (map_option sp_values (sa_payload x), sa_destroyed x)"

definition sem_evolves :: "sem_sys \<Rightarrow> sem_sys \<Rightarrow> bool" where
  "sem_evolves s s' \<longleftrightarrow>
     length (sy_arrays s) \<le> length (sy_arrays s') \<and> set (sy_removed s) \<subseteq> set (sy_removed s') \<and>
     (\<exists>l. sy_posts s' = sy_posts s @ l \<and>
       (\<forall>a < length (sy_arrays s).
          sem_source (sem_at s' a) = sem_source (sem_at s a) \<and>
          (sem_view (sem_at s' a) \<noteq> sem_view (sem_at s a) \<longrightarrow>
             (\<exists>src. sem_source (sem_at s a) = Some src \<and> (src, SEM_CHANGED) \<in> set l))))"

lemma sem_evolves_refl [simp]: "sem_evolves s s"
  by (simp add: sem_evolves_def)

lemma sem_evolves_trans:
  assumes "sem_evolves s t" "sem_evolves t u"
  shows "sem_evolves s u"
proof -
  obtain l where l: "sy_posts t = sy_posts s @ l" and
    l1: "\<And>a. a < length (sy_arrays s) \<Longrightarrow> sem_source (sem_at t a) = sem_source (sem_at s a)" and
    l2: "\<And>a. \<lbrakk>a < length (sy_arrays s); sem_view (sem_at t a) \<noteq> sem_view (sem_at s a)\<rbrakk>
      \<Longrightarrow> \<exists>src. sem_source (sem_at s a) = Some src \<and> (src, SEM_CHANGED) \<in> set l"
    using assms(1) by (auto simp: sem_evolves_def)
  obtain m where m: "sy_posts u = sy_posts t @ m" and
    m1: "\<And>a. a < length (sy_arrays t) \<Longrightarrow> sem_source (sem_at u a) = sem_source (sem_at t a)" and
    m2: "\<And>a. \<lbrakk>a < length (sy_arrays t); sem_view (sem_at u a) \<noteq> sem_view (sem_at t a)\<rbrakk>
      \<Longrightarrow> \<exists>src. sem_source (sem_at t a) = Some src \<and> (src, SEM_CHANGED) \<in> set m"
    using assms(2) by (auto simp: sem_evolves_def)
  have len: "length (sy_arrays s) \<le> length (sy_arrays t)" "length (sy_arrays t) \<le> length (sy_arrays u)"
    "set (sy_removed s) \<subseteq> set (sy_removed u)"
    using assms by (auto simp: sem_evolves_def)
  have "\<forall>a < length (sy_arrays s).
      sem_source (sem_at u a) = sem_source (sem_at s a) \<and>
      (sem_view (sem_at u a) \<noteq> sem_view (sem_at s a) \<longrightarrow>
        (\<exists>src. sem_source (sem_at s a) = Some src \<and> (src, SEM_CHANGED) \<in> set (l @ m)))"
  proof (intro allI impI conjI)
    fix a assume a: "a < length (sy_arrays s)"
    then have a': "a < length (sy_arrays t)" using len(1) by simp
    show "sem_source (sem_at u a) = sem_source (sem_at s a)"
      using l1 [OF a] m1 [OF a'] by simp
    assume "sem_view (sem_at u a) \<noteq> sem_view (sem_at s a)"
    then consider "sem_view (sem_at t a) \<noteq> sem_view (sem_at s a)" | "sem_view (sem_at u a) \<noteq> sem_view (sem_at t a)"
      by metis
    then show "\<exists>src. sem_source (sem_at s a) = Some src \<and> (src, SEM_CHANGED) \<in> set (l @ m)"
      using l2 [OF a] m2 [OF a'] l1 [OF a] by cases auto
  qed
  then show ?thesis
    unfolding sem_evolves_def using l m len by (intro conjI exI [of _ "l @ m"]) auto
qed

lemma sem_evolves_publish:
  assumes "a < length (sy_arrays s)" "sa_payload (sem_at s a) = Some p"
  shows "sem_evolves s (sem_publish a p vs s)"
  unfolding sem_evolves_def using assms
  by (auto simp: sem_source_def sem_view_def)

lemma sem_evolves_update:
  assumes "a < length (sy_arrays s)" "sa_payload (f (sem_at s a)) = sa_payload (sem_at s a)"
    and "sa_destroyed (f (sem_at s a)) = sa_destroyed (sem_at s a)"
  shows "sem_evolves s (update_sem a f s)"
  unfolding sem_evolves_def using assms
  by (auto simp: sem_source_def sem_view_def)

text \<open>A step that keeps everything at once.\<close>

definition sem_good :: "ipc_namespace \<times> sem_sys \<Rightarrow> bool" where
  "sem_good st \<longleftrightarrow> sem_ok (snd st) \<and> sem_ns_ok (fst st) (snd st)"

lemma sem_ns_ok_mono:
  "sem_ns_ok ns s \<Longrightarrow> length (sy_arrays s) \<le> length (sy_arrays s') \<Longrightarrow> sem_ns_ok ns s'"
  by (force simp: sem_ns_ok_def)

section \<open>Each call keeps the invariant\<close>

lemma register_sem_keeps:
  assumes ok: "sem_ok s" and room: "sy_next_semid s \<noteq> - 1"
    and r: "register_sem zone_ok key c nsems perm cuid cgid s = (res, s')"
  shows "sem_ok s'" "sem_evolves s s'" "\<And>a. res = Some a \<Longrightarrow> a < length (sy_arrays s')"
    "sy_next_semid s' = sy_next_semid s + 1"
proof -
  note less_next = word_less_succ [OF room, unfolded le_less]
  have in_use: "sa_semid x < sy_next_semid s" if "x \<in> set (sy_arrays s)" for x
    using that ok by (simp add: sem_ok_def)
  have fresh: "bt_get (sy_table s) (sy_next_semid s) = None"
  proof (rule ccontr)
    assume "bt_get (sy_table s) (sy_next_semid s) \<noteq> None"
    then obtain a where "lookup_sem s (sy_next_semid s) = Some a" by (auto simp: lookup_sem_def)
    from sem_okD(1,2) [OF ok this] in_use [of "sem_at s a"] show False by simp
  qed
  have "sy_next_semid s \<notin> set (sy_removed s)"
    using ok by (auto simp: sem_ok_def)
  note fresh = fresh this
  show "sy_next_semid s' = sy_next_semid s + 1" "\<And>a. res = Some a \<Longrightarrow> a < length (sy_arrays s')"
    using r by (auto simp: register_sem_def Let_def split: if_splits)
  show "sem_evolves s s'"
    using r by (auto simp: register_sem_def Let_def sem_evolves_def nth_append split: if_splits)
  show "sem_ok s'"
    using ok r fresh unfolding sem_ok_def
    by (auto simp: register_sem_def Let_def nth_append less_next sem_array_ok_def i16_range_def
        split: if_splits) (metis less_SucI)
qed

lemma semget_keeps:
  assumes good: "sem_good (ns, s)" and room: "sy_next_semid s \<noteq> - 1"
    and r: "step_semget zone_ok key nsems semflg c ns s = (res, ns', s')"
  shows "sem_good (ns', s') \<and> sem_evolves s s' \<and> sy_next_semid s' \<in> {sy_next_semid s, sy_next_semid s + 1}"
proof (cases "s' = s \<and> ns' = ns")
  case True
  then show ?thesis using good by simp
next
  case False
  obtain a0 s0 where reg: "register_sem zone_ok (ipc_key_of key) c nsems (perm_of_flags semflg) (cr_euid c) (cr_egid c) s = (a0, s0)"
    by fastforce
  have st: "s' = s0" and ns': "ns' = ns \<or> (\<exists>a k. a0 = Some a \<and> ns' = ns\<lparr>ns_sysv_sem := bt_insert k a (ns_sysv_sem ns)\<rparr>)"
    using r False reg
    by (auto simp: step_semget_def Let_def split: if_splits option.splits)
  note keeps = register_sem_keeps [OF _ room reg]
  have ok: "sem_ok s" and ns: "sem_ns_ok ns s" using good by (simp_all add: sem_good_def)
  have "sem_ns_ok ns s0" using sem_ns_ok_mono [OF ns] keeps(2) [OF ok] by (simp add: sem_evolves_def)
  then have "sem_ns_ok ns' s0" using ns' keeps(3) [OF ok] by (auto simp: sem_ns_ok_def split: if_splits)
  then show ?thesis using keeps [OF ok] st by (simp add: sem_good_def)
qed

lemma sem_val_after_range: "i16_range v \<Longrightarrow> i16_range (sem_val_after bs i v)"
  by (induction bs arbitrary: v) (auto simp: sem_new_val_def)

lemma sem_ok_store:
  assumes "sem_ok s" "lookup_sem s i = Some a" "length vs = unat (sa_nsems (sem_at s a))"
    and "\<forall>v \<in> set vs. i16_range (sv_val v)"
  shows "sem_ok (update_sem a (\<lambda>x. x\<lparr>sa_payload := Some (p\<lparr>sp_values := vs\<rparr>)\<rparr>) s)"
  using assms sem_okD [OF assms(1,2)]
  by (intro sem_ok_update) (auto simp: sem_array_ok_def)

lemma semop_keeps:
  assumes ok: "sem_ok s"
  obtains r q' s' where "step_semop_v3 semid sops c q s = Some (r, q', s')" "sem_ok s'"
    "length (sy_arrays s') = length (sy_arrays s)" "sy_next_semid s' = sy_next_semid s"
    "sq_undos q \<noteq> None \<Longrightarrow> sem_evolves s s'" "sy_removed s' = sy_removed s"
proof (cases "\<exists>e. step_semop_v3 semid sops c q s = Some (e, q, s)")
  case True
  then show ?thesis using that [of _ q s] ok by auto
next
  case False
  obtain a where a: "lookup_sem s semid = Some a" and w: "require_can_write_sem (sem_at s a) c = Ok ()"
    and ne: "sops \<noteq> []"
    using False
    by (auto simp: step_semop_v3_def sem_reg.exists_lookup split: if_splits sum.splits option.splits)
  obtain p where p: "sa_payload (sem_at s a) = Some p" "length (sp_values p) = unat (sa_nsems (sem_at s a))"
    and rng: "\<And>j. j < length (sp_values p) \<Longrightarrow> i16_range (sv_val (sp_values p ! j))"
    using sem_payloadE [OF ok a] by metis
  have nums: "\<forall>b \<in> set sops. sb_sem_num b < sa_nsems (sem_at s a)"
  proof (rule ccontr)
    assume "\<not> ?thesis"
    then have "semop_locked semid sops a p q s = Some (Err EFBIG, q, s)"
      by (auto simp: semop_locked_def not_less)
    then have "step_semop_v3 semid sops c q s = Some (Err EFBIG, q, s)"
      using a w ne p(1) sem_okD(3) [OF ok a] by (simp add: step_semop_v3_def sem_reg.exists_lookup)
    then show False using False by blast
  qed
  obtain vs undo where step: "step_semop_v3 semid sops c q s =
       semop_effect semid sops a p q s vs undo"
    and len: "length vs = length (sp_values p)" "length undo = length (sp_values p)"
    and vals: "\<And>i. i < length (sp_values p) \<Longrightarrow> sv_val (vs ! i) = sem_val_after sops i (sv_val (sp_values p ! i))"
    and "\<And>i. i < length (sp_values p) \<Longrightarrow> undo ! i = sem_undo_after sops i 0"
    by (rule semop_result [OF ok a w ne nums p(1), where q = q]) (rule that)
  have vr: "\<forall>v \<in> set vs. i16_range (sv_val v)"
    using len vals rng sem_val_after_range by (auto simp: in_set_conv_nth)
  note al = sem_okD(1) [OF ok a]
  have pub: "sem_ok (sem_publish a p vs s)" "sem_evolves s (sem_publish a p vs s)"
    using sem_ok_publish [OF ok a _ vr] sem_evolves_publish [OF al p(1)] len p(2) by simp_all
  have upd: "sem_ok (update_sem a (\<lambda>x. x\<lparr>sa_payload := Some (p\<lparr>sp_values := vs\<rparr>)\<rparr>) s)"
    using sem_ok_store [OF ok a _ vr] len p(2) by simp
  show ?thesis
    using step False pub upd that unfolding semop_effect_def
    by (cases "\<exists>b \<in> set sops. int_flag (sb_sem_flg b) SEM_UNDO"; cases "sq_undos q") (auto split: if_splits)
qed

lemma sem_remove_keeps:
  assumes ok: "sem_ok s"
  shows "sem_ok (sem_remove semid s)" "sem_evolves s (sem_remove semid s)"
    "length (sy_arrays (sem_remove semid s)) = length (sy_arrays s)"
    "sy_next_semid (sem_remove semid s) = sy_next_semid s"
    "lookup_sem s semid \<noteq> None \<Longrightarrow> semid \<in> set (sy_removed (sem_remove semid s))"
proof -
  consider "lookup_sem s semid = None" | a where "lookup_sem s semid = Some a" by fastforce
  then have "sem_ok (sem_remove semid s) \<and> sem_evolves s (sem_remove semid s) \<and>
      length (sy_arrays (sem_remove semid s)) = length (sy_arrays s) \<and>
      sy_next_semid (sem_remove semid s) = sy_next_semid s \<and>
      (lookup_sem s semid \<noteq> None \<longrightarrow> semid \<in> set (sy_removed (sem_remove semid s)))"
  proof cases
    case 1
    then show ?thesis using ok by (simp add: sem_remove_def withdraw_sem_def lookup_sem_def)
  next
    case (2 a)
    note a = sem_okD [OF ok 2]
    obtain p where p: "sa_payload (sem_at s a) = Some p" "length (sp_values p) = unat (sa_nsems (sem_at s a))"
      using sem_payloadE [OF ok 2] by metis
    define s1 where "s1 = s\<lparr>sy_table := bt_remove semid (sy_table s), sy_removed := sy_removed s @ [semid]\<rparr>"
    define s2 where "s2 = update_sem a (\<lambda>x. x\<lparr>sa_destroyed := True\<rparr>) s1"
    have s3: "sem_remove semid s = sem_publish a p (sp_values p) s2"
      using 2 p a(1) by (simp add: sem_remove_def withdraw_sem_def lookup_sem_def s1_def s2_def)
    have "sem_at s a \<in> set (sy_arrays s)" using a(1) by simp
    then have "semid < sy_next_semid s" using ok a(2) unfolding sem_ok_def by metis
    then have ok1: "sem_ok s1"
      using ok unfolding sem_ok_def s1_def by (auto split: if_splits)
    have a1: "a < length (sy_arrays s1)" "sem_at s1 a = sem_at s a" "bt_get (sy_table s1) semid = None"
      using a(1) by (simp_all add: s1_def)
    have "sem_ok s2"
      unfolding s2_def using ok1 a1 a by (intro sem_ok_update) (auto simp: sem_array_ok_def)
    moreover have "sem_ok (sem_publish a p (sp_values p) s2)" if "sem_ok s2"
    proof -
      have "\<forall>v \<in> set (sp_values p). i16_range (sv_val v)"
        using a(4) p(1) by (auto simp: sem_array_ok_def)
      then show ?thesis
        unfolding sem_publish_def sem_ok_notify
        using that a1 a p(2) by (intro sem_ok_update) (auto simp: s2_def sem_array_ok_def)
    qed
    moreover have "sem_evolves s (sem_publish a p (sp_values p) s2)"
      unfolding sem_evolves_def using a(1) p a1
      by (auto simp: s2_def sem_source_def sem_view_def s1_def)
    ultimately show ?thesis unfolding s3 by (auto simp: s2_def s1_def)
  qed
  then show "sem_ok (sem_remove semid s)" "sem_evolves s (sem_remove semid s)"
    "length (sy_arrays (sem_remove semid s)) = length (sy_arrays s)"
    "sy_next_semid (sem_remove semid s) = sy_next_semid s"
    "lookup_sem s semid \<noteq> None \<Longrightarrow> semid \<in> set (sy_removed (sem_remove semid s))"
    by blast+
qed

text \<open>What a command keeps when its guards pass is what it keeps.\<close>

definition sem_ctl_keeps :: "sem_sys \<Rightarrow> (sem_ctl_result result \<times> sem_sys) option \<Rightarrow> bool" where
  "sem_ctl_keeps s res \<longleftrightarrow>
     (\<exists>r s'. res = Some (r, s') \<and> sem_ok s' \<and> sem_evolves s s' \<and>
        length (sy_arrays s') = length (sy_arrays s) \<and> sy_next_semid s' = sy_next_semid s)"

lemma sem_ctl_keeps_same [simp]: "sem_ok s \<Longrightarrow> sem_ctl_keeps s (Some (r, s))"
  by (simp add: sem_ctl_keeps_def)

lemma with_sem_keeps:
  assumes "sem_ok s" "\<And>a. lookup_sem s semid = Some a \<Longrightarrow> sem_ctl_keeps s (f a)"
  shows "sem_ctl_keeps s (with_sem semid check c f s)"
  using assms by (auto simp: with_sem_def sem_reg.exists_lookup split: option.splits sum.splits)

lemma sem_publish_keeps:
  assumes "sem_ok s" "lookup_sem s semid = Some a" "sa_payload (sem_at s a) = Some p"
    and "length vs = length (sp_values p)" "\<forall>v \<in> set vs. i16_range (sv_val v)"
  shows "sem_ctl_keeps s (Some (r, sem_publish a p vs s))"
proof -
  have "length (sp_values p) = unat (sa_nsems (sem_at s a))"
    using sem_okD(4) [OF assms(1,2)] assms(3) by (auto simp: sem_array_ok_def)
  then show ?thesis
    using sem_ok_publish [OF assms(1,2) _ assms(5)] sem_evolves_publish [OF sem_okD(1) [OF assms(1,2)] assms(3)] assms(4)
    by (simp add: sem_ctl_keeps_def)
qed

lemma sem_read_keeps:
  assumes "sem_ok s" "lookup_sem s semid = Some a"
    and "\<And>vs. length vs = unat (sa_nsems (sem_at s a)) \<Longrightarrow> f vs \<noteq> None"
  shows "sem_ctl_keeps s (sem_read a f s)"
proof -
  obtain p where p: "sa_payload (sem_at s a) = Some p" "length (sp_values p) = unat (sa_nsems (sem_at s a))"
    using sem_payloadE [OF assms(1,2)] by metis
  then show ?thesis using assms(1) assms(3) [OF p(2)] by (auto simp: sem_read_def)
qed

lemma sem_setval_keeps:
  assumes ok: "sem_ok s" "lookup_sem s semid = Some a" and n: "semnum < sa_nsems (sem_at s a)"
  shows "sem_ctl_keeps s (sem_setval a semnum setval pid s)"
proof -
  obtain p where p: "sa_payload (sem_at s a) = Some p" "length (sp_values p) = unat (sa_nsems (sem_at s a))"
    using sem_payloadE [OF ok] by metis
  have "i16_range (sv_val v)" if "v \<in> set (sp_values p)" for v
    using that sem_okD(4) [OF ok] p(1) by (auto simp: sem_array_ok_def)
  moreover have "v \<in> set ((sp_values p)[i := w]) \<Longrightarrow> v = w \<or> v \<in> set (sp_values p)" for v w i
    using set_update_subset_insert by fastforce
  ultimately have "\<forall>v \<in> set ((sp_values p)[i := store_pid pid (w\<lparr>sv_val := wrap_i16 setval\<rparr>)]). i16_range (sv_val v)" for w i
    by (metis (no_types, lifting) store_pid_def option.case_eq_if sem_value.select_convs(1) sem_value.surjective
        sem_value.update_convs(1,2) wrap_i16_range)
  then show ?thesis
    using n p by (simp add: sem_setval_def word_less_nat_alt sem_publish_keeps [OF ok p(1)])
qed

lemma sem_setall_keeps:
  assumes ok: "sem_ok s" "lookup_sem s semid = Some a" and n: "length ws = unat (sa_nsems (sem_at s a))"
  shows "sem_ctl_keeps s (Some (sem_setall a ws pid s))"
proof -
  obtain p where p: "sa_payload (sem_at s a) = Some p" "length (sp_values p) = unat (sa_nsems (sem_at s a))"
    using sem_payloadE [OF ok] by metis
  have "i16_range (sint w)" for w :: u16
    using sint_range_size [of w] by (simp add: i16_range_def word_size)
  then have "\<forall>v \<in> set (map (\<lambda>(slot, w). store_pid pid (slot\<lparr>sv_val := sint w\<rparr>)) (zip (sp_values p) ws)).
      i16_range (sv_val v)"
    by (auto simp: store_pid_def split: option.splits)
  then show ?thesis
    using n p by (simp add: sem_setall_def sem_publish_keeps [OF ok p(1)])
qed

lemma sem_ctl_keeps_if:
  "(b \<Longrightarrow> sem_ctl_keeps s x) \<Longrightarrow> (\<not> b \<Longrightarrow> sem_ctl_keeps s y) \<Longrightarrow> sem_ctl_keeps s (if b then x else y)"
  by simp

lemma semctl_keeps:
  assumes ok: "sem_ok s"
  shows "sem_ctl_keeps s (step_semctl semid semnum cmd arg c pid s)"
proof -
  note same = sem_ctl_keeps_same [OF ok]
  have set: "sem_ctl_keeps s (Some (r, update_sem a (\<lambda>x. x\<lparr>sa_mode := mode AND 0x1ff, sa_uid := uid, sa_gid := gid\<rparr>) s))"
    if "lookup_sem s semid = Some a" for r a mode uid gid
    using sem_okD [OF ok that] ok
    by (auto simp: sem_ctl_keeps_def sem_array_ok_def intro!: sem_ok_update sem_evolves_update)
  have remove: "sem_ctl_keeps s (Some (Ok Sem_Success, sem_remove semid s))"
    using sem_remove_keeps [OF ok] by (simp add: sem_ctl_keeps_def)
  have get: "sem_ctl_keeps s (sem_read a (\<lambda>vs. map_option g (idx vs (unat semnum))) s)"
    if "lookup_sem s semid = Some a" "\<not> sa_nsems (sem_at s a) \<le> semnum" for a g
    using that by (intro sem_read_keeps [OF ok]) (auto simp: word_le_nat_alt)
  have all: "sem_ctl_keeps s (sem_read a (\<lambda>vs. Some (g vs)) s)" if "lookup_sem s semid = Some a" for a g
    using that by (intro sem_read_keeps [OF ok]) auto
  have put: "sem_ctl_keeps s (sem_setval a semnum v pid s)"
    if "lookup_sem s semid = Some a" "\<not> sa_nsems (sem_at s a) \<le> semnum" for a v
    using that by (intro sem_setval_keeps [OF ok]) auto
  have put_all: "sem_ctl_keeps s (Some (sem_setall a ws pid s))"
    if "lookup_sem s semid = Some a" "\<not> (length ws \<noteq> unat (sa_nsems (sem_at s a)) \<or> (\<exists>w \<in> set ws. 32767 < w))" for a ws
    using that by (intro sem_setall_keeps [OF ok]) auto
  have info: "sem_ctl_keeps s (case x of (m, n) \<Rightarrow> Some (g m n, s))" for x :: "u64 \<times> u64" and g
    using ok by (cases x) simp
  show ?thesis
    unfolding step_semctl_def
    by (cases arg; simp only: sem_ctl_arg.case;
        intro sem_ctl_keeps_if with_sem_keeps [OF ok] same set remove get all put put_all info; assumption)
qed

lemma semctl_in_ns_keeps:
  assumes good: "sem_good (ns, s)"
  obtains r ns' s' where "step_semctl_in_ns semid semnum cmd arg c ns pid s = Some (r, ns', s')"
    "sem_good (ns', s')" "sem_evolves s s'" "sy_next_semid s' = sy_next_semid s"
proof -
  have ok: "sem_ok s" and ns: "sem_ns_ok ns s" using good by (simp_all add: sem_good_def)
  obtain r s' where ctl: "step_semctl semid semnum cmd arg c pid s = Some (r, s')" and
    keeps: "sem_ok s'" "sem_evolves s s'" "length (sy_arrays s') = length (sy_arrays s)" "sy_next_semid s' = sy_next_semid s"
    using semctl_keeps [OF ok, of semid semnum cmd arg c pid] by (auto simp: sem_ctl_keeps_def)
  have "\<exists>r1 ns1 s1. step_semctl_in_ns semid semnum cmd arg c ns pid s = Some (r1, ns1, s1) \<and> (s1 = s \<or> s1 = s') \<and>
      (ns1 = ns \<or> (\<exists>k. ns1 = ns\<lparr>ns_sysv_sem := bt_remove k (ns_sysv_sem ns)\<rparr>))"
    by (auto simp: step_semctl_in_ns_def ctl split: sum.splits option.splits)
  then obtain r1 ns1 s1 where 1: "step_semctl_in_ns semid semnum cmd arg c ns pid s = Some (r1, ns1, s1)"
    "s1 = s \<or> s1 = s'" "ns1 = ns \<or> (\<exists>k. ns1 = ns\<lparr>ns_sysv_sem := bt_remove k (ns_sysv_sem ns)\<rparr>)"
    by blast
  have "sem_ns_ok ns1 s1" using 1 ns keeps(3) by (auto simp: sem_ns_ok_def split: if_splits)
  then show ?thesis
    using that [OF 1(1)] 1(2) ok keeps by (auto simp: sem_good_def)
qed

lemma sem_undo_one_keeps:
  assumes "sem_ok s"
  shows "sem_ok (sem_undo_one u s) \<and> sem_evolves s (sem_undo_one u s) \<and>
    length (sy_arrays (sem_undo_one u s)) = length (sy_arrays s) \<and>
    sy_next_semid (sem_undo_one u s) = sy_next_semid s"
proof -
  have *: "sem_ctl_keeps s (Some (Ok Sem_Success, sem_publish a p (sem_undo_values (su_adjustments u) (sp_values p)) s))"
    if "lookup_sem s (su_semid u) = Some a" "sa_payload (sem_at s a) = Some p" for a p
  proof -
    have "i16_range (sv_val v)" if "v \<in> set (sp_values p)" for v
      using that sem_okD(4) [OF assms \<open>lookup_sem s (su_semid u) = Some a\<close>] \<open>sa_payload (sem_at s a) = Some p\<close>
      by (auto simp: sem_array_ok_def)
    then show ?thesis
      using that by (intro sem_publish_keeps [OF assms]) (auto simp: sem_undo_values_def)
  qed
  then show ?thesis
    using assms by (auto simp: sem_undo_one_def sem_ctl_keeps_def split: option.splits)
qed

lemma sem_undo_keeps:
  assumes "sem_ok s"
  shows "sem_ok (snd (step_sem_undo q s)) \<and> sem_evolves s (snd (step_sem_undo q s)) \<and>
    length (sy_arrays (snd (step_sem_undo q s))) = length (sy_arrays s) \<and>
    sy_next_semid (snd (step_sem_undo q s)) = sy_next_semid s"
proof -
  have "sem_ok (fold sem_undo_one us s) \<and> sem_evolves s (fold sem_undo_one us s) \<and>
    length (sy_arrays (fold sem_undo_one us s)) = length (sy_arrays s) \<and>
    sy_next_semid (fold sem_undo_one us s) = sy_next_semid s" for us
    using assms
  proof (induction us arbitrary: s)
    case (Cons u us)
    note one = sem_undo_one_keeps [OF Cons.prems, of u]
    then show ?case
      using Cons.IH [of "sem_undo_one u s"] sem_evolves_trans [of s "sem_undo_one u s"] by auto
  qed simp
  then show ?thesis
    using assms by (auto simp: step_sem_undo_def drain_sem_undos_def split: option.splits)
qed

section \<open>Sequences of calls\<close>

lemma sem_call_keeps:
  assumes good: "sem_good (ns, s)" and room: "sy_next_semid s \<noteq> - 1"
  obtains ns' s' where "sem_call_step call (ns, s) = Some (ns', s')" "sem_good (ns', s')"
    "unat (sy_next_semid s') \<le> unat (sy_next_semid s) + 1" "live_caller call \<Longrightarrow> sem_evolves s s'"
    "set (sy_removed s) \<subseteq> set (sy_removed s')"
proof -
  have succ: "unat (sy_next_semid s + 1) \<le> unat (sy_next_semid s) + 1"
    by (metis add.commute le_refl plus_1_eq_Suc room unatSuc eq_neg_iff_add_eq_0)
  have ok: "sem_ok s" and ns: "sem_ns_ok ns s" using good by (simp_all add: sem_good_def)
  show ?thesis
  proof (cases call)
    case (Call_semget zone_ok key nsems semflg c)
    obtain r ns' s' where g: "step_semget zone_ok key nsems semflg c ns s = (r, ns', s')"
      by (metis prod_cases3)
    from semget_keeps [OF good room g] show ?thesis
      using that [of ns' s'] succ g Call_semget by (auto simp: sem_evolves_def)
  next
    case (Call_semop semid sops c q)
    obtain r q' s' where g: "step_semop_v3 semid sops c q s = Some (r, q', s')" and k: "sem_ok s'"
      "length (sy_arrays s') = length (sy_arrays s)" "sy_next_semid s' = sy_next_semid s"
      "sq_undos q \<noteq> None \<Longrightarrow> sem_evolves s s'" "sy_removed s' = sy_removed s"
      by (rule semop_keeps [OF ok, of semid sops c q]) (rule that)
    then show ?thesis
      using that [of ns s'] Call_semop sem_ns_ok_mono [OF ns, of s'] by (auto simp: sem_good_def)
  next
    case (Call_semctl semid semnum cmd arg c pid)
    obtain r ns' s' where "step_semctl_in_ns semid semnum cmd arg c ns pid s = Some (r, ns', s')"
      "sem_good (ns', s')" "sem_evolves s s'" "sy_next_semid s' = sy_next_semid s"
      by (rule semctl_in_ns_keeps [OF good, of semid semnum cmd arg c pid]) (rule that)
    then show ?thesis
      using that [of ns' s'] Call_semctl by (auto simp: sem_evolves_def)
  next
    case (Call_exit q)
    note k = sem_undo_keeps [OF ok, of q]
    have "sem_good (ns, snd (step_sem_undo q s))"
      using k sem_ns_ok_mono [OF ns] by (simp add: sem_good_def)
    then show ?thesis
      using that [of ns "snd (step_sem_undo q s)"] Call_exit k by (auto simp: sem_evolves_def)
  qed
qed

lemma sem_run_keeps:
  assumes "sem_good (ns, s)" "unat (sy_next_semid s) + length calls < 2 ^ 32"
  shows "\<exists>ns' s'. sem_run calls (ns, s) = Some (ns', s') \<and> sem_good (ns', s') \<and>
    set (sy_removed s) \<subseteq> set (sy_removed s') \<and> (list_all live_caller calls \<longrightarrow> sem_evolves s s')"
  using assms
proof (induction calls arbitrary: ns s)
  case (Cons call calls)
  have room: "sy_next_semid s \<noteq> - 1" using Cons.prems(2) by (auto simp: unsigned_minus_1_eq_mask mask_eq_exp_minus_1)
  obtain ns1 s1 where 1: "sem_call_step call (ns, s) = Some (ns1, s1)" "sem_good (ns1, s1)"
    "unat (sy_next_semid s1) \<le> unat (sy_next_semid s) + 1" "live_caller call \<Longrightarrow> sem_evolves s s1"
    "set (sy_removed s) \<subseteq> set (sy_removed s1)"
    by (rule sem_call_keeps [OF Cons.prems(1) room, of call]) (rule that)
  have "unat (sy_next_semid s1) + length calls < 2 ^ 32" using 1(3) Cons.prems(2) by simp
  from Cons.IH [OF 1(2) this] show ?case
    using 1 sem_evolves_trans by fastforce
qed simp

end
