(* ===== verification/Sem_Props.thy ===== *)
theory Sem_Props
  imports Sem_Calls
begin

text \<open>
  The properties of semaphores: atomic operation arrays, woken waiters, removed identifiers and
  the adjustments undone at exit; and two inputs on which the code leaves the range of values.
\<close>

section \<open>Completed operations\<close>


section \<open>Adjustments\<close>










text \<open>The values of an array as numbers.\<close>

definition sem_vals :: "sem_sys \<Rightarrow> addr \<Rightarrow> int list" where
  "sem_vals s a = (case sa_payload (sem_at s a) of None \<Rightarrow> [] | Some p \<Rightarrow> map sv_val (sp_values p))"




section \<open>Properties\<close>

definition sem_sys_init :: sem_sys where
  "sem_sys_init =
     \<lparr>sy_arrays = [], sy_table = [], sy_removed = [], sy_next_semid = 1, sy_next_source = 0x100000000, sy_posts = []\<rparr>"

text \<open>
  C27: Semaphore calls never panic, and the state stays well formed: from the initial state, any
  sequence of fewer than \<open>2^32 - 1\<close> calls of \<open>semget\<close>, \<open>semop\<close>, \<open>semctl\<close> and process exit, with
  any arguments, any callers and any failures of allocation, ends in a state in which every
  identifier and every key names an array, every array has as many values as it was created
  with, all of them 16-bit, and no identifier is both in use and removed.
\<close>

theorem semaphore_calls_never_panic:
  assumes "length calls < 2 ^ 32 - 1"
  shows "\<exists>ns s. sem_run calls (ipc_namespace_default, sem_sys_init) = Some (ns, s) \<and> sem_ok s \<and> sem_ns_ok ns s"
proof -
  have "sem_good (ipc_namespace_default, sem_sys_init)"
    by (simp add: sem_good_def sem_ok_def sem_ns_ok_def sem_sys_init_def ipc_namespace_default_def
        ipc_namespace_with_limits_def)
  then show ?thesis
    using sem_run_keeps [of ipc_namespace_default sem_sys_init calls] assms
    by (auto simp: sem_good_def sem_sys_init_def)
qed



text \<open>
  C8: An operation array is all or nothing. For an array of operations on different semaphores,
  none of them \<open>-32768\<close>, by a live process that may write: if one operation cannot proceed,
  nothing changes, and the caller gets \<open>EAGAIN\<close> or waits on the source of the array; otherwise
  every operation is applied, the values stay between 0 and 32767 (where additions are cut off),
  and untouched semaphores keep their values.
\<close>

theorem semop_is_all_or_nothing:
  assumes "sem_ok s" "lookup_sem s semid = Some a" "require_can_write_sem (sem_at s a) c = Ok ()"
    and "sops \<noteq> []" "\<forall>b \<in> set sops. sb_sem_num b < sa_nsems (sem_at s a)" "distinct (map sb_sem_num sops)"
    and "\<forall>b \<in> set sops. - 32768 < sb_sem_op b \<and> sb_sem_op b \<le> 32767" "sq_undos q \<noteq> None"
    and "sa_payload (sem_at s a) = Some p" "\<forall>v \<in> set (sem_vals s a). 0 \<le> v"
  shows "if \<exists>b \<in> set sops. (sb_sem_op b = 0 \<and> sem_vals s a ! unat (sb_sem_num b) \<noteq> 0) \<or>
                           sem_vals s a ! unat (sb_sem_num b) + sb_sem_op b < 0
         then step_semop_v3 semid sops c q s =
                Some (if \<exists>b \<in> set sops. int_flag (sb_sem_flg b) FLG_NOWAIT then Err EAGAIN
                      else sem_wait_for_change p, q, s)
         else \<exists>q' s'. step_semop_v3 semid sops c q s = Some (Done (length sops), q', s') \<and>
                (\<forall>b \<in> set sops. let i = unat (sb_sem_num b) in
                   sem_vals s' a ! i = min 32767 (sem_vals s a ! i + sb_sem_op b) \<and> 0 \<le> sem_vals s' a ! i) \<and>
                (\<forall>i < length (sem_vals s a). i \<notin> (\<lambda>b. unat (sb_sem_num b)) ` set sops \<longrightarrow>
                   sem_vals s' a ! i = sem_vals s a ! i)"
proof -
  obtain vs undo where e: "step_semop_v3 semid sops c q s = semop_effect semid sops a p q s vs undo"
    and len: "length vs = length (sp_values p)" "length undo = length (sp_values p)"
    and v: "\<And>i. i < length (sp_values p) \<Longrightarrow> sv_val (vs ! i) = sem_val_after sops i (sv_val (sp_values p ! i))"
    and u: "\<And>i. i < length (sp_values p) \<Longrightarrow> undo ! i = sem_undo_after sops i 0"
    by (rule semop_result [OF assms(1-5,9), where q = q]) (rule that)
  have al: "a < length (sy_arrays s)" and pl: "length (sp_values p) = unat (sa_nsems (sem_at s a))"
    and pr: "\<And>x. x \<in> set (sp_values p) \<Longrightarrow> i16_range (sv_val x)"
    using sem_okD [OF assms(1,2)] assms(9) by (auto simp: sem_array_ok_def)
  have num: "unat (sb_sem_num b) < length (sp_values p)" if "b \<in> set sops" for b
    using that assms(5) pl by (simp add: word_less_nat_alt)
  have val: "sem_vals s a ! i = sv_val (sp_values p ! i)" "0 \<le> sv_val (sp_values p ! i)" "sv_val (sp_values p ! i) \<le> 32767"
    if "i < length (sp_values p)" for i
    using that assms(9,10) pr [of "sp_values p ! i"] by (auto simp: sem_vals_def i16_range_def)
  have blk: "op_blocks b (sv_val (sp_values p ! unat (sb_sem_num b))) \<longleftrightarrow>
      (sb_sem_op b = 0 \<and> sem_vals s a ! unat (sb_sem_num b) \<noteq> 0) \<or> sem_vals s a ! unat (sb_sem_num b) + sb_sem_op b < 0"
    if "b \<in> set sops" for b
  proof -
    have "wrap_i16 (- sb_sem_op b) = - sb_sem_op b"
      using that assms(7) by (intro wrap_i16_id) (auto simp: i16_range_def)
    then show ?thesis using val [OF num [OF that]] by (auto simp: op_blocks_def)
  qed
  show ?thesis
  proof (cases "\<exists>b \<in> set sops. op_blocks b (sv_val (sp_values p ! unat (sb_sem_num b)))")
    case True
    then show ?thesis using e blk by (simp add: semop_effect_def)
  next
    case False
    obtain q' where st: "step_semop_v3 semid sops c q s = Some (Done (length sops), q', sem_publish a p vs s)"
      using e False assms(8) by (auto simp: semop_effect_def split: bool.splits option.splits)
    have new: "sem_vals (sem_publish a p vs s) a ! i = sem_val_after sops i (sem_vals s a ! i)"
      if "i < length (sp_values p)" for i
      using that v al len(1) val(1) [OF that] by (simp add: sem_vals_def)
    have touched: "sem_vals (sem_publish a p vs s) a ! unat (sb_sem_num b) = min 32767 (sem_vals s a ! unat (sb_sem_num b) + sb_sem_op b)
        \<and> 0 \<le> sem_vals s a ! unat (sb_sem_num b) + sb_sem_op b" if b: "b \<in> set sops" for b
      using new [OF num [OF b]] sem_val_after_once [OF assms(6) b] val [OF num [OF b]]
        sem_new_val_unblocked [of "sv_val (sp_values p ! unat (sb_sem_num b))" b] assms(7) False b by simp
    have "sem_vals (sem_publish a p vs s) a ! i = sem_vals s a ! i"
      if "i < length (sem_vals s a)" "i \<notin> (\<lambda>b. unat (sb_sem_num b)) ` set sops" for i
    proof -
      have "\<forall>b \<in> set sops. unat (sb_sem_num b) \<noteq> i" using that(2) by auto
      then show ?thesis using that(1) new [of i] assms(9) by (simp add: sem_val_after_untouched sem_vals_def)
    qed
    then show ?thesis using st touched blk False by (auto simp: Let_def)
  qed
qed


section \<open>Instances\<close>

definition sample_array :: "i16 list \<Rightarrow> sem_array" where
  "sample_array vs =
     \<lparr>sa_key = Some 7, sa_semid = 1, sa_cred = cred_root, sa_nsems = of_nat (length vs), sa_mode = 0x180,
      sa_uid = 0, sa_gid = 0, sa_cuid = 0, sa_cgid = 0, sa_destroyed = False,
      sa_payload = Some \<lparr>sp_values = map (\<lambda>v. \<lparr>sv_val = v, sv_last_pid = 0\<rparr>) vs, sp_changed_seq = 0,
        sp_changed_source_id = 0x100000000\<rparr>\<rparr>"

definition sample_sems :: "i16 list \<Rightarrow> sem_sys" where
  "sample_sems vs =
     \<lparr>sy_arrays = [sample_array vs], sy_table = [(1, 0)], sy_removed = [], sy_next_semid = 2,
      sy_next_source = 0x100000001, sy_posts = []\<rparr>"

definition sample_proc :: sem_proc where
  "sample_proc = \<lparr>sq_pid = 9, sq_undos = Some []\<rparr>"

definition op_on :: "u16 \<Rightarrow> i16 \<Rightarrow> i16 \<Rightarrow> sem_buf" where
  "op_on n v flg = \<lparr>sb_sem_num = n, sb_sem_op = v, sb_sem_flg = flg\<rparr>"

lemmas sample_defs = sample_sems_def sample_array_def sample_proc_def op_on_def

lemma sample_sems_ok:
  "sem_ok (sample_sems [3, 0])" "lookup_sem (sample_sems [3, 0]) 1 = Some 0"
  "sem_ns_ok ipc_namespace_default (sample_sems [3, 0])"
  by (auto simp: sem_ok_def sem_array_ok_def lookup_sem_def bt_ok_def sample_defs i16_range_def sem_ns_ok_def
      ipc_namespace_default_def ipc_namespace_with_limits_def)

lemma sample_write: "require_can_write_sem x cred_root = Ok ()"
  by (simp add: require_can_write_sem_def cred_root_def)

text \<open>
  Every operation of an array is tested against the values before the array: two decrements of
  one semaphore with value 1 both pass, and its value becomes negative.
\<close>

theorem semop_can_go_negative:
  "\<exists>s. step_semop_v3 1 [op_on 0 (- 1) 0, op_on 0 (- 1) 0] cred_root sample_proc (sample_sems [1]) =
         Some (Done 2, sample_proc, s) \<and> sem_vals s 0 = [- 1]"
  by (simp add: step_semop_v3_def sem_reg.exists_lookup lookup_sem_def semop_locked_def sample_write
      sample_defs sem_vals_def sem_new_val_def sat_i16_def wrap_i16_def int_flag_def SEM_UNDO_def
      sem_publish_def sem_notify_changed_def update_sem_def Let_def)

text \<open>
  The negation of the smallest 16-bit number is that number again: taking 32768 from a semaphore
  never waits and sets it to its largest value.
\<close>

theorem semop_minimum_raises_value:
  "\<exists>s. step_semop_v3 1 [op_on 0 (- 32768) 0] cred_root sample_proc (sample_sems [3]) =
         Some (Done 1, sample_proc, s) \<and> sem_vals s 0 = [32767]"
  by (simp add: step_semop_v3_def sem_reg.exists_lookup lookup_sem_def semop_locked_def sample_write
      sample_defs sem_vals_def sem_new_val_def sat_i16_def wrap_i16_def int_flag_def SEM_UNDO_def
      sem_publish_def sem_notify_changed_def update_sem_def Let_def)


theorem semaphore_calls_never_panic_witness:
  "\<exists>ns s. sem_run
      [Call_semget True 7 2 0x380 cred_root,
       Call_semop 1 [op_on 0 3 0, op_on 1 (- 1) 0] cred_root sample_proc,
       Call_semctl 1 0 IPC_RMID Arg_None cred_root None, Call_exit sample_proc]
      (ipc_namespace_default, sem_sys_init) = Some (ns, s) \<and> sem_ok s \<and> sem_ns_ok ns s"
  by (rule semaphore_calls_never_panic) simp




theorem semop_is_all_or_nothing_witness:
  "\<exists>q s. step_semop_v3 1 [op_on 0 (- 2) 0, op_on 1 4 0] cred_root sample_proc (sample_sems [3, 0]) = Some (Done 2, q, s) \<and>
     sem_vals s 0 ! 0 = 1 \<and> sem_vals s 0 ! 1 = 4"
proof -
  have p: "sa_payload (sem_at (sample_sems [3, 0]) 0) = Some (the (sa_payload (sample_array [3, 0])))"
    by (simp add: sample_defs)
  have v: "sem_vals (sample_sems [3, 0]) 0 = [3, 0]"
    by (simp add: sem_vals_def sample_defs)
  show ?thesis
    using semop_is_all_or_nothing [OF sample_sems_ok(1,2) sample_write, of "[op_on 0 (- 2) 0, op_on 1 4 0]" sample_proc, OF _ _ _ _ _ p]
      v by (auto simp: sample_defs)
qed


end
