(* ===== verification/Sysv_Msg.thy ===== *)
theory Sysv_Msg
  imports Ipc_Common
begin

text \<open>
  System V message queues (\<open>tx-subsystems/src/ipc/sysv_msg\<close>). A send checks the space before it
  takes the lock of the messages; its two parts are the two definitions \<open>msgsnd_admit\<close> and
  \<open>msgsnd_push\<close>, so that the interleaving of two senders can be stated. Notifications are a log
  of notified sources; indexing out of range is a panic.
\<close>

section \<open>State\<close>

record msg =
  mg_mtype :: i64
  mg_mtext :: "u8 list"

record msg_payload =
  mp_messages :: "msg list"
  mp_current_bytes :: u64
  mp_max_bytes :: nat
  mp_max_msg_size :: nat
  mp_queue_seq :: u64
  mp_msg_count :: u32
  mp_send_source_id :: u64
  mp_recv_source_id :: u64

record msg_queue =
  qi_key :: "sysv_key option"
  qi_msqid :: u32
  qi_cred :: cred
  qi_mode :: u16
  qi_uid :: u32
  qi_gid :: u32
  qi_cuid :: u32
  qi_cgid :: u32
  qi_destroyed :: bool
  qi_payload :: "msg_payload option"

record msg_sys =
  ms_queues :: "msg_queue list"
  ms_table :: "(u32, addr) btree"
  ms_removed :: "u32 list"
  ms_next_msgid :: u32
  ms_next_source :: u64
  ms_posts :: "(u64 \<times> u64) list"

abbreviation queue_at :: "msg_sys \<Rightarrow> addr \<Rightarrow> msg_queue" where
  "queue_at s a \<equiv> ms_queues s ! a"

definition update_queue :: "addr \<Rightarrow> (msg_queue \<Rightarrow> msg_queue) \<Rightarrow> msg_sys \<Rightarrow> msg_sys" where
  "update_queue a f s = s\<lparr>ms_queues := (ms_queues s)[a := f (queue_at s a)]\<rparr>"

definition store_payload :: "addr \<Rightarrow> msg_payload \<Rightarrow> msg_sys \<Rightarrow> msg_sys" where
  "store_payload a p s = update_queue a (\<lambda>x. x\<lparr>qi_payload := Some p\<rparr>) s"

definition queue_perm :: "msg_queue \<Rightarrow> ipc_perm" where
  "queue_perm x = ipc_perm_new (qi_mode x)"

section \<open>Notification\<close>

definition MSG_CAN_SEND :: u64 where "MSG_CAN_SEND = 1"
definition MSG_CAN_RECV :: u64 where "MSG_CAN_RECV = 1"

definition wait_for_send_space :: "msg_payload \<Rightarrow> 'a step_outcome" where
  "wait_for_send_space p = yield_on_wait_source (mp_send_source_id p) MSG_CAN_SEND"

definition wait_for_message :: "msg_payload \<Rightarrow> 'a step_outcome" where
  "wait_for_message p = yield_on_wait_source (mp_recv_source_id p) MSG_CAN_RECV"

definition notify_space_available :: "msg_payload \<Rightarrow> msg_sys \<Rightarrow> msg_sys" where
  "notify_space_available p s = s\<lparr>ms_posts := ms_posts s @ [(mp_send_source_id p, MSG_CAN_SEND)]\<rparr>"

definition notify_message_available :: "msg_payload \<Rightarrow> msg_sys \<Rightarrow> msg_sys" where
  "notify_message_available p s = s\<lparr>ms_posts := ms_posts s @ [(mp_recv_source_id p, MSG_CAN_RECV)]\<rparr>"

definition abort_removed :: "msg_payload \<Rightarrow> msg_sys \<Rightarrow> msg_sys" where
  "abort_removed p s = notify_message_available p (notify_space_available p s)"

section \<open>Registry\<close>

definition lookup_msg :: "msg_sys \<Rightarrow> u32 \<Rightarrow> addr option" where
  "lookup_msg s msqid = bt_get (ms_table s) msqid"

definition was_msg_removed :: "msg_sys \<Rightarrow> u32 \<Rightarrow> bool" where
  "was_msg_removed s msqid \<longleftrightarrow> msqid \<in> set (ms_removed s)"

definition register_msg ::
    "bool \<Rightarrow> sysv_key option \<Rightarrow> cred \<Rightarrow> ipc_perm \<Rightarrow> u32 \<Rightarrow> u32 \<Rightarrow> nat \<Rightarrow> nat \<Rightarrow> msg_sys \<Rightarrow> addr option \<times> msg_sys" where
  "register_msg zone_ok key c perm cuid cgid max_bytes max_msg_size s =
     (let msqid = ms_next_msgid s;
          send_source = ms_next_source s;
          recv_source = ms_next_source s + 1;
          s = s\<lparr>ms_next_msgid := msqid + 1, ms_next_source := ms_next_source s + 2\<rparr>;
          a = length (ms_queues s)
      in if \<not> zone_ok then (None, s)
         else
           (Some a,
            s\<lparr>ms_queues := ms_queues s @
                [\<lparr>qi_key = key, qi_msqid = msqid, qi_cred = c, qi_mode = ip_mode perm, qi_uid = cuid,
                  qi_gid = cgid, qi_cuid = cuid, qi_cgid = cgid, qi_destroyed = False,
                  qi_payload = Some \<lparr>mp_messages = [], mp_current_bytes = 0, mp_max_bytes = max_bytes,
                    mp_max_msg_size = max_msg_size, mp_queue_seq = 0, mp_msg_count = 0,
                    mp_send_source_id = send_source, mp_recv_source_id = recv_source\<rparr>\<rparr>],
              ms_table := bt_insert msqid a (ms_table s)\<rparr>))"

definition withdraw_msg :: "u32 \<Rightarrow> msg_sys \<Rightarrow> addr option \<times> msg_sys" where
  "withdraw_msg msqid s =
     (case bt_get (ms_table s) msqid of
        None \<Rightarrow> (None, s)
      | Some a \<Rightarrow> (Some a, s\<lparr>ms_table := bt_remove msqid (ms_table s), ms_removed := ms_removed s @ [msqid]\<rparr>))"

definition all_msg_queues :: "msg_sys \<Rightarrow> msg_queue list" where
  "all_msg_queues s = map (queue_at s) (bt_values (ms_table s))"

section \<open>Checks\<close>

definition require_can_read_msg :: "msg_queue \<Rightarrow> cred \<Rightarrow> unit result" where
  "require_can_read_msg x c =
     (if cr_euid c = 0 then Ok ()
      else if cr_euid c = qi_uid x \<or> cr_euid c = qi_cuid x
      then (if owner_read (queue_perm x) then Ok () else Error EACCES)
      else if cr_egid c = qi_gid x \<or> cr_egid c = qi_cgid x
      then (if group_read (queue_perm x) then Ok () else Error EACCES)
      else if other_read (queue_perm x) then Ok () else Error EACCES)"

definition require_can_write_msg :: "msg_queue \<Rightarrow> cred \<Rightarrow> unit result" where
  "require_can_write_msg x c =
     (if cr_euid c = 0 then Ok ()
      else if cr_euid c = qi_uid x \<or> cr_euid c = qi_cuid x
      then (if owner_write (queue_perm x) then Ok () else Error EACCES)
      else if cr_egid c = qi_gid x \<or> cr_egid c = qi_cgid x
      then (if group_write (queue_perm x) then Ok () else Error EACCES)
      else if other_write (queue_perm x) then Ok () else Error EACCES)"

definition msg_require_owner_or_admin :: "msg_queue \<Rightarrow> cred \<Rightarrow> unit result" where
  "msg_require_owner_or_admin x c =
     (if cr_euid c = 0 \<or> cr_euid c = qi_uid x \<or> cr_euid c = qi_cuid x then Ok () else Error EPERM)"

definition require_msg_exists :: "msg_sys \<Rightarrow> u32 \<Rightarrow> addr result" where
  "require_msg_exists s msqid =
     ok_or (lookup_msg s msqid) (if was_msg_removed s msqid then EIDRM else EINVAL)"

interpretation msg_obj: ipc_object qi_uid qi_gid qi_cuid qi_cgid qi_mode
  require_can_read_msg require_can_write_msg msg_require_owner_or_admin
  by unfold_locales
    (auto simp: require_can_read_msg_def require_can_write_msg_def msg_require_owner_or_admin_def
      ipc_class_def queue_perm_def ipc_perm_bits numeral_eq_Suc)

interpretation msg_reg: ipc_registry lookup_msg was_msg_removed withdraw_msg require_msg_exists
  by unfold_locales
    (auto simp: lookup_msg_def was_msg_removed_def withdraw_msg_def require_msg_exists_def split: option.splits)

section \<open>msgget\<close>

definition step_msgget ::
    "bool \<Rightarrow> i32 \<Rightarrow> i32 \<Rightarrow> cred \<Rightarrow> ipc_namespace \<Rightarrow> msg_sys \<Rightarrow> u32 result \<times> ipc_namespace \<times> msg_sys" where
  "step_msgget zone_ok key msgflg c ns s =
     (let ipc_key = ipc_key_of key;
          create = int_flag msgflg IPC_CREAT;
          exclusive = int_flag msgflg IPC_EXCL;
          perm = perm_of_flags msgflg
      in case Option.bind ipc_key (bt_get (ns_sysv_msg ns)) of
           Some a \<Rightarrow>
             let x = queue_at s a
             in if exclusive then (Error EEXIST, ns, s)
                else (and_then (require_can_read_msg x c) (\<lambda>_. Ok (qi_msqid x)), ns, s)
         | None \<Rightarrow>
             if \<not> create \<and> ipc_key \<noteq> None then (Error ENOENT, ns, s)
             else
               (case register_msg zone_ok ipc_key c perm (cr_euid c) (cr_egid c)
                       (unat (il_msgmnb (ns_limits ns))) (unat (il_msgmax (ns_limits ns))) s of
                  (None, s) \<Rightarrow> (Error ENOMEM, ns, s)
                | (Some a, s) \<Rightarrow>
                    (Ok (qi_msqid (queue_at s a)),
                     (case ipc_key of
                        None \<Rightarrow> ns
                      | Some k \<Rightarrow> ns\<lparr>ns_sysv_msg := bt_insert k a (ns_sysv_msg ns)\<rparr>),
                     s)))"

section \<open>msgsnd\<close>

text \<open>The guards: either an outcome or the queue that admits the message.\<close>

definition msgsnd_admit :: "u32 \<Rightarrow> i64 \<Rightarrow> u8 list \<Rightarrow> i32 \<Rightarrow> cred \<Rightarrow> msg_sys \<Rightarrow> nat step_outcome + addr" where
  "msgsnd_admit msqid mtype mtext msgflg c s =
     (if mtype \<le> 0 then Inl (Err EINVAL)
      else
        (case require_msg_exists s msqid of
           Inl e \<Rightarrow> Inl (Err e)
         | Inr a \<Rightarrow>
             if qi_destroyed (queue_at s a) then Inl (Err EIDRM)
             else
               (case require_can_write_msg (queue_at s a) c of
                  Inl e \<Rightarrow> Inl (Err e)
                | Inr _ \<Rightarrow>
                    (case qi_payload (queue_at s a) of
                       None \<Rightarrow> Inl (Err EIDRM)
                     | Some p \<Rightarrow>
                         if mp_max_msg_size p < length mtext then Inl (Err EINVAL)
                         else if (of_nat (mp_max_bytes p) :: u64) < mp_current_bytes p + of_nat (length mtext)
                         then Inl (if int_flag msgflg IPC_NOWAIT then Err EAGAIN else wait_for_send_space p)
                         else Inr a))))"

definition push_message :: "msg \<Rightarrow> msg_payload \<Rightarrow> msg_payload" where
  "push_message m p =
     p\<lparr>mp_messages := mp_messages p @ [m],
       mp_current_bytes := mp_current_bytes p + of_nat (length (mg_mtext m)),
       mp_msg_count := mp_msg_count p + 1, mp_queue_seq := mp_queue_seq p + 1\<rparr>"

definition msgsnd_push :: "addr \<Rightarrow> i64 \<Rightarrow> u8 list \<Rightarrow> msg_sys \<Rightarrow> nat step_outcome \<times> msg_sys" where
  "msgsnd_push a mtype mtext s =
     (case qi_payload (queue_at s a) of
        None \<Rightarrow> (Err EIDRM, s)
      | Some p \<Rightarrow>
          (Done (length mtext),
           notify_message_available p
             (store_payload a (push_message \<lparr>mg_mtype = mtype, mg_mtext = mtext\<rparr> p) s)))"

definition step_msgsnd_v3 :: "u32 \<Rightarrow> i64 \<Rightarrow> u8 list \<Rightarrow> i32 \<Rightarrow> cred \<Rightarrow> msg_sys \<Rightarrow> nat step_outcome \<times> msg_sys" where
  "step_msgsnd_v3 msqid mtype mtext msgflg c s =
     (case msgsnd_admit msqid mtype mtext msgflg c s of
        Inl r \<Rightarrow> (r, s)
      | Inr a \<Rightarrow> msgsnd_push a mtype mtext s)"

definition step_msgsnd :: "u32 \<Rightarrow> i64 \<Rightarrow> u8 list \<Rightarrow> i32 \<Rightarrow> cred \<Rightarrow> msg_sys \<Rightarrow> nat result \<times> msg_sys" where
  "step_msgsnd msqid mtype mtext msgflg c s =
     (case step_msgsnd_v3 msqid mtype mtext msgflg c s of (r, s) \<Rightarrow> (outcome_result r, s))"

section \<open>msgrcv\<close>

definition MSG_NOERROR :: i32 where "MSG_NOERROR = 0x1000"
definition MSG_EXCEPT :: i32 where "MSG_EXCEPT = 0x2000"

fun position :: "('a \<Rightarrow> bool) \<Rightarrow> 'a list \<Rightarrow> nat option" where
  "position P [] = None"
| "position P (x # xs) = (if P x then Some 0 else map_option Suc (position P xs))"

text \<open>\<open>min_by_key\<close> keeps the first of the least.\<close>

fun min_by_mtype :: "(nat \<times> msg) list \<Rightarrow> (nat \<times> msg) option" where
  "min_by_mtype [] = None"
| "min_by_mtype (x # xs) =
     (case min_by_mtype xs of
        None \<Rightarrow> Some x
      | Some y \<Rightarrow> Some (if mg_mtype (snd x) \<le> mg_mtype (snd y) then x else y))"

definition find_msg :: "msg list \<Rightarrow> i64 \<Rightarrow> nat option" where
  "find_msg messages msgtyp =
     (if msgtyp = 0 then position (\<lambda>_. True) messages
      else if 0 < msgtyp then position (\<lambda>m. mg_mtype m = msgtyp) messages
      else
        let threshold = wrap_i64 (- msgtyp)
        in map_option fst
             (min_by_mtype (filter (\<lambda>(i, m). mg_mtype m \<le> threshold) (enumerate 0 messages))))"

definition list_remove_at :: "nat \<Rightarrow> 'a list \<Rightarrow> 'a list" where
  "list_remove_at i xs = take i xs @ drop (Suc i) xs"

definition take_message :: "nat \<Rightarrow> msg \<Rightarrow> msg_payload \<Rightarrow> msg_payload" where
  "take_message pos m p =
     p\<lparr>mp_messages := list_remove_at pos (mp_messages p),
       mp_current_bytes := mp_current_bytes p - of_nat (length (mg_mtext m)),
       mp_msg_count := mp_msg_count p - 1\<rparr>"

definition step_msgrcv_v3 ::
    "u32 \<Rightarrow> nat \<Rightarrow> i64 \<Rightarrow> i32 \<Rightarrow> cred \<Rightarrow> msg_sys \<Rightarrow> ((i64 \<times> u8 list) step_outcome \<times> msg_sys) option" where
  "step_msgrcv_v3 msqid msgsz msgtyp msgflg c s =
     (case require_msg_exists s msqid of
        Inl e \<Rightarrow> Some (Err e, s)
      | Inr a \<Rightarrow>
          if qi_destroyed (queue_at s a) then Some (Err EIDRM, s)
          else
            (case require_can_read_msg (queue_at s a) c of
               Inl e \<Rightarrow> Some (Err e, s)
             | Inr _ \<Rightarrow>
                 (case qi_payload (queue_at s a) of
                    None \<Rightarrow> Some (Err EIDRM, s)
                  | Some p \<Rightarrow>
                      let nowait = int_flag msgflg IPC_NOWAIT
                      in if mp_msg_count p = 0
                         then Some (if nowait then Err EAGAIN
                                    else if qi_destroyed (queue_at s a) then Err EIDRM
                                    else wait_for_message p, s)
                         else
                           (case find_msg (mp_messages p) msgtyp of
                              None \<Rightarrow> Some (if nowait then Err EAGAIN else wait_for_message p, s)
                            | Some pos \<Rightarrow>
                                do {
                                  m \<leftarrow> idx (mp_messages p) pos;
                                  if msgsz < length (mg_mtext m) \<and> \<not> int_flag msgflg MSG_NOERROR
                                  then Some (Err E2BIG, s)
                                  else Some (Done (mg_mtype m, take msgsz (mg_mtext m)),
                                         notify_space_available p (store_payload a (take_message pos m p) s))
                                }))))"

definition step_msgrcv ::
    "u32 \<Rightarrow> nat \<Rightarrow> i64 \<Rightarrow> i32 \<Rightarrow> cred \<Rightarrow> msg_sys \<Rightarrow> ((i64 \<times> u8 list) result \<times> msg_sys) option" where
  "step_msgrcv msqid msgsz msgtyp msgflg c s =
     map_option (\<lambda>(r, s). (outcome_result r, s)) (step_msgrcv_v3 msqid msgsz msgtyp msgflg c s)"

section \<open>msgctl\<close>

definition MSG_STAT :: i32 where "MSG_STAT = 11"
definition MSG_INFO :: i32 where "MSG_INFO = 12"
definition MSG_STAT_ANY :: i32 where "MSG_STAT_ANY = 13"

lemmas msgctl_consts =
  MSG_STAT_def MSG_INFO_def MSG_STAT_ANY_def IPC_RMID_def IPC_SET_def IPC_STAT_def IPC_INFO_def

record msg_info =
  mi_key :: i32
  mi_msqid :: u32
  mi_uid :: u32
  mi_gid :: u32
  mi_cuid :: u32
  mi_cgid :: u32
  mi_perm :: ipc_perm
  mi_current_bytes :: nat
  mi_msg_count :: u32
  mi_qbytes :: nat

datatype msg_ctl_result = Msg_Success | Msg_Stat msg_info | Msg_Info u64 u64 u64 u64 u64 u64

definition msg_remove :: "u32 \<Rightarrow> msg_sys \<Rightarrow> msg_sys" where
  "msg_remove msqid s =
     (case withdraw_msg msqid s of
        (None, s) \<Rightarrow> s
      | (Some a, s) \<Rightarrow>
          (let s = update_queue a (\<lambda>x. x\<lparr>qi_destroyed := True\<rparr>) s
           in case qi_payload (queue_at s a) of
                None \<Rightarrow> s
              | Some p \<Rightarrow> abort_removed p (store_payload a (p\<lparr>mp_queue_seq := mp_queue_seq p + 1\<rparr>) s)))"

definition msg_info_of :: "msg_queue \<Rightarrow> msg_payload \<Rightarrow> msg_info" where
  "msg_info_of x p =
     \<lparr>mi_key = key_raw (qi_key x), mi_msqid = qi_msqid x, mi_uid = qi_uid x, mi_gid = qi_gid x,
      mi_cuid = qi_cuid x, mi_cgid = qi_cgid x, mi_perm = queue_perm x,
      mi_current_bytes = unat (mp_current_bytes p), mi_msg_count = mp_msg_count p, mi_qbytes = mp_max_bytes p\<rparr>"

definition msg_info_counts :: "i32 \<Rightarrow> msg_sys \<Rightarrow> u64 \<times> u64" where
  "msg_info_counts cmd s =
     (if cmd = MSG_INFO
      then (of_nat (length (all_msg_queues s)),
            sum_list (map (\<lambda>p. ucast (mp_msg_count p)) (List.map_filter qi_payload (all_msg_queues s))))
      else (0, 0))"

definition with_queue :: "u32 \<Rightarrow> (msg_queue \<Rightarrow> cred \<Rightarrow> unit result) \<Rightarrow> cred
    \<Rightarrow> (addr \<Rightarrow> msg_ctl_result result \<times> msg_sys) \<Rightarrow> msg_sys \<Rightarrow> msg_ctl_result result \<times> msg_sys" where
  "with_queue msqid check c f s =
     (case require_msg_exists s msqid of
        Inl e \<Rightarrow> (Error e, s)
      | Inr a \<Rightarrow>
          (case check (queue_at s a) c of
             Inl e \<Rightarrow> (Error e, s)
           | Inr _ \<Rightarrow> f a))"

definition step_msgctl ::
    "u32 \<Rightarrow> i32 \<Rightarrow> (u16 \<times> u32 \<times> u32) option \<Rightarrow> cred \<Rightarrow> msg_sys \<Rightarrow> msg_ctl_result result \<times> msg_sys" where
  "step_msgctl msqid cmd set_fields c s =
     (if cmd = IPC_RMID then
        with_queue msqid msg_require_owner_or_admin c (\<lambda>a. (Ok Msg_Success, msg_remove msqid s)) s
      else if cmd = IPC_SET then
        with_queue msqid msg_require_owner_or_admin c (\<lambda>a.
          case set_fields of
            None \<Rightarrow> (Error EINVAL, s)
          | Some (mode, uid, gid) \<Rightarrow>
              (Ok Msg_Success,
               update_queue a (\<lambda>x. x\<lparr>qi_mode := mode AND 0x1ff, qi_uid := uid, qi_gid := gid\<rparr>) s)) s
      else if cmd = IPC_STAT \<or> cmd = MSG_STAT \<or> cmd = MSG_STAT_ANY then
        with_queue msqid require_can_read_msg c (\<lambda>a.
          case qi_payload (queue_at s a) of
            None \<Rightarrow> (Error EIDRM, s)
          | Some p \<Rightarrow> (Ok (Msg_Stat (msg_info_of (queue_at s a) p)), s)) s
      else if cmd = IPC_INFO \<or> cmd = MSG_INFO then
        (case msg_info_counts cmd s of
           (msgpool, msgs) \<Rightarrow> (Ok (Msg_Info 32000 8192 16384 msgpool msgs msgs), s))
      else (Error EINVAL, s))"

definition step_msgctl_in_ns ::
    "u32 \<Rightarrow> i32 \<Rightarrow> (u16 \<times> u32 \<times> u32) option \<Rightarrow> cred \<Rightarrow> ipc_namespace \<Rightarrow> msg_sys
     \<Rightarrow> msg_ctl_result result \<times> ipc_namespace \<times> msg_sys" where
  "step_msgctl_in_ns msqid cmd set_fields c ns s =
     (let ctl = \<lambda>key.
            (case step_msgctl msqid cmd set_fields c s of
               (r, s) \<Rightarrow>
                 (r,
                  (case (r, key) of
                     (Inr _, Some k) \<Rightarrow>
                       if map_option (\<lambda>a. qi_msqid (queue_at s a)) (bt_get (ns_sysv_msg ns) k) = Some msqid
                       then ns\<lparr>ns_sysv_msg := bt_remove k (ns_sysv_msg ns)\<rparr>
                       else ns
                   | _ \<Rightarrow> ns), s))
      in if cmd = IPC_RMID
         then (case require_msg_exists s msqid of
                 Inl e \<Rightarrow> (Error e, ns, s)
               | Inr a \<Rightarrow> ctl (qi_key (queue_at s a)))
         else ctl None)"

section \<open>Projection\<close>

record sysvipc_msg_row =
  rm_key :: i32
  rm_msqid :: u32
  rm_mode :: u16
  rm_current_bytes :: u64
  rm_msg_count :: u32
  rm_qbytes :: nat
  rm_uid :: u32
  rm_gid :: u32
  rm_cuid :: u32
  rm_cgid :: u32

definition project_sysvipc_msg :: "msg_sys \<Rightarrow> sysvipc_msg_row list" where
  "project_sysvipc_msg s =
     sort_key rm_msqid
       (List.map_filter
         (\<lambda>x. map_option (\<lambda>p.
            \<lparr>rm_key = key_raw (qi_key x), rm_msqid = qi_msqid x, rm_mode = ip_mode (queue_perm x),
             rm_current_bytes = mp_current_bytes p, rm_msg_count = mp_msg_count p, rm_qbytes = mp_max_bytes p,
             rm_uid = qi_uid x, rm_gid = qi_gid x, rm_cuid = qi_cuid x, rm_cgid = qi_cgid x\<rparr>) (qi_payload x))
         (all_msg_queues s))"

end
