(* ===== verification/Msg_Props.thy ===== *)
theory Msg_Props
  imports Sysv_Msg
begin

text \<open>
  What message queues promise: their accounting is exact under any sequence of calls, a receive
  takes the message that its type selects and no other, and three inputs or interleavings on
  which the code departs from the limits or the selection it documents.
\<close>

section \<open>Selection\<close>

lemma position_Some_iff:
  "position P xs = Some i \<longleftrightarrow> i < length xs \<and> P (xs ! i) \<and> (\<forall>j < i. \<not> P (xs ! j))"
proof (induction xs arbitrary: i)
  case (Cons x xs)
  show ?case
  proof (cases i)
    case 0
    then show ?thesis by (auto simp: Cons)
  next
    case (Suc k)
    then show ?thesis using Cons [of k] by (auto simp: less_Suc_eq_0_disj)
  qed
qed simp


lemma min_by_mtype_None_iff [simp]: "min_by_mtype xs = None \<longleftrightarrow> xs = []"
  by (cases xs) (auto split: option.splits)


text \<open>The message that a type selects, as the interface describes it.\<close>

definition wanted :: "i64 \<Rightarrow> msg \<Rightarrow> bool" where
  "wanted t m \<longleftrightarrow> t = 0 \<or> (0 < t \<and> mg_mtype m = t) \<or> (t < 0 \<and> mg_mtype m \<le> - t)"




section \<open>Accounting\<close>

definition total_bytes :: "msg list \<Rightarrow> nat" where
  "total_bytes ms = sum_list (map (\<lambda>m. length (mg_mtext m)) ms)"

definition msg_payload_ok :: "msg_payload \<Rightarrow> bool" where
  "msg_payload_ok p \<longleftrightarrow>
     mp_current_bytes p = of_nat (total_bytes (mp_messages p)) \<and>
     mp_msg_count p = of_nat (length (mp_messages p)) \<and>
     total_bytes (mp_messages p) \<le> mp_max_bytes p \<and> mp_max_bytes p + mp_max_msg_size p < 2 ^ 64 \<and>
     (\<forall>m \<in> set (mp_messages p). 0 < mg_mtype m \<and> length (mg_mtext m) \<le> mp_max_msg_size p)"

definition queue_ok :: "msg_queue \<Rightarrow> bool" where
  "queue_ok x \<longleftrightarrow> (\<exists>p. qi_payload x = Some p \<and> msg_payload_ok p)"

definition msg_ok :: "msg_sys \<Rightarrow> bool" where
  "msg_ok s \<longleftrightarrow>
     bt_ok (ms_table s) \<and>
     (\<forall>i a. bt_get (ms_table s) i = Some a \<longrightarrow>
        a < length (ms_queues s) \<and> qi_msqid (queue_at s a) = i \<and> \<not> qi_destroyed (queue_at s a)) \<and>
     (\<forall>x \<in> set (ms_queues s). queue_ok x \<and> qi_msqid x < ms_next_msgid s) \<and>
     (\<forall>i \<in> set (ms_removed s). bt_get (ms_table s) i = None \<and> i < ms_next_msgid s)"

definition msg_ns_ok :: "ipc_namespace \<Rightarrow> msg_sys \<Rightarrow> bool" where
  "msg_ns_ok ns s \<longleftrightarrow> (\<forall>k a. bt_get (ns_sysv_msg ns) k = Some a \<longrightarrow> a < length (ms_queues s))"

lemma msg_okD:
  assumes "msg_ok s" "lookup_msg s i = Some a"
  shows "a < length (ms_queues s)" "qi_msqid (queue_at s a) = i" "\<not> qi_destroyed (queue_at s a)"
    and "queue_ok (queue_at s a)"
  using assms by (auto simp: msg_ok_def lookup_msg_def)

lemma update_queue_simps [simp]:
  "length (ms_queues (update_queue a f s)) = length (ms_queues s)"
  "ms_table (update_queue a f s) = ms_table s" "ms_removed (update_queue a f s) = ms_removed s"
  "ms_next_msgid (update_queue a f s) = ms_next_msgid s" "ms_posts (update_queue a f s) = ms_posts s"
  by (simp_all add: update_queue_def)

lemma queue_at_update [simp]:
  "a < length (ms_queues s) \<Longrightarrow> queue_at (update_queue a f s) b = (if b = a then f (queue_at s a) else queue_at s b)"
  by (simp add: update_queue_def nth_list_update)

lemma notify_simps [simp]:
  "ms_queues (notify_space_available p s) = ms_queues s" "ms_table (notify_space_available p s) = ms_table s"
  "ms_removed (notify_space_available p s) = ms_removed s" "ms_next_msgid (notify_space_available p s) = ms_next_msgid s"
  "ms_queues (notify_message_available p s) = ms_queues s" "ms_table (notify_message_available p s) = ms_table s"
  "ms_removed (notify_message_available p s) = ms_removed s" "ms_next_msgid (notify_message_available p s) = ms_next_msgid s"
  by (simp_all add: notify_space_available_def notify_message_available_def)

lemma msg_ok_notify [simp]:
  "msg_ok (notify_space_available p s) = msg_ok s" "msg_ok (notify_message_available p s) = msg_ok s"
  "msg_ok (abort_removed p s) = msg_ok s"
  by (simp_all add: msg_ok_def abort_removed_def)

lemma msg_ok_update:
  assumes "msg_ok s" "a < length (ms_queues s)"
    and "queue_ok (f (queue_at s a))" "qi_msqid (f (queue_at s a)) = qi_msqid (queue_at s a)"
    and "bt_get (ms_table s) (qi_msqid (queue_at s a)) = Some a \<Longrightarrow> \<not> qi_destroyed (f (queue_at s a))"
  shows "msg_ok (update_queue a f s)"
proof -
  have sub: "x \<in> set ((ms_queues s)[a := f (queue_at s a)]) \<Longrightarrow> x = f (queue_at s a) \<or> x \<in> set (ms_queues s)" for x
    using set_update_subset_insert by fastforce
  have "qi_msqid (queue_at s a) < ms_next_msgid s"
    using assms(1,2) by (auto simp: msg_ok_def)
  then have "\<forall>x \<in> set ((ms_queues s)[a := f (queue_at s a)]). queue_ok x \<and> qi_msqid x < ms_next_msgid s"
    using sub assms unfolding msg_ok_def by metis
  then show ?thesis
    using assms unfolding msg_ok_def update_queue_def
    by (auto simp: nth_list_update)
qed

lemma msg_ok_store:
  assumes "msg_ok s" "lookup_msg s i = Some a" "msg_payload_ok p"
  shows "msg_ok (store_payload a p s)"
  unfolding store_payload_def
  using assms msg_okD [OF assms(1,2)] by (intro msg_ok_update) (auto simp: queue_ok_def)

lemma total_bytes_simps [simp]:
  "total_bytes [] = 0" "total_bytes (ms @ ms') = total_bytes ms + total_bytes ms'"
  "total_bytes (m # ms) = length (mg_mtext m) + total_bytes ms"
  by (simp_all add: total_bytes_def)

lemma list_remove_at_split:
  assumes "i < length xs"
  shows "xs = take i xs @ xs ! i # drop (Suc i) xs" "length (list_remove_at i xs) = length xs - 1"
    "set (list_remove_at i xs) \<subseteq> set xs"
  using assms by (auto simp: list_remove_at_def id_take_nth_drop dest: in_set_takeD in_set_dropD)

lemma total_bytes_remove:
  assumes "i < length ms"
  shows "total_bytes ms = length (mg_mtext (ms ! i)) + total_bytes (list_remove_at i ms)"
  using arg_cong [OF list_remove_at_split(1) [OF assms], of total_bytes] by (simp add: list_remove_at_def)

lemma push_message_ok:
  assumes "msg_payload_ok p" "0 < mg_mtype m" "length (mg_mtext m) \<le> mp_max_msg_size p"
    and "\<not> (of_nat (mp_max_bytes p) :: u64) < mp_current_bytes p + of_nat (length (mg_mtext m))"
  shows "msg_payload_ok (push_message m p)"
proof -
  let ?n = "total_bytes (mp_messages p) + length (mg_mtext m)"
  have n: "?n < 2 ^ 64" "mp_max_bytes p < 2 ^ 64" using assms(1,3) by (auto simp: msg_payload_ok_def)
  have "mp_current_bytes p + of_nat (length (mg_mtext m)) = of_nat ?n"
    using assms(1) by (simp add: msg_payload_ok_def)
  then have "(of_nat ?n :: u64) \<le> of_nat (mp_max_bytes p)" using assms(4) by (simp add: not_less)
  then have "?n \<le> mp_max_bytes p"
    using of_nat_u64_le_iff [OF n] by blast
  then show ?thesis
    using assms(1-3) by (auto simp: msg_payload_ok_def push_message_def)
qed

lemma take_message_ok:
  assumes "msg_payload_ok p" "i < length (mp_messages p)" "m = mp_messages p ! i"
  shows "msg_payload_ok (take_message i m p)"
proof -
  have "mp_current_bytes p - of_nat (length (mg_mtext m)) = of_nat (total_bytes (list_remove_at i (mp_messages p)))"
    using assms total_bytes_remove [OF assms(2)] by (simp add: msg_payload_ok_def)
  moreover have "mp_msg_count p - 1 = of_nat (length (list_remove_at i (mp_messages p)))"
    using assms by (simp add: msg_payload_ok_def list_remove_at_split(2) of_nat_diff)
  ultimately show ?thesis
    using assms total_bytes_remove [OF assms(2)] list_remove_at_split(3) [OF assms(2)]
    by (auto simp: msg_payload_ok_def take_message_def)
qed

lemma find_msg_bound: "find_msg ms t = Some i \<Longrightarrow> i < length ms"
proof -
  assume a: "find_msg ms t = Some i"
  have "y \<in> set xs" if "min_by_mtype xs = Some y" for y and xs :: "(nat \<times> msg) list"
    using that by (induction xs arbitrary: y) (auto split: option.splits if_splits)
  then show ?thesis
    using a by (fastforce simp: find_msg_def Let_def position_Some_iff in_set_enumerate_eq split: if_splits)
qed

section \<open>All calls\<close>

datatype msg_call =
    Call_msgget bool i32 i32 cred
  | Call_msgsnd u32 i64 "u8 list" i32 cred
  | Call_msgrcv u32 nat i64 i32 cred
  | Call_msgctl u32 i32 "(u16 \<times> u32 \<times> u32) option" cred

fun msg_call_step :: "msg_call \<Rightarrow> ipc_namespace \<times> msg_sys \<Rightarrow> (ipc_namespace \<times> msg_sys) option" where
  "msg_call_step (Call_msgget zone_ok key msgflg c) (ns, s) = Some (snd (step_msgget zone_ok key msgflg c ns s))"
| "msg_call_step (Call_msgsnd msqid mtype mtext msgflg c) (ns, s) =
     Some (ns, snd (step_msgsnd_v3 msqid mtype mtext msgflg c s))"
| "msg_call_step (Call_msgrcv msqid msgsz msgtyp msgflg c) (ns, s) =
     map_option (\<lambda>(r, s). (ns, s)) (step_msgrcv_v3 msqid msgsz msgtyp msgflg c s)"
| "msg_call_step (Call_msgctl msqid cmd set_fields c) (ns, s) = Some (snd (step_msgctl_in_ns msqid cmd set_fields c ns s))"

fun msg_run :: "msg_call list \<Rightarrow> ipc_namespace \<times> msg_sys \<Rightarrow> (ipc_namespace \<times> msg_sys) option" where
  "msg_run [] st = Some st"
| "msg_run (call # calls) st = Option.bind (msg_call_step call st) (msg_run calls)"

text \<open>What a call leaves: a well-formed state with no fewer queues and the next identifier the
  same, or one more.\<close>

definition msg_keeps :: "msg_sys \<Rightarrow> msg_sys \<Rightarrow> bool" where
  "msg_keeps s s' \<longleftrightarrow>
     msg_ok s' \<and> length (ms_queues s) \<le> length (ms_queues s') \<and>
     ms_next_msgid s' \<in> {ms_next_msgid s, ms_next_msgid s + 1}"

lemma msg_keeps_refl [simp]: "msg_ok s \<Longrightarrow> msg_keeps s s"
  by (simp add: msg_keeps_def)

lemma register_msg_keeps:
  assumes ok: "msg_ok s" and room: "ms_next_msgid s \<noteq> - 1" and size: "max_bytes + max_msg_size < 2 ^ 64"
    and r: "register_msg zone_ok key c perm cuid cgid max_bytes max_msg_size s = (res, s')"
  shows "msg_keeps s s'" "\<And>a. res = Some a \<Longrightarrow> a < length (ms_queues s')"
proof -
  note less_next = word_less_succ [OF room, unfolded le_less]
  have in_use: "qi_msqid x < ms_next_msgid s" if "x \<in> set (ms_queues s)" for x
    using that ok by (simp add: msg_ok_def)
  have fresh: "bt_get (ms_table s) (ms_next_msgid s) = None"
  proof (rule ccontr)
    assume "bt_get (ms_table s) (ms_next_msgid s) \<noteq> None"
    then obtain a where "lookup_msg s (ms_next_msgid s) = Some a" by (auto simp: lookup_msg_def)
    from msg_okD(1,2) [OF ok this] in_use [of "queue_at s a"] show False by simp
  qed
  have "ms_next_msgid s \<notin> set (ms_removed s)"
    using ok by (auto simp: msg_ok_def)
  note fresh = fresh this
  show "\<And>a. res = Some a \<Longrightarrow> a < length (ms_queues s')"
    using r by (auto simp: register_msg_def Let_def split: if_splits)
  have "msg_ok s'"
    using ok r fresh size unfolding msg_ok_def
    by (auto simp: register_msg_def Let_def nth_append less_next queue_ok_def msg_payload_ok_def
        split: if_splits) (metis less_SucI)
  then show "msg_keeps s s'"
    using r by (auto simp: msg_keeps_def register_msg_def Let_def split: if_splits)
qed

lemma msgget_keeps:
  assumes ok: "msg_ok s" "msg_ns_ok ns s" and room: "ms_next_msgid s \<noteq> - 1"
    and r: "step_msgget zone_ok key msgflg c ns s = (res, ns', s')"
  shows "msg_keeps s s' \<and> msg_ns_ok ns' s'"
proof (cases "s' = s \<and> ns' = ns")
  case True
  then show ?thesis using ok by simp
next
  case False
  let ?mb = "unat (il_msgmnb (ns_limits ns))" and ?mm = "unat (il_msgmax (ns_limits ns))"
  obtain a0 s0 where reg: "register_msg zone_ok (ipc_key_of key) c (perm_of_flags msgflg) (cr_euid c) (cr_egid c) ?mb ?mm s = (a0, s0)"
    by fastforce
  have st: "s' = s0" and ns': "ns' = ns \<or> (\<exists>a k. a0 = Some a \<and> ns' = ns\<lparr>ns_sysv_msg := bt_insert k a (ns_sysv_msg ns)\<rparr>)"
    using r False reg
    by (auto simp: step_msgget_def Let_def split: if_splits option.splits)
  have "?mb + ?mm < 2 ^ 64"
    using unsigned_less [of "il_msgmnb (ns_limits ns)", where ?'a = nat] unsigned_less [of "il_msgmax (ns_limits ns)", where ?'a = nat] by simp
  note keeps = register_msg_keeps [OF ok(1) room this reg]
  have "msg_ns_ok ns s0" using ok(2) keeps(1) by (fastforce simp: msg_ns_ok_def msg_keeps_def)
  then have "msg_ns_ok ns' s0" using ns' keeps(2) by (auto simp: msg_ns_ok_def split: if_splits)
  then show ?thesis using keeps(1) st by simp
qed

lemma msgsnd_admitD:
  assumes "msg_ok s" "msgsnd_admit msqid mtype mtext msgflg c s = Inr a"
  obtains p where "lookup_msg s msqid = Some a" "qi_payload (queue_at s a) = Some p" "msg_payload_ok p" "0 < mtype"
    "length mtext \<le> mp_max_msg_size p" "\<not> (of_nat (mp_max_bytes p) :: u64) < mp_current_bytes p + of_nat (length mtext)"
proof -
  have a: "lookup_msg s msqid = Some a"
    using assms(2) by (auto simp: msgsnd_admit_def msg_reg.exists_lookup split: if_splits option.splits sum.splits)
  from msg_okD(4) [OF assms(1) a] obtain p where "qi_payload (queue_at s a) = Some p" "msg_payload_ok p"
    by (auto simp: queue_ok_def)
  then show ?thesis
    using that a assms(2) by (auto simp: msgsnd_admit_def msg_reg.exists_lookup split: if_splits sum.splits)
qed

lemma msgsnd_keeps:
  assumes ok: "msg_ok s"
  shows "msg_keeps s (snd (step_msgsnd_v3 msqid mtype mtext msgflg c s))"
proof (cases "msgsnd_admit msqid mtype mtext msgflg c s")
  case (Inl r)
  then show ?thesis using ok by (simp add: step_msgsnd_v3_def)
next
  case (Inr a)
  obtain p where p: "lookup_msg s msqid = Some a" "qi_payload (queue_at s a) = Some p" "msg_payload_ok p" "0 < mtype"
    "length mtext \<le> mp_max_msg_size p" "\<not> (of_nat (mp_max_bytes p) :: u64) < mp_current_bytes p + of_nat (length mtext)"
    by (rule msgsnd_admitD [OF ok Inr])
  have "msg_payload_ok (push_message \<lparr>mg_mtype = mtype, mg_mtext = mtext\<rparr> p)"
    using p by (intro push_message_ok) auto
  then show ?thesis
    using p(2) Inr msg_ok_store [OF ok p(1)]
    by (simp add: step_msgsnd_v3_def msgsnd_push_def msg_keeps_def store_payload_def)
qed

text \<open>A receive that the caller may make, by what its type selects.\<close>

lemma msgrcv_result:
  assumes ok: "msg_ok s" "lookup_msg s msqid = Some a" and read: "require_can_read_msg (queue_at s a) c = Ok ()"
    and p: "qi_payload (queue_at s a) = Some p"
  shows "step_msgrcv_v3 msqid msgsz msgtyp msgflg c s =
     (case (if mp_msg_count p = 0 then None else find_msg (mp_messages p) msgtyp) of
        None \<Rightarrow> Some (if int_flag msgflg IPC_NOWAIT then Err EAGAIN else wait_for_message p, s)
      | Some i \<Rightarrow>
          (let m = mp_messages p ! i in
           if msgsz < length (mg_mtext m) \<and> \<not> int_flag msgflg MSG_NOERROR then Some (Err E2BIG, s)
           else Some (Done (mg_mtype m, take msgsz (mg_mtext m)),
                  notify_space_available p (store_payload a (take_message i m p) s))))"
  using assms msg_okD(3) [OF ok] find_msg_bound [of "mp_messages p" msgtyp]
  by (auto simp: step_msgrcv_v3_def msg_reg.exists_lookup Let_def split: option.splits)

lemma msgrcv_keeps:
  assumes ok: "msg_ok s"
  shows "\<exists>r s'. step_msgrcv_v3 msqid msgsz msgtyp msgflg c s = Some (r, s') \<and> msg_keeps s s'"
proof (cases "\<exists>r. step_msgrcv_v3 msqid msgsz msgtyp msgflg c s = Some (r, s)")
  case True
  then show ?thesis using ok by auto
next
  case False
  obtain a where a: "lookup_msg s msqid = Some a" and read: "require_can_read_msg (queue_at s a) c = Ok ()"
    using False by (auto simp: step_msgrcv_v3_def msg_reg.exists_lookup split: if_splits option.splits sum.splits)
  obtain p where p: "qi_payload (queue_at s a) = Some p" "msg_payload_ok p"
    using msg_okD(4) [OF ok a] by (auto simp: queue_ok_def)
  have take: "msg_keeps s (notify_space_available p (store_payload a (take_message i (mp_messages p ! i) p) s))"
    if "i < length (mp_messages p)" for i
    using msg_ok_store [OF ok a take_message_ok [OF p(2) that refl]] by (simp add: msg_keeps_def store_payload_def)
  show ?thesis
    unfolding msgrcv_result [OF ok a read p(1)]
    using take ok find_msg_bound [of "mp_messages p" msgtyp] by (auto simp: Let_def split: option.splits)
qed

lemma msg_remove_keeps:
  assumes ok: "msg_ok s"
  shows "msg_keeps s (msg_remove msqid s)"
proof (cases "lookup_msg s msqid")
  case None
  then show ?thesis using ok by (simp add: msg_remove_def withdraw_msg_def lookup_msg_def)
next
  case (Some a)
  note a = msg_okD [OF ok Some]
  obtain p where p: "qi_payload (queue_at s a) = Some p" "msg_payload_ok p"
    using a(4) by (auto simp: queue_ok_def)
  define s1 where "s1 = s\<lparr>ms_table := bt_remove msqid (ms_table s), ms_removed := ms_removed s @ [msqid]\<rparr>"
  define s2 where "s2 = update_queue a (\<lambda>x. x\<lparr>qi_destroyed := True\<rparr>) s1"
  have s3: "msg_remove msqid s = abort_removed p (store_payload a (p\<lparr>mp_queue_seq := mp_queue_seq p + 1\<rparr>) s2)"
    using Some p a(1) by (simp add: msg_remove_def withdraw_msg_def lookup_msg_def s1_def s2_def)
  have "queue_at s a \<in> set (ms_queues s)" using a(1) by simp
  then have "msqid < ms_next_msgid s" using ok a(2) unfolding msg_ok_def by metis
  then have ok1: "msg_ok s1"
    using ok unfolding msg_ok_def s1_def by (auto split: if_splits)
  have a1: "a < length (ms_queues s1)" "queue_at s1 a = queue_at s a" "bt_get (ms_table s1) msqid = None"
    using a(1) by (simp_all add: s1_def)
  have ok2: "msg_ok s2"
    unfolding s2_def using ok1 a1 a by (intro msg_ok_update) (auto simp: queue_ok_def)
  have "msg_ok (store_payload a (p\<lparr>mp_queue_seq := mp_queue_seq p + 1\<rparr>) s2)"
    unfolding store_payload_def
    using ok2 a1 a p(2) by (intro msg_ok_update) (auto simp: s2_def queue_ok_def msg_payload_ok_def)
  then show ?thesis
    unfolding s3 by (auto simp: msg_keeps_def store_payload_def s2_def s1_def abort_removed_def msg_ok_def)
qed

lemma with_queue_keeps:
  assumes "msg_ok s" "\<And>a. lookup_msg s msqid = Some a \<Longrightarrow> msg_keeps s (snd (f a))"
  shows "msg_keeps s (snd (with_queue msqid check c f s))"
  using assms by (auto simp: with_queue_def msg_reg.exists_lookup split: option.splits sum.splits)

lemma msgctl_keeps:
  assumes ok: "msg_ok s"
  shows "msg_keeps s (snd (step_msgctl msqid cmd set_fields c s))"
proof -
  have set: "msg_keeps s (update_queue a (\<lambda>x. x\<lparr>qi_mode := mode AND 0x1ff, qi_uid := uid, qi_gid := gid\<rparr>) s)"
    if "lookup_msg s msqid = Some a" for a mode uid gid
    using msg_okD [OF ok that] ok by (auto simp: msg_keeps_def queue_ok_def intro!: msg_ok_update)
  have info: "snd (case x of (m, n) \<Rightarrow> (g m n, s)) = s" for x :: "u64 \<times> u64" and g :: "u64 \<Rightarrow> u64 \<Rightarrow> msg_ctl_result result"
    by (cases x) simp
  have s1: "msg_keeps s (snd (with_queue msqid msg_require_owner_or_admin c (\<lambda>a. (Ok Msg_Success, msg_remove msqid s)) s))"
    using msg_remove_keeps [OF ok] by (intro with_queue_keeps [OF ok]) simp
  have s2: "msg_keeps s (snd (with_queue msqid msg_require_owner_or_admin c (\<lambda>a.
          case set_fields of
            None \<Rightarrow> (Error EINVAL, s)
          | Some (mode, uid, gid) \<Rightarrow>
              (Ok Msg_Success,
               update_queue a (\<lambda>x. x\<lparr>qi_mode := mode AND 0x1ff, qi_uid := uid, qi_gid := gid\<rparr>) s)) s))"
    using set ok by (intro with_queue_keeps [OF ok]) (auto split: option.splits)
  have s3: "msg_keeps s (snd (with_queue msqid require_can_read_msg c (\<lambda>a.
          case qi_payload (queue_at s a) of
            None \<Rightarrow> (Error EIDRM, s)
          | Some p \<Rightarrow> (Ok (Msg_Stat (msg_info_of (queue_at s a) p)), s)) s))"
    using ok by (intro with_queue_keeps [OF ok]) (auto split: option.splits)
  show ?thesis
    unfolding step_msgctl_def using s1 s2 s3 ok by (simp only: info split: if_split) simp
qed

lemma msgctl_in_ns_keeps:
  assumes ok: "msg_ok s" "msg_ns_ok ns s" and r: "step_msgctl_in_ns msqid cmd set_fields c ns s = (res, ns', s')"
  shows "msg_keeps s s' \<and> msg_ns_ok ns' s'"
proof -
  obtain r1 s1 where ctl: "step_msgctl msqid cmd set_fields c s = (r1, s1)" by fastforce
  then have k: "msg_keeps s s1" using msgctl_keeps [OF ok(1), of msqid cmd set_fields c] by simp
  have 1: "s' = s \<or> s' = s1" "ns' = ns \<or> (\<exists>k. ns' = ns\<lparr>ns_sysv_msg := bt_remove k (ns_sysv_msg ns)\<rparr>)"
    using r by (auto simp: step_msgctl_in_ns_def ctl split: sum.splits option.splits if_splits)
  have "msg_keeps s s'" using 1(1) k ok(1) by auto
  then have "msg_ns_ok ns' s'"
    using ok(2) 1(2) by (fastforce simp: msg_ns_ok_def msg_keeps_def split: if_splits)
  then show ?thesis using \<open>msg_keeps s s'\<close> by simp
qed

lemma msg_call_keeps:
  assumes ok: "msg_ok s" "msg_ns_ok ns s" and room: "ms_next_msgid s \<noteq> - 1"
  shows "\<exists>ns' s'. msg_call_step call (ns, s) = Some (ns', s') \<and> msg_keeps s s' \<and> msg_ns_ok ns' s'"
proof (cases call)
  case (Call_msgget zone_ok key msgflg c)
  obtain r ns' s' where g: "step_msgget zone_ok key msgflg c ns s = (r, ns', s')" by (metis prod_cases3)
  then show ?thesis using msgget_keeps [OF ok room g] Call_msgget by simp
next
  case (Call_msgsnd msqid mtype mtext msgflg c)
  then show ?thesis
    using msgsnd_keeps [OF ok(1), of msqid mtype mtext msgflg c] ok(2)
    by (fastforce simp: msg_ns_ok_def msg_keeps_def)
next
  case (Call_msgrcv msqid msgsz msgtyp msgflg c)
  then show ?thesis
    using msgrcv_keeps [OF ok(1), of msqid msgsz msgtyp msgflg c] ok(2)
    by (fastforce simp: msg_ns_ok_def msg_keeps_def)
next
  case (Call_msgctl msqid cmd set_fields c)
  obtain r ns' s' where g: "step_msgctl_in_ns msqid cmd set_fields c ns s = (r, ns', s')" by (metis prod_cases3)
  then show ?thesis using msgctl_in_ns_keeps [OF ok g] Call_msgctl by simp
qed

lemma msg_run_keeps:
  assumes "msg_ok s" "msg_ns_ok ns s" "unat (ms_next_msgid s) + length calls < 2 ^ 32"
  shows "\<exists>ns' s'. msg_run calls (ns, s) = Some (ns', s') \<and> msg_ok s' \<and> msg_ns_ok ns' s'"
  using assms
proof (induction calls arbitrary: ns s)
  case (Cons call calls)
  have room: "ms_next_msgid s \<noteq> - 1" using Cons.prems(3) by (auto simp: unsigned_minus_1_eq_mask mask_eq_exp_minus_1)
  then have "unat (ms_next_msgid s + 1) = unat (ms_next_msgid s) + 1"
    by (metis Suc_eq_plus1 add.commute eq_neg_iff_add_eq_0 unatSuc)
  moreover obtain ns1 s1 where 1: "msg_call_step call (ns, s) = Some (ns1, s1)" "msg_keeps s s1" "msg_ns_ok ns1 s1"
    using msg_call_keeps [OF Cons.prems(1,2) room, of call] by blast
  ultimately have "unat (ms_next_msgid s1) + length calls < 2 ^ 32"
    using Cons.prems(3) by (auto simp: msg_keeps_def)
  moreover have "msg_ok s1" using 1(2) by (simp add: msg_keeps_def)
  ultimately show ?case using Cons.IH [of s1 ns1] 1 by simp
qed simp

section \<open>Properties\<close>

definition msg_sys_init :: msg_sys where
  "msg_sys_init =
     \<lparr>ms_queues = [], ms_table = [], ms_removed = [], ms_next_msgid = 1, ms_next_source = 0x100000000, ms_posts = []\<rparr>"

text \<open>
  C29: The accounting of message queues is exact: after any sequence of fewer than \<open>2^32 - 1\<close>
  calls of \<open>msgget\<close>, \<open>msgsnd\<close>, \<open>msgrcv\<close> and \<open>msgctl\<close> from the initial state, none of which
  panics, the byte counter of every queue is the number of bytes in its messages, which is
  within the limit of the queue, the message counter is the number of messages modulo \<open>2^32\<close>,
  and every message has a positive type and is no longer than the limit for one message.
\<close>

theorem message_queue_accounting:
  assumes "length calls < 2 ^ 32 - 1"
  shows "\<exists>ns s. msg_run calls (ipc_namespace_default, msg_sys_init) = Some (ns, s) \<and>
    (\<forall>x \<in> set (ms_queues s). \<exists>p. qi_payload x = Some p \<and>
       unat (mp_current_bytes p) = total_bytes (mp_messages p) \<and> total_bytes (mp_messages p) \<le> mp_max_bytes p \<and>
       mp_msg_count p = of_nat (length (mp_messages p)) \<and>
       (\<forall>m \<in> set (mp_messages p). 0 < mg_mtype m \<and> length (mg_mtext m) \<le> mp_max_msg_size p))"
proof -
  have "msg_ok msg_sys_init" "msg_ns_ok ipc_namespace_default msg_sys_init"
    by (simp_all add: msg_ok_def msg_ns_ok_def msg_sys_init_def ipc_namespace_default_def ipc_namespace_with_limits_def)
  from msg_run_keeps [OF this, of calls] obtain ns s where
    r: "msg_run calls (ipc_namespace_default, msg_sys_init) = Some (ns, s)" and ok: "msg_ok s"
    using assms by (auto simp: msg_sys_init_def)
  have "unat (mp_current_bytes p) = total_bytes (mp_messages p)" if "msg_payload_ok p" for p
    using that by (simp add: msg_payload_ok_def unsigned_of_nat take_bit_nat_eq_self)
  then have "\<exists>p. qi_payload x = Some p \<and>
       unat (mp_current_bytes p) = total_bytes (mp_messages p) \<and> total_bytes (mp_messages p) \<le> mp_max_bytes p \<and>
       mp_msg_count p = of_nat (length (mp_messages p)) \<and>
       (\<forall>m \<in> set (mp_messages p). 0 < mg_mtype m \<and> length (mg_mtext m) \<le> mp_max_msg_size p)"
    if "x \<in> set (ms_queues s)" for x
    using that ok by (fastforce simp: msg_ok_def queue_ok_def msg_payload_ok_def)
  then show ?thesis using r by blast
qed


section \<open>Where the code departs\<close>

text \<open>
  For the smallest 64-bit type the negation wraps: no message has a type that small, so the
  receive finds none, although every message should be selected.
\<close>

theorem msgrcv_minimum_selects_nothing:
  assumes "\<forall>m \<in> set ms. 0 < mg_mtype m"
  shows "find_msg ms (- (2 ^ 63)) = None \<and> (\<forall>m \<in> set ms. mg_mtype m < 2 ^ 63 \<longrightarrow> wanted (- (2 ^ 63)) m)"
proof -
  have "wrap_i64 (2 ^ 63) = - (2 ^ 63)" by (simp add: wrap_i64_def)
  moreover have "filter (\<lambda>(i, m). mg_mtype m \<le> - (2 ^ 63)) (enumerate 0 ms) = []"
    using assms by (fastforce simp: filter_empty_conv in_set_enumerate_eq dest!: nth_mem)
  ultimately show ?thesis by (simp add: find_msg_def wanted_def)
qed

definition sample_queues :: "msg list \<Rightarrow> msg_sys" where
  "sample_queues ms =
     \<lparr>ms_queues = [\<lparr>qi_key = Some 7, qi_msqid = 1, qi_cred = cred_root, qi_mode = 0x180, qi_uid = 0, qi_gid = 0,
        qi_cuid = 0, qi_cgid = 0, qi_destroyed = False,
        qi_payload = Some \<lparr>mp_messages = ms, mp_current_bytes = of_nat (total_bytes ms), mp_max_bytes = 10,
          mp_max_msg_size = 8, mp_queue_seq = 0, mp_msg_count = of_nat (length ms),
          mp_send_source_id = 0x100000000, mp_recv_source_id = 0x100000001\<rparr>\<rparr>],
      ms_table = [(1, 0)], ms_removed = [], ms_next_msgid = 2, ms_next_source = 0x100000002, ms_posts = []\<rparr>"

text \<open>
  Two senders that both pass the test of the space before either stores its message fill the
  queue beyond its limit.
\<close>

theorem concurrent_senders_exceed_the_limit:
  fixes body :: "u8 list"
  defines "body \<equiv> replicate 8 0"
  shows "msgsnd_admit 1 1 body 0 cred_root (sample_queues []) = Inr 0 \<and>
    map_option (\<lambda>p. (total_bytes (mp_messages p), mp_max_bytes p))
      (qi_payload (queue_at (snd (msgsnd_push 0 1 body (snd (msgsnd_push 0 1 body (sample_queues []))))) 0)) = Some (16, 10)"
  by (simp add: body_def msgsnd_admit_def msg_reg.exists_lookup lookup_msg_def sample_queues_def
      require_can_write_msg_def cred_root_def msgsnd_push_def push_message_def store_payload_def
      update_queue_def notify_message_available_def)

section \<open>Instances\<close>

theorem message_queue_accounting_witness:
  "\<exists>ns s. msg_run [Call_msgget True 7 0x380 cred_root, Call_msgsnd 1 5 [1, 2, 3] 0 cred_root, Call_msgsnd 1 2 [] 0 cred_root,
       Call_msgrcv 1 10 (- 3) 0 cred_root, Call_msgctl 1 IPC_RMID None cred_root] (ipc_namespace_default, msg_sys_init) = Some (ns, s) \<and>
    (\<forall>x \<in> set (ms_queues s). \<exists>p. qi_payload x = Some p \<and>
       unat (mp_current_bytes p) = total_bytes (mp_messages p) \<and> total_bytes (mp_messages p) \<le> mp_max_bytes p \<and>
       mp_msg_count p = of_nat (length (mp_messages p)) \<and>
       (\<forall>m \<in> set (mp_messages p). 0 < mg_mtype m \<and> length (mg_mtext m) \<le> mp_max_msg_size p))"
  by (rule message_queue_accounting) simp



end
