(* ===== verification/Posix_Mq.thy ===== *)
theory Posix_Mq
  imports Msg_Props
begin

text \<open>
  POSIX message queues (\<open>tx-subsystems/src/ipc/posix_mq\<close>): named queues on top of the System V
  ones, with a priority in place of the type and a notification that fires once. Identities and
  open instances are elements of lists, as the queues are. How many receivers a notification
  wakes and whether the owner of a registration is still alive are arguments of a send; the
  signals it delivers are a log.
\<close>

section \<open>State\<close>

datatype mq_notification = Mq_None | Mq_Signal (mn_signum: u8) (mn_owner: nat)

record posix_mq_identity =
  pi_name :: posix_mq_name
  pi_cred :: cred
  pi_perm :: ipc_perm
  pi_msqid :: u32
  pi_maxmsg :: i64
  pi_msgsize :: i64
  pi_notify :: "mq_notification option"

record posix_mq_instance =
  in_identity :: addr
  in_flags :: i64

record mq_sys =
  qs_msg :: msg_sys
  qs_identities :: "posix_mq_identity list"
  qs_instances :: "posix_mq_instance list"
  qs_id_table :: "(u32, addr) btree"
  qs_next_mqid :: u32
  qs_signals :: "(u8 \<times> nat) list"

record mq_create_attr =
  ca_maxmsg :: i64
  ca_msgsize :: i64

record mq_attr =
  at_flags :: i64
  at_maxmsg :: i64
  at_msgsize :: i64
  at_curmsgs :: i64

record mq_poll_info =
  pl_readable :: bool
  pl_writable :: bool
  pl_read_source_id :: u64
  pl_write_source_id :: u64

definition MQ_O_CREAT :: i32 where "MQ_O_CREAT = 0x40"
definition MQ_O_EXCL :: i32 where "MQ_O_EXCL = 0x80"
definition MQ_O_NONBLOCK :: i32 where "MQ_O_NONBLOCK = 0x800"
definition MQ_PRIO_MAX :: u32 where "MQ_PRIO_MAX = 32768"

abbreviation identity_at :: "mq_sys \<Rightarrow> addr \<Rightarrow> posix_mq_identity" where
  "identity_at s h \<equiv> qs_identities s ! in_identity (qs_instances s ! h)"

section \<open>Registry\<close>

definition register_mq ::
    "bool \<Rightarrow> posix_mq_name \<Rightarrow> cred \<Rightarrow> ipc_perm \<Rightarrow> u32 \<Rightarrow> i64 \<Rightarrow> i64 \<Rightarrow> mq_sys \<Rightarrow> addr option \<times> mq_sys" where
  "register_mq zone_ok name c perm msqid maxmsg msgsize s =
     (let mqid = qs_next_mqid s;
          s = s\<lparr>qs_next_mqid := mqid + 1\<rparr>;
          i = length (qs_identities s)
      in if \<not> zone_ok then (None, s)
         else (Some i,
               s\<lparr>qs_identities := qs_identities s @
                   [\<lparr>pi_name = name, pi_cred = c, pi_perm = perm, pi_msqid = msqid, pi_maxmsg = maxmsg,
                     pi_msgsize = msgsize, pi_notify = None\<rparr>],
                 qs_id_table := bt_insert mqid i (qs_id_table s)\<rparr>))"

definition open_instance :: "bool \<Rightarrow> addr \<Rightarrow> i64 \<Rightarrow> mq_sys \<Rightarrow> addr result \<times> mq_sys" where
  "open_instance zone_ok i flags s =
     (if zone_ok
      then (Ok (length (qs_instances s)),
            s\<lparr>qs_instances := qs_instances s @ [\<lparr>in_identity = i, in_flags = flags\<rparr>]\<rparr>)
      else (Error ENOMEM, s))"

section \<open>Opening and unlinking\<close>

text \<open>The three boolean arguments say whether the allocations of the queue, of the identity and of
  the instance succeed.\<close>

definition mq_defaults :: "ipc_limits \<Rightarrow> mq_create_attr" where
  "mq_defaults limits =
     \<lparr>ca_maxmsg = uint (il_mq_maxmsg limits), ca_msgsize = uint (min (il_mq_msgsize_max limits) (il_msgmax limits))\<rparr>"

definition mq_create ::
    "bool \<Rightarrow> bool \<Rightarrow> bool \<Rightarrow> posix_mq_name \<Rightarrow> i64 \<Rightarrow> u16 \<Rightarrow> mq_create_attr \<Rightarrow> cred \<Rightarrow> ipc_namespace \<Rightarrow> mq_sys
     \<Rightarrow> addr result \<times> ipc_namespace \<times> mq_sys" where
  "mq_create queue_zone identity_zone instance_zone name flags mode attr c ns s =
     (let limits = ns_limits ns
      in if ca_maxmsg attr \<le> 0 \<or> ca_msgsize attr \<le> 0 \<or> uint (il_mq_maxmsg limits) < ca_maxmsg attr \<or>
            uint (min (il_mq_msgsize_max limits) (il_msgmax limits)) < ca_msgsize attr
         then (Error EINVAL, ns, s)
         else
           (case checked_mul (nat (ca_maxmsg attr)) (nat (ca_msgsize attr)) of
              None \<Rightarrow> (Error EINVAL, ns, s)
            | Some max_bytes \<Rightarrow>
                (case register_msg queue_zone None c (ipc_perm_new mode) (cr_euid c) (cr_egid c) max_bytes
                        (nat (ca_msgsize attr)) (qs_msg s) of
                   (None, ms) \<Rightarrow> (Error ENOMEM, ns, s\<lparr>qs_msg := ms\<rparr>)
                 | (Some a, ms) \<Rightarrow>
                     (case register_mq identity_zone name c (ipc_perm_new mode) (qi_msqid (queue_at ms a))
                             (ca_maxmsg attr) (ca_msgsize attr) (s\<lparr>qs_msg := ms\<rparr>) of
                        (None, s) \<Rightarrow> (Error ENOMEM, ns, s)
                      | (Some i, s) \<Rightarrow>
                          (case open_instance instance_zone i flags s of
                             (r, s) \<Rightarrow>
                               (r, ns\<lparr>ns_posix_mq := bt_insert (pi_name (qs_identities s ! i)) i (ns_posix_mq ns)\<rparr>, s))))))"

definition step_mq_open ::
    "bool \<Rightarrow> bool \<Rightarrow> bool \<Rightarrow> posix_mq_name \<Rightarrow> i32 \<Rightarrow> u16 \<Rightarrow> mq_create_attr option \<Rightarrow> cred \<Rightarrow> ipc_namespace \<Rightarrow> mq_sys
     \<Rightarrow> addr result \<times> ipc_namespace \<times> mq_sys" where
  "step_mq_open queue_zone identity_zone instance_zone name oflag mode attr c ns s =
     (let create = int_flag oflag MQ_O_CREAT;
          exclusive = int_flag oflag MQ_O_EXCL;
          flags = oflag AND MQ_O_NONBLOCK
      in case bt_get (ns_posix_mq ns) name of
           Some i \<Rightarrow>
             if exclusive \<and> create then (Error EEXIST, ns, s)
             else (case open_instance instance_zone i flags s of (r, s) \<Rightarrow> (r, ns, s))
         | None \<Rightarrow>
             if create
             then mq_create queue_zone identity_zone instance_zone name flags mode
                    (case attr of None \<Rightarrow> mq_defaults (ns_limits ns) | Some x \<Rightarrow> x) c ns s
             else (Error ENOENT, ns, s))"

definition step_mq_unlink :: "posix_mq_name \<Rightarrow> ipc_namespace \<Rightarrow> unit result \<times> ipc_namespace" where
  "step_mq_unlink name ns =
     (case bt_get (ns_posix_mq ns) name of
        None \<Rightarrow> (Error ENOENT, ns)
      | Some _ \<Rightarrow> (Ok (), ns\<lparr>ns_posix_mq := bt_remove name (ns_posix_mq ns)\<rparr>))"

section \<open>Sending\<close>

text \<open>The first look at the queue: it is there and has room for one more message.\<close>

definition mq_has_room :: "addr \<Rightarrow> mq_sys \<Rightarrow> unit result" where
  "mq_has_room h s =
     (case lookup_msg (qs_msg s) (pi_msqid (identity_at s h)) of
        None \<Rightarrow> Error EINVAL
      | Some a \<Rightarrow>
          (case qi_payload (queue_at (qs_msg s) a) of
             None \<Rightarrow> Error EIDRM
           | Some p \<Rightarrow> if pi_maxmsg (identity_at s h) \<le> uint (mp_msg_count p) then Error EAGAIN else Ok ()))"

definition mq_deliver :: "(nat \<Rightarrow> bool) \<Rightarrow> mq_notification option \<Rightarrow> mq_sys \<Rightarrow> mq_sys" where
  "mq_deliver alive note s =
     (case note of
        Some (Mq_Signal signum owner) \<Rightarrow>
          if alive owner then s\<lparr>qs_signals := qs_signals s @ [(signum, owner)]\<rparr> else s
      | _ \<Rightarrow> s)"

text \<open>Storing the message and taking the registration, when the queue was empty and no receiver
  was woken.\<close>

definition mq_store ::
    "nat \<Rightarrow> (nat \<Rightarrow> bool) \<Rightarrow> addr \<Rightarrow> addr \<Rightarrow> msg_payload \<Rightarrow> msg \<Rightarrow> mq_sys \<Rightarrow> mq_sys" where
  "mq_store woken alive h a p m s =
     (let was_empty = (mp_msg_count p = 0);
          i = in_identity (qs_instances s ! h);
          note = (if was_empty \<and> woken = 0 then pi_notify (qs_identities s ! i) else None);
          s = s\<lparr>qs_msg := notify_message_available p (store_payload a (push_message m p) (qs_msg s))\<rparr>;
          s = (if was_empty \<and> woken = 0
               then s\<lparr>qs_identities := (qs_identities s)[i := (qs_identities s ! i)\<lparr>pi_notify := None\<rparr>]\<rparr>
               else s)
      in mq_deliver alive note s)"

definition step_mq_send ::
    "nat \<Rightarrow> (nat \<Rightarrow> bool) \<Rightarrow> addr \<Rightarrow> u8 list \<Rightarrow> u32 \<Rightarrow> cred \<Rightarrow> mq_sys \<Rightarrow> unit result \<times> mq_sys" where
  "step_mq_send woken alive h body prio c s =
     (if MQ_PRIO_MAX \<le> prio then (Error EINVAL, s)
      else
        (case mq_has_room h s of
           Inl e \<Rightarrow> (Error e, s)
         | Inr _ \<Rightarrow>
             (case require_msg_exists (qs_msg s) (pi_msqid (identity_at s h)) of
                Inl e \<Rightarrow> (Error e, s)
              | Inr a \<Rightarrow>
                  if qi_destroyed (queue_at (qs_msg s) a) then (Error EIDRM, s)
                  else
                    (case require_can_write_msg (queue_at (qs_msg s) a) c of
                       Inl e \<Rightarrow> (Error e, s)
                     | Inr _ \<Rightarrow>
                         (case qi_payload (queue_at (qs_msg s) a) of
                            None \<Rightarrow> (Error EIDRM, s)
                          | Some p \<Rightarrow>
                              if mp_max_msg_size p < length body then (Error EINVAL, s)
                              else if (of_nat (mp_max_bytes p) :: u64) < mp_current_bytes p + of_nat (length body)
                              then (Error EAGAIN, s)
                              else (Ok (), mq_store woken alive h a p
                                      \<lparr>mg_mtype = uint prio + 1, mg_mtext = body\<rparr> s))))))"

section \<open>Receiving\<close>

text \<open>The loop over the messages: the position of the first of the greatest type above \<open>best\<close>.\<close>

fun best_pos :: "nat \<Rightarrow> msg list \<Rightarrow> i64 \<Rightarrow> nat option \<Rightarrow> nat option" where
  "best_pos i [] best_type pos = pos"
| "best_pos i (m # ms) best_type pos =
     (if best_type < mg_mtype m then best_pos (Suc i) ms (mg_mtype m) (Some i)
      else best_pos (Suc i) ms best_type pos)"

definition i64_min :: i64 where "i64_min = - (2 ^ 63)"

definition step_mq_receive :: "addr \<Rightarrow> nat \<Rightarrow> cred \<Rightarrow> mq_sys \<Rightarrow> ((u8 list \<times> u32) result \<times> mq_sys) option" where
  "step_mq_receive h max_len c s =
     (case lookup_msg (qs_msg s) (pi_msqid (identity_at s h)) of
        None \<Rightarrow> Some (Error EINVAL, s)
      | Some a \<Rightarrow>
          (case require_can_read_msg (queue_at (qs_msg s) a) c of
             Inl e \<Rightarrow> Some (Error e, s)
           | Inr _ \<Rightarrow>
               (case qi_payload (queue_at (qs_msg s) a) of
                  None \<Rightarrow> Some (Error EIDRM, s)
                | Some p \<Rightarrow>
                    if mp_msg_count p = 0 then Some (Error EAGAIN, s)
                    else
                      (case best_pos 0 (mp_messages p) i64_min None of
                         None \<Rightarrow> Some (Error EAGAIN, s)
                       | Some pos \<Rightarrow>
                           do {
                             m \<leftarrow> idx (mp_messages p) pos;
                             if max_len < length (mg_mtext m) then Some (Error E2BIG, s)
                             else Some (Ok (mg_mtext m, word_of_int (max i64_min (mg_mtype m - 1))),
                                    s\<lparr>qs_msg := notify_space_available p (store_payload a (take_message pos m p) (qs_msg s))\<rparr>)
                           }))))"

section \<open>Attributes and notification\<close>

definition mq_payload :: "addr \<Rightarrow> mq_sys \<Rightarrow> msg_payload result" where
  "mq_payload h s =
     and_then (ok_or (lookup_msg (qs_msg s) (pi_msqid (identity_at s h))) EINVAL)
       (\<lambda>a. ok_or (qi_payload (queue_at (qs_msg s) a)) EIDRM)"

definition step_mq_getattr :: "addr \<Rightarrow> mq_sys \<Rightarrow> mq_attr result" where
  "step_mq_getattr h s =
     and_then (mq_payload h s) (\<lambda>p.
       Ok \<lparr>at_flags = in_flags (qs_instances s ! h), at_maxmsg = pi_maxmsg (identity_at s h),
           at_msgsize = pi_msgsize (identity_at s h), at_curmsgs = uint (mp_msg_count p)\<rparr>)"

definition step_mq_poll_info :: "addr \<Rightarrow> mq_sys \<Rightarrow> mq_poll_info result" where
  "step_mq_poll_info h s =
     and_then (mq_payload h s) (\<lambda>p.
       Ok \<lparr>pl_readable = (0 < uint (mp_msg_count p)),
           pl_writable = (uint (mp_msg_count p) < pi_maxmsg (identity_at s h) \<and>
                          mp_current_bytes p < of_nat (mp_max_bytes p)),
           pl_read_source_id = mp_recv_source_id p, pl_write_source_id = mp_send_source_id p\<rparr>)"

definition step_mq_setattr :: "addr \<Rightarrow> i64 \<Rightarrow> mq_sys \<Rightarrow> mq_attr result \<times> mq_sys" where
  "step_mq_setattr h new_flags s =
     (if new_flags AND NOT MQ_O_NONBLOCK \<noteq> 0 then (Error EINVAL, s)
      else
        (case step_mq_getattr h s of
           Inl e \<Rightarrow> (Error e, s)
         | Inr old \<Rightarrow>
             (Ok old, s\<lparr>qs_instances := (qs_instances s)[h := (qs_instances s ! h)\<lparr>in_flags := new_flags\<rparr>]\<rparr>)))"

definition step_mq_notify :: "addr \<Rightarrow> mq_notification option \<Rightarrow> mq_sys \<Rightarrow> unit result \<times> mq_sys" where
  "step_mq_notify h note s =
     (let i = in_identity (qs_instances s ! h)
      in if note \<noteq> None \<and> pi_notify (qs_identities s ! i) \<noteq> None then (Error EBUSY, s)
         else (Ok (), s\<lparr>qs_identities := (qs_identities s)[i := (qs_identities s ! i)\<lparr>pi_notify := note\<rparr>]\<rparr>))"

end
