(* ===== verification/Mq_Order.thy ===== *)
theory Mq_Order
  imports Posix_Mq "HOL-Library.Multiset"
begin

text \<open>
  POSIX queues deliver by priority: receiving is the removal of the first message of the greatest
  priority, and draining a queue is a stable sort.
\<close>


section \<open>The order of delivery\<close>

lemma best_pos_keeps:
  "\<forall>m \<in> set ms. mg_mtype m \<le> b \<Longrightarrow> best_pos n ms b pos = pos"
  by (induction ms arbitrary: n) auto

definition first_greatest :: "msg list \<Rightarrow> nat \<Rightarrow> bool" where
  "first_greatest ms i \<longleftrightarrow>
     i < length ms \<and> (\<forall>j < length ms. mg_mtype (ms ! j) \<le> mg_mtype (ms ! i)) \<and>
     (\<forall>j < i. mg_mtype (ms ! j) < mg_mtype (ms ! i))"

lemma first_greatest_Cons:
  assumes "first_greatest ms i" "mg_mtype m < mg_mtype (ms ! i)"
  shows "first_greatest (m # ms) (Suc i)"
  using assms by (auto simp: first_greatest_def less_Suc_eq_0_disj intro: less_imp_le)

lemma best_pos_finds:
  "\<exists>m \<in> set ms. b < mg_mtype m \<Longrightarrow> \<exists>i. best_pos n ms b pos = Some (n + i) \<and> first_greatest ms i \<and> b < mg_mtype (ms ! i)"
proof (induction ms arbitrary: n b pos)
  case (Cons m ms)
  show ?case
  proof (cases "b < mg_mtype m")
    case True
    show ?thesis
    proof (cases "\<exists>m' \<in> set ms. mg_mtype m < mg_mtype m'")
      case more: True
      obtain i where "best_pos (Suc n) ms (mg_mtype m) (Some n) = Some (Suc n + i)" "first_greatest ms i"
        "mg_mtype m < mg_mtype (ms ! i)"
        using Cons.IH [OF more] by blast
      then show ?thesis using True first_greatest_Cons by (intro exI [of _ "Suc i"]) auto
    next
      case False
      then have "best_pos (Suc n) ms (mg_mtype m) (Some n) = Some n" by (intro best_pos_keeps) auto
      moreover have "first_greatest (m # ms) 0"
        using False by (auto simp: first_greatest_def less_Suc_eq_0_disj not_less)
      ultimately show ?thesis using True by (intro exI [of _ 0]) auto
    qed
  next
    case False
    then have "\<exists>m' \<in> set ms. b < mg_mtype m'" using Cons.prems by auto
    then obtain i where "best_pos (Suc n) ms b pos = Some (Suc n + i)" "first_greatest ms i" "b < mg_mtype (ms ! i)"
      using Cons.IH by blast
    then show ?thesis using False first_greatest_Cons [of ms i m] by (intro exI [of _ "Suc i"]) auto
  qed
qed simp

lemma sort_key_first_greatest:
  assumes "first_greatest ms i"
  shows "sort_key (\<lambda>m. - mg_mtype m) ms = ms ! i # sort_key (\<lambda>m. - mg_mtype m) (list_remove_at i ms)"
proof -
  let ?f = "\<lambda>m. - mg_mtype m"
  have i: "i < length ms" using assms by (simp add: first_greatest_def)
  have split: "ms = take i ms @ ms ! i # drop (Suc i) ms" using i by (simp add: id_take_nth_drop)
  have pre: "mg_mtype m < mg_mtype (ms ! i)" if "m \<in> set (take i ms)" for m
    using that assms by (auto simp: first_greatest_def in_set_conv_nth)
  have le: "mg_mtype m \<le> mg_mtype (ms ! i)" if "m \<in> set ms" for m
    using that assms by (auto simp: first_greatest_def in_set_conv_nth)
  show ?thesis
  proof (rule properties_for_sort_key)
    show "mset (ms ! i # sort_key ?f (list_remove_at i ms)) = mset ms"
      using arg_cong [OF split, of mset] by (simp add: list_remove_at_def)
    show "filter (\<lambda>x. ?f k = ?f x) (ms ! i # sort_key ?f (list_remove_at i ms)) = filter (\<lambda>x. ?f k = ?f x) ms"
      if "k \<in> set (ms ! i # sort_key ?f (list_remove_at i ms))" for k
    proof -
      have none: "filter (\<lambda>x. ?f k = ?f x) (take i ms) = []" if "?f k = ?f (ms ! i)"
        using that pre by (fastforce simp: filter_empty_conv)
      have st: "filter (\<lambda>x. ?f k = ?f x) (sort_key ?f (list_remove_at i ms)) = filter (\<lambda>x. ?f k = ?f x) (list_remove_at i ms)"
        using sort_key_stable [of ?f "?f k" "list_remove_at i ms"] by (simp add: eq_commute)
      have "filter (\<lambda>x. ?f k = ?f x) ms = filter (\<lambda>x. ?f k = ?f x) (take i ms) @
          (if ?f k = ?f (ms ! i) then [ms ! i] else []) @ filter (\<lambda>x. ?f k = ?f x) (drop (Suc i) ms)"
        by (subst split) simp
      then show ?thesis using none st by (auto simp: list_remove_at_def)
    qed
    show "sorted (map ?f (ms ! i # sort_key ?f (list_remove_at i ms)))"
      using le list_remove_at_split(3) [OF i] by auto
  qed
qed

text \<open>Sorting commutes with a map, and depends on the order of the keys only.\<close>

lemma insort_key_map: "insort_key f (g x) (map g xs) = map g (insort_key (\<lambda>y. f (g y)) x xs)"
  by (induction xs) auto

lemma sort_key_map: "sort_key f (map g xs) = map g (sort_key (\<lambda>y. f (g y)) xs)"
  by (induction xs) (auto simp: insort_key_map)

lemma sort_key_shift:
  fixes f g :: "'a \<Rightarrow> int"
  assumes "\<And>x. f x = g x + d"
  shows "sort_key f xs = sort_key g xs"
proof -
  have "insort_key f x ys = insort_key g x ys" for x ys
    by (induction ys) (auto simp: assms)
  then show ?thesis by (induction xs) auto
qed

section \<open>Filling and draining\<close>

lemma checks_ignore_payload [simp]:
  "require_can_read_msg (x\<lparr>qi_payload := q\<rparr>) c = require_can_read_msg x c"
  "require_can_write_msg (x\<lparr>qi_payload := q\<rparr>) c = require_can_write_msg x c"
  by (simp_all add: msg_obj.read_bit msg_obj.write_bit)

text \<open>\<open>mq_view h c s ms\<close>: the instance names a queue that the caller may read and that holds the
  messages \<open>ms\<close>, each with a priority and short enough.\<close>

definition mq_view :: "addr \<Rightarrow> cred \<Rightarrow> nat \<Rightarrow> mq_sys \<Rightarrow> msg list \<Rightarrow> bool" where
  "mq_view h c max_len s ms \<longleftrightarrow>
     msg_ok (qs_msg s) \<and> length ms < 2 ^ 32 \<and>
     in_identity (qs_instances s ! h) < length (qs_identities s) \<and>
     (\<forall>m \<in> set ms. 0 < mg_mtype m \<and> length (mg_mtext m) \<le> max_len) \<and>
     (\<exists>a p. lookup_msg (qs_msg s) (pi_msqid (identity_at s h)) = Some a \<and>
        require_can_read_msg (queue_at (qs_msg s) a) c = Ok () \<and>
        qi_payload (queue_at (qs_msg s) a) = Some p \<and> mp_messages p = ms \<and> mp_max_msg_size p \<le> max_len)"

fun mq_drain :: "nat \<Rightarrow> addr \<Rightarrow> nat \<Rightarrow> cred \<Rightarrow> mq_sys \<Rightarrow> ((u8 list \<times> u32) list \<times> mq_sys) option" where
  "mq_drain 0 h max_len c s = Some ([], s)"
| "mq_drain (Suc n) h max_len c s =
     (case step_mq_receive h max_len c s of
        Some (Inr x, s) \<Rightarrow> map_option (\<lambda>(xs, s). (x # xs, s)) (mq_drain n h max_len c s)
      | _ \<Rightarrow> None)"

lemma mq_receive_view:
  assumes v: "mq_view h c max_len s ms" and ne: "ms \<noteq> []"
  shows "\<exists>i s'. first_greatest ms i \<and> mq_view h c max_len s' (list_remove_at i ms) \<and>
    step_mq_receive h max_len c s = Some (Ok (mg_mtext (ms ! i), word_of_int (mg_mtype (ms ! i) - 1)), s')"
proof -
  obtain a p where a: "lookup_msg (qs_msg s) (pi_msqid (identity_at s h)) = Some a"
    and read: "require_can_read_msg (queue_at (qs_msg s) a) c = Ok ()"
    and p: "qi_payload (queue_at (qs_msg s) a) = Some p" "mp_messages p = ms" "mp_max_msg_size p \<le> max_len"
    and ok: "msg_ok (qs_msg s)" and len: "length ms < 2 ^ 32"
    and pos: "\<And>m. m \<in> set ms \<Longrightarrow> 0 < mg_mtype m \<and> length (mg_mtext m) \<le> max_len"
    using v by (auto simp: mq_view_def)
  have pok: "msg_payload_ok p" and al: "a < length (ms_queues (qs_msg s))"
    using msg_okD [OF ok a] p(1) by (auto simp: queue_ok_def)
  have cnt: "mp_msg_count p \<noteq> 0"
    using pok p(2) ne of_nat_u32_0_iff [OF len] by (simp add: msg_payload_ok_def)
  obtain m0 where "m0 \<in> set ms" using ne by (cases ms) auto
  then have "\<exists>m \<in> set ms. i64_min < mg_mtype m" using pos [of m0] by (auto simp: i64_min_def intro!: bexI [of _ m0])
  from best_pos_finds [OF this, of 0 None] obtain i where
    b: "best_pos 0 ms i64_min None = Some i" and g: "first_greatest ms i" by auto
  have i: "i < length ms" using g by (simp add: first_greatest_def)
  let ?s' = "s\<lparr>qs_msg := notify_space_available p (store_payload a (take_message i (ms ! i) p) (qs_msg s))\<rparr>"
  have "msg_ok (qs_msg ?s')"
    using msg_ok_store [OF ok a take_message_ok [OF pok]] i p(2) by simp
  moreover have "require_can_read_msg (queue_at (qs_msg ?s') a) c = Ok ()"
    using read al by (simp add: store_payload_def)
  moreover have "qi_payload (queue_at (qs_msg ?s') a) = Some (take_message i (ms ! i) p)"
    using al by (simp add: store_payload_def)
  moreover have "lookup_msg (qs_msg ?s') (pi_msqid (identity_at ?s' h)) = Some a"
    using a by (simp add: lookup_msg_def store_payload_def)
  moreover have "mp_messages (take_message i (ms ! i) p) = list_remove_at i ms"
    "mp_max_msg_size (take_message i (ms ! i) p) \<le> max_len"
    using p by (simp_all add: take_message_def)
  moreover have "\<forall>m \<in> set (list_remove_at i ms). 0 < mg_mtype m \<and> length (mg_mtext m) \<le> max_len"
    using pos list_remove_at_split(3) [OF i] by blast
  moreover have "length (list_remove_at i ms) < 2 ^ 32" "in_identity (qs_instances ?s' ! h) < length (qs_identities ?s')"
    using len list_remove_at_split(2) [OF i] v by (simp_all add: mq_view_def)
  ultimately have "mq_view h c max_len ?s' (list_remove_at i ms)"
    unfolding mq_view_def by blast
  moreover have "step_mq_receive h max_len c s = Some (Ok (mg_mtext (ms ! i), word_of_int (mg_mtype (ms ! i) - 1)), ?s')"
    using a read p cnt b i pos [of "ms ! i"]
    by (simp add: step_mq_receive_def i64_min_def max_def)
  ultimately show ?thesis using g by blast
qed

lemma mq_drain_sorted:
  "mq_view h c max_len s ms \<Longrightarrow>
     \<exists>s'. mq_drain (length ms) h max_len c s =
       Some (map (\<lambda>m. (mg_mtext m, word_of_int (mg_mtype m - 1))) (sort_key (\<lambda>m. - mg_mtype m) ms), s') \<and>
       mq_view h c max_len s' []"
proof (induction "length ms" arbitrary: ms s)
  case 0
  then show ?case by simp
next
  case (Suc n)
  then have ne: "ms \<noteq> []" by auto
  obtain i s1 where g: "first_greatest ms i" and v: "mq_view h c max_len s1 (list_remove_at i ms)"
    and r: "step_mq_receive h max_len c s = Some (Ok (mg_mtext (ms ! i), word_of_int (mg_mtype (ms ! i) - 1)), s1)"
    using mq_receive_view [OF Suc.prems ne] by blast
  have i: "i < length ms" using g by (simp add: first_greatest_def)
  have n: "n = length (list_remove_at i ms)" using list_remove_at_split(2) [OF i] Suc.hyps(2) by simp
  from Suc.hyps(1) [OF n v] show ?case
    using r sort_key_first_greatest [OF g] n Suc.hyps(2) [symmetric] by auto
qed

text \<open>Sends that all succeed, with what the environment contributes to each.\<close>

fun mq_sends :: "addr \<Rightarrow> cred \<Rightarrow> (nat \<times> (nat \<Rightarrow> bool) \<times> u8 list \<times> u32) list \<Rightarrow> mq_sys \<Rightarrow> mq_sys option" where
  "mq_sends h c [] s = Some s"
| "mq_sends h c ((woken, alive, body, prio) # xs) s =
     (case step_mq_send woken alive h body prio c s of
        (Inr _, s) \<Rightarrow> mq_sends h c xs s
      | _ \<Rightarrow> None)"

lemma mq_send_view:
  assumes v: "mq_view h r max_len s ms" and len: "Suc (length ms) < 2 ^ 32"
    and snd: "step_mq_send woken alive h body prio c s = (Ok (), s')"
  shows "mq_view h r max_len s' (ms @ [\<lparr>mg_mtype = uint prio + 1, mg_mtext = body\<rparr>])"
proof -
  let ?m = "\<lparr>mg_mtype = uint prio + 1, mg_mtext = body\<rparr>"
  obtain a p where a: "lookup_msg (qs_msg s) (pi_msqid (identity_at s h)) = Some a"
    and read: "require_can_read_msg (queue_at (qs_msg s) a) r = Ok ()"
    and p: "qi_payload (queue_at (qs_msg s) a) = Some p" "mp_messages p = ms" "mp_max_msg_size p \<le> max_len"
    and ok: "msg_ok (qs_msg s)" and i: "in_identity (qs_instances s ! h) < length (qs_identities s)"
    and pos: "\<And>m. m \<in> set ms \<Longrightarrow> 0 < mg_mtype m \<and> length (mg_mtext m) \<le> max_len"
    using v by (auto simp: mq_view_def)
  have pok: "msg_payload_ok p" and al: "a < length (ms_queues (qs_msg s))"
    using msg_okD [OF ok a] p(1) by (auto simp: queue_ok_def)
  have s': "s' = mq_store woken alive h a p ?m s" and fit: "length body \<le> mp_max_msg_size p"
    "\<not> (of_nat (mp_max_bytes p) :: u64) < mp_current_bytes p + of_nat (length body)"
    using snd a p(1)
    by (auto simp: step_mq_send_def msg_reg.exists_lookup not_less split: if_splits sum.splits)
  have msg': "qs_msg s' = notify_message_available p (store_payload a (push_message ?m p) (qs_msg s))"
    and inst: "qs_instances s' = qs_instances s" and lid: "length (qs_identities s') = length (qs_identities s)"
    and id: "pi_msqid (identity_at s' h) = pi_msqid (identity_at s h)"
    using i by (auto simp: s' mq_store_def mq_deliver_def Let_def nth_list_update split: option.splits mq_notification.splits)
  have "msg_ok (qs_msg s')"
    unfolding msg' using msg_ok_store [OF ok a push_message_ok [OF pok]] fit by simp
  moreover have "require_can_read_msg (queue_at (qs_msg s') a) r = Ok ()"
    using read al by (simp add: msg' store_payload_def)
  moreover have "qi_payload (queue_at (qs_msg s') a) = Some (push_message ?m p)"
    using al by (simp add: msg' store_payload_def)
  moreover have "lookup_msg (qs_msg s') (pi_msqid (identity_at s' h)) = Some a"
    using a by (simp add: id msg' lookup_msg_def store_payload_def)
  moreover have "mp_messages (push_message ?m p) = ms @ [?m]" "mp_max_msg_size (push_message ?m p) \<le> max_len"
    using p by (simp_all add: push_message_def)
  moreover have "\<forall>m \<in> set (ms @ [?m]). 0 < mg_mtype m \<and> length (mg_mtext m) \<le> max_len"
    using pos fit(1) p(3) by auto
  moreover have "length (ms @ [?m]) < 2 ^ 32" "in_identity (qs_instances s' ! h) < length (qs_identities s')"
    using len i by (simp_all add: inst lid)
  ultimately show ?thesis unfolding mq_view_def by blast
qed

lemma mq_sends_view:
  "\<lbrakk>mq_view h r max_len s ms; length ms + length xs < 2 ^ 32; mq_sends h c xs s = Some s'\<rbrakk> \<Longrightarrow>
     mq_view h r max_len s' (ms @ map (\<lambda>(_, _, body, prio). \<lparr>mg_mtype = uint prio + 1, mg_mtext = body\<rparr>) xs)"
proof (induction xs arbitrary: s ms)
  case (Cons x xs)
  obtain woken alive body prio where x: "x = (woken, alive, body, prio)" by (metis prod_cases4)
  obtain s1 where s1: "step_mq_send woken alive h body prio c s = (Ok (), s1)" "mq_sends h c xs s1 = Some s'"
    using Cons.prems(3) x by (auto split: prod.splits sum.splits)
  have "Suc (length ms) < 2 ^ 32" using Cons.prems(2) by simp
  from Cons.IH [OF mq_send_view [OF Cons.prems(1) this s1(1)] _ s1(2)] show ?case
    using Cons.prems(2) x by simp
qed simp

section \<open>Properties\<close>

text \<open>
  C6: A POSIX queue is a stable priority queue: messages sent to an empty queue, in any number
  and with any priorities and whatever receivers and registrations there are, come back with
  their priorities, greatest priority first and in the order of sending among equals, and the
  queue is empty afterwards.
\<close>

theorem mq_is_a_stable_priority_queue:
  assumes "mq_view h r max_len s []" "length sent < 2 ^ 32" "mq_sends h c sent s = Some s'"
  shows "\<exists>s''. mq_drain (length sent) h max_len r s' =
      Some (sort_key (\<lambda>(body, prio). - uint prio) (map (\<lambda>(_, _, body, prio). (body, prio)) sent), s'') \<and>
    mq_view h r max_len s'' []"
proof -
  let ?m = "\<lambda>(_ :: nat, _ :: nat \<Rightarrow> bool, body :: u8 list, prio :: u32). \<lparr>mg_mtype = uint prio + 1, mg_mtext = body\<rparr>"
  let ?out = "\<lambda>m :: msg. (mg_mtext m, word_of_int (mg_mtype m - 1) :: u32)"
  have "mq_view h r max_len s' (map ?m sent)"
    using mq_sends_view [OF assms(1) _ assms(3)] assms(2) by simp
  from mq_drain_sorted [OF this] obtain s'' where
    d: "mq_drain (length sent) h max_len r s' = Some (map ?out (sort_key (\<lambda>m. - mg_mtype m) (map ?m sent)), s'')"
    "mq_view h r max_len s'' []" by auto
  have "map ?out (sort_key (\<lambda>m. - mg_mtype m) (map ?m sent)) =
      sort_key (\<lambda>(body, prio). - uint prio) (map (\<lambda>(_, _, body, prio). (body, prio)) sent)"
  proof -
    let ?k = "\<lambda>(_ :: nat, _ :: nat \<Rightarrow> bool, _ :: u8 list, prio :: u32). - uint prio"
    have "sort_key (\<lambda>x. - mg_mtype (?m x)) sent = sort_key ?k sent"
      by (rule sort_key_shift [where d = "- 1"]) (auto split: prod.splits)
    moreover have "(\<lambda>x. ?out (?m x)) = (\<lambda>(_, _, body, prio). (body, prio))"
      by (auto simp: fun_eq_iff)
    moreover have "(\<lambda>x. (\<lambda>(body, prio). - uint prio) ((\<lambda>(_, _, body, prio). (body, prio)) x)) = ?k"
      by (auto simp: fun_eq_iff)
    ultimately show ?thesis by (auto simp: sort_key_map)
  qed
  then show ?thesis using d by simp
qed

section \<open>Instances\<close>

definition sample_mq :: mq_sys where
  "sample_mq =
     \<lparr>qs_msg = sample_queues [],
      qs_identities = [\<lparr>pi_name = [47, 113], pi_cred = cred_root, pi_perm = ipc_perm_new 0x180, pi_msqid = 1,
        pi_maxmsg = 10, pi_msgsize = 8, pi_notify = Some (Mq_Signal 10 1)\<rparr>],
      qs_instances = [\<lparr>in_identity = 0, in_flags = 0\<rparr>], qs_id_table = [(1, 0)], qs_next_mqid = 2, qs_signals = []\<rparr>"

theorem mq_is_a_stable_priority_queue_witness:
  "\<exists>s' s''. mq_sends 0 cred_root [(0, \<lambda>_. True, [1], 3), (0, \<lambda>_. True, [2], 7), (0, \<lambda>_. True, [3], 3)] sample_mq = Some s' \<and>
     mq_drain 3 0 8 cred_root s' = Some ([([2], 7), ([1], 3), ([3], 3)], s'')"
proof -
  let ?sent = "[(0, \<lambda>_. True, [1], 3), (0, \<lambda>_. True, [2], 7), (0, \<lambda>_. True, [3], 3)]
    :: (nat \<times> (nat \<Rightarrow> bool) \<times> u8 list \<times> u32) list"
  have "msg_ok (sample_queues [])"
    by (auto simp: msg_ok_def sample_queues_def bt_ok_def queue_ok_def msg_payload_ok_def)
  then have v: "mq_view 0 cred_root 8 sample_mq []"
    by (simp add: mq_view_def sample_mq_def sample_queues_def lookup_msg_def require_can_read_msg_def cred_root_def)
  obtain s' where s': "mq_sends 0 cred_root ?sent sample_mq = Some s'"
    by (simp add: step_mq_send_def sample_mq_def sample_queues_def mq_has_room_def lookup_msg_def msg_reg.exists_lookup
        require_can_write_msg_def cred_root_def mq_store_def mq_deliver_def store_payload_def update_queue_def
        push_message_def notify_message_available_def MQ_PRIO_MAX_def Let_def)
  show ?thesis
    using mq_is_a_stable_priority_queue [OF v _ s'] s'
    by (auto simp flip: numeral_3_eq_3 simp del: mq_drain.simps mq_sends.simps)
qed

end
