(* ===== verification/Tmpfs.thy ===== *)
theory Tmpfs
  imports Cred_Checks "HOL-Library.List_Lexorder"
begin

text \<open>
  The in-memory file system (\<open>tx-fs/src/tmpfs/mod.rs\<close>): a table of inodes keyed by object id, whose
  directories map names to entries, and two counters that give out object ids and directory
  cookies. A name is the active prefix of an \<open>InlineName\<close>, so that the order of a directory is
  the lexicographic one of the source. The page containers of regular files are elements of an
  append-only list and their capabilities are positions in it; of a container the size and the
  page count are modelled, its pages are not. An operation that takes the lock twice is two
  definitions and their composition. Whether an allocation succeeds, and the outcome of dropping
  the cached pages of a shrinking file, are arguments.
\<close>

section \<open>Names, entries and inodes\<close>

unbundle bit_operations_syntax

type_synonym fs_object_id = u64

type_synonym inline_name = "u8 list"

definition VFS_NAME_MAX :: nat where "VFS_NAME_MAX = 255"

definition inline_name_new :: "u8 list \<Rightarrow> inline_name result" where
  "inline_name_new bytes =
     (if bytes = [] \<or> length bytes > VFS_NAME_MAX \<or> 0x2f \<in> set bytes then Error ENAMETOOLONG
      else Ok bytes)"

record dir_entry =
  de_fs_object_id :: fs_object_id
  de_kind :: inode_kind
  de_name :: inline_name

definition dir_entry_new :: "fs_object_id \<Rightarrow> inode_kind \<Rightarrow> u8 list \<Rightarrow> dir_entry result" where
  "dir_entry_new fs_object_id kind name =
     and_then (inline_name_new name)
       (\<lambda>inline. Ok \<lparr>de_fs_object_id = fs_object_id, de_kind = kind, de_name = inline\<rparr>)"

definition TMPFS_ROOT_MODE :: u16 where "TMPFS_ROOT_MODE = S_IFDIR OR 0x1ed"
definition TMPFS_ROOT_OBJECT_ID :: fs_object_id where "TMPFS_ROOT_OBJECT_ID = 2"
definition TMPFS_FIRST_FREE_OBJECT_ID :: u64 where "TMPFS_FIRST_FREE_OBJECT_ID = 3"
definition TMPFS_FILE_PAGE_CAP :: u64 where "TMPFS_FILE_PAGE_CAP = 65536"
definition TMPFS_SYMLINK_MAX :: nat where "TMPFS_SYMLINK_MAX = VFS_NAME_MAX"
definition USER_PAGE_SIZE :: u64 where "USER_PAGE_SIZE = 4096"

record tmpfs_dir_entry =
  te_object_id :: fs_object_id
  te_cookie :: u64

type_synonym dir_children = "(inline_name, tmpfs_dir_entry) btree"

datatype tmpfs_payload =
  DirectoryP dir_children
| RegularFileP (rf_container: nat) (rf_size: u64)
| SymlinkP "u8 list"

record tmpfs_inode =
  ti_meta :: inode_meta
  ti_payload :: tmpfs_payload
  ti_nlink :: u32

section \<open>Page containers\<close>

record page_container =
  pc_page_count :: u64
  pc_size_bytes :: u64

definition u64_sat_mul :: "u64 \<Rightarrow> u64 \<Rightarrow> u64" where
  "u64_sat_mul a b = (if uint a * uint b < 2 ^ 64 then a * b else - 1)"

definition u64_checked_mul :: "u64 \<Rightarrow> u64 \<Rightarrow> u64 option" where
  "u64_checked_mul a b = (if uint a * uint b < 2 ^ 64 then Some (a * b) else None)"

definition page_container_new :: "u64 \<Rightarrow> page_container" where
  "page_container_new page_count =
     \<lparr>pc_page_count = page_count, pc_size_bytes = u64_sat_mul page_count USER_PAGE_SIZE\<rparr>"

definition set_size_bytes :: "u64 \<Rightarrow> page_container \<Rightarrow> page_container" where
  "set_size_bytes new_size pc = pc\<lparr>pc_size_bytes := new_size\<rparr>"

definition byte_capacity :: "page_container \<Rightarrow> u64 option" where
  "byte_capacity pc = u64_checked_mul (pc_page_count pc) USER_PAGE_SIZE"

definition validate_truncate :: "page_container \<Rightarrow> u64 \<Rightarrow> unit result" where
  "validate_truncate pc new_size =
     (case byte_capacity pc of
        None \<Rightarrow> Error EINVAL
      | Some capacity \<Rightarrow> if new_size > capacity then Error EINVAL else Ok ())"

definition commit_truncate :: "unit result \<Rightarrow> page_container \<Rightarrow> u64 \<Rightarrow> unit result \<times> page_container" where
  "commit_truncate drop_tail pc new_size =
     (case (if new_size < pc_size_bytes pc then drop_tail else Ok ()) of
        Inl e \<Rightarrow> (Error e, pc)
      | Inr _ \<Rightarrow> (Ok (), set_size_bytes new_size pc))"

definition step_truncate :: "unit result \<Rightarrow> page_container \<Rightarrow> u64 \<Rightarrow> unit result \<times> page_container" where
  "step_truncate drop_tail pc new_size =
     (case validate_truncate pc new_size of
        Inl e \<Rightarrow> (Error e, pc)
      | Inr _ \<Rightarrow> commit_truncate drop_tail pc new_size)"

section \<open>The file system\<close>

record tmpfs =
  tf_inodes :: "(fs_object_id, tmpfs_inode) btree"
  tf_next_object_id :: u64
  tf_next_dirent_cookie :: u64
  tf_containers :: "page_container list"

definition tmpfs_state_new :: "(fs_object_id, tmpfs_inode) btree" where
  "tmpfs_state_new =
     [(TMPFS_ROOT_OBJECT_ID,
       \<lparr>ti_meta = inode_meta_new Directory TMPFS_ROOT_MODE, ti_payload = DirectoryP [], ti_nlink = 2\<rparr>)]"

definition tmpfs_new :: tmpfs where
  "tmpfs_new =
     \<lparr>tf_inodes = tmpfs_state_new, tf_next_object_id = TMPFS_FIRST_FREE_OBJECT_ID,
      tf_next_dirent_cookie = 1, tf_containers = []\<rparr>"

definition alloc_object_id :: "tmpfs \<Rightarrow> fs_object_id \<times> tmpfs" where
  "alloc_object_id tf = (tf_next_object_id tf, tf\<lparr>tf_next_object_id := tf_next_object_id tf + 1\<rparr>)"

definition alloc_dirent :: "fs_object_id \<Rightarrow> tmpfs \<Rightarrow> tmpfs_dir_entry \<times> tmpfs" where
  "alloc_dirent object_id tf =
     (\<lparr>te_object_id = object_id, te_cookie = tf_next_dirent_cookie tf\<rparr>,
      tf\<lparr>tf_next_dirent_cookie := tf_next_dirent_cookie tf + 1\<rparr>)"

definition u32_sat_add :: "u32 \<Rightarrow> u32 \<Rightarrow> u32" where
  "u32_sat_add a b = (if uint a + uint b < 2 ^ 32 then a + b else - 1)"

definition u32_sat_sub :: "u32 \<Rightarrow> u32 \<Rightarrow> u32" where
  "u32_sat_sub a b = (if b \<le> a then a - b else 0)"

text \<open>The lookups that the operations begin with, and the updates through \<open>get_mut\<close>.\<close>

definition get_inode :: "tmpfs \<Rightarrow> fs_object_id \<Rightarrow> tmpfs_inode result" where
  "get_inode tf oid = ok_or (bt_get (tf_inodes tf) oid) ENOENT"

definition get_children :: "tmpfs \<Rightarrow> fs_object_id \<Rightarrow> dir_children result" where
  "get_children tf oid =
     and_then (get_inode tf oid)
       (\<lambda>inode. case ti_payload inode of DirectoryP children \<Rightarrow> Ok children | _ \<Rightarrow> Error ENOTDIR)"

definition is_directory :: "tmpfs_inode \<Rightarrow> bool" where
  "is_directory inode = (case ti_payload inode of DirectoryP _ \<Rightarrow> True | _ \<Rightarrow> False)"

definition modify_inode :: "fs_object_id \<Rightarrow> (tmpfs_inode \<Rightarrow> tmpfs_inode) \<Rightarrow> tmpfs \<Rightarrow> tmpfs" where
  "modify_inode oid f tf =
     (case bt_get (tf_inodes tf) oid of
        None \<Rightarrow> tf
      | Some inode \<Rightarrow> tf\<lparr>tf_inodes := bt_insert oid (f inode) (tf_inodes tf)\<rparr>)"

definition modify_children :: "(dir_children \<Rightarrow> dir_children) \<Rightarrow> tmpfs_inode \<Rightarrow> tmpfs_inode" where
  "modify_children f inode =
     (case ti_payload inode of
        DirectoryP children \<Rightarrow> inode\<lparr>ti_payload := DirectoryP (f children)\<rparr>
      | _ \<Rightarrow> inode)"

definition set_nlink :: "u32 \<Rightarrow> tmpfs_inode \<Rightarrow> tmpfs_inode" where
  "set_nlink n inode = inode\<lparr>ti_nlink := n, ti_meta := (ti_meta inode)\<lparr>im_nlinks := n\<rparr>\<rparr>"

definition insert_inode :: "fs_object_id \<Rightarrow> tmpfs_inode \<Rightarrow> tmpfs \<Rightarrow> tmpfs" where
  "insert_inode oid inode tf = tf\<lparr>tf_inodes := bt_insert oid inode (tf_inodes tf)\<rparr>"

definition admitted :: "'a result \<Rightarrow> tmpfs \<Rightarrow> ('a \<Rightarrow> 'b \<times> tmpfs) \<Rightarrow> 'b result \<times> tmpfs" where
  "admitted r tf f =
     (case r of
        Inl e \<Rightarrow> (Error e, tf)
      | Inr a \<Rightarrow> (case f a of (b, tf') \<Rightarrow> (Ok b, tf')))"

section \<open>Reading\<close>

definition tmpfs_lookup :: "tmpfs \<Rightarrow> fs_object_id \<Rightarrow> u8 list \<Rightarrow> fs_object_id result" where
  "tmpfs_lookup tf parent name =
     and_then (inline_name_new name) (\<lambda>inline.
     and_then (get_children tf parent) (\<lambda>children.
     case bt_get children inline of
       Some entry \<Rightarrow> Ok (te_object_id entry)
     | None \<Rightarrow> Error ENOENT))"

record inode_meta_snapshot =
  is_meta :: inode_meta
  is_nlink :: u32
  is_size_source :: "page_container option"

definition inode_meta_from_snapshot :: "inode_meta_snapshot \<Rightarrow> inode_meta" where
  "inode_meta_from_snapshot snapshot =
     (let meta = (is_meta snapshot)\<lparr>im_nlinks := is_nlink snapshot\<rparr>
      in case is_size_source snapshot of
           Some container \<Rightarrow> meta\<lparr>im_size := pc_size_bytes container\<rparr>
         | None \<Rightarrow> meta)"

definition load_inode_meta :: "tmpfs \<Rightarrow> fs_object_id \<Rightarrow> inode_meta result" where
  "load_inode_meta tf fs_object_id =
     and_then (get_inode tf fs_object_id) (\<lambda>inode.
       let size_source = (case ti_payload inode of
                            RegularFileP container _ \<Rightarrow> Some (tf_containers tf ! container)
                          | _ \<Rightarrow> None)
       in Ok (inode_meta_from_snapshot
                \<lparr>is_meta = ti_meta inode, is_nlink = ti_nlink inode, is_size_source = size_source\<rparr>))"

definition read_link :: "tmpfs \<Rightarrow> fs_object_id \<Rightarrow> u8 list result" where
  "read_link tf fs_object_id =
     and_then (get_inode tf fs_object_id) (\<lambda>inode.
       case ti_payload inode of SymlinkP bytes \<Rightarrow> Ok bytes | _ \<Rightarrow> Error EINVAL)"

fun min_by_cookie :: "dir_children \<Rightarrow> (inline_name \<times> tmpfs_dir_entry) option" where
  "min_by_cookie [] = None"
| "min_by_cookie (x # xs) =
     (case min_by_cookie xs of
        None \<Rightarrow> Some x
      | Some y \<Rightarrow> Some (if te_cookie (snd x) \<le> te_cookie (snd y) then x else y))"

definition tmpfs_readdir :: "tmpfs \<Rightarrow> fs_object_id \<Rightarrow> u64 \<Rightarrow> (dir_entry \<times> u64) option result" where
  "tmpfs_readdir tf fs_object_id cursor_id =
     and_then (get_children tf fs_object_id) (\<lambda>children.
       case min_by_cookie (filter (\<lambda>(_, entry). te_cookie entry > cursor_id) children) of
         None \<Rightarrow> Ok None
       | Some (name, entry) \<Rightarrow>
           and_then (get_inode tf (te_object_id entry)) (\<lambda>child_inode.
           and_then (dir_entry_new (te_object_id entry) (inode_meta_kind (ti_meta child_inode)) name)
             (\<lambda>snapshot. Ok (Some (snapshot, te_cookie entry)))))"


section \<open>Creating\<close>

definition create_kind :: "u16 \<Rightarrow> inode_kind result" where
  "create_kind mode =
     (let kind_bits = mode AND S_IFMT
      in if kind_bits = 0 \<or> kind_bits = S_IFREG then Ok Regular
         else if kind_bits = S_IFIFO then Ok Fifo
         else if kind_bits = S_IFCHR then Ok CharDevice
         else if kind_bits = S_IFBLK then Ok BlockDevice
         else if kind_bits = S_IFSOCK then Ok Socket
         else Error EINVAL)"

definition name_is_free :: "tmpfs \<Rightarrow> fs_object_id \<Rightarrow> inline_name \<Rightarrow> unit result" where
  "name_is_free tf parent inline =
     and_then (get_children tf parent)
       (\<lambda>children. if bt_get children inline = None then Ok () else Error EEXIST)"

definition create_probe :: "tmpfs \<Rightarrow> fs_object_id \<Rightarrow> u8 list \<Rightarrow> u16 \<Rightarrow> credential \<Rightarrow> (inline_name \<times> inode_meta) result" where
  "create_probe tf parent name mode c =
     and_then (inline_name_new name) (\<lambda>inline.
     and_then (create_kind mode) (\<lambda>kind.
     let mode = (if mode AND S_IFMT = 0 then (mode AND NOT S_IFMT) OR S_IFREG else mode) in
     and_then (get_inode tf parent) (\<lambda>parent_inode.
     and_then (name_is_free tf parent inline) (\<lambda>_.
     let parent_setgid = (im_mode (ti_meta parent_inode) AND S_ISGID \<noteq> 0);
         parent_gid = im_gid (ti_meta parent_inode);
         meta = inode_meta_new kind mode
     in Ok (inline, meta\<lparr>im_uid := cd_uid c,
                         im_gid := (if parent_setgid then parent_gid else cd_gid c),
                         im_size := 0\<rparr>)))))"

definition add_entry :: "fs_object_id \<Rightarrow> inline_name \<Rightarrow> fs_object_id \<Rightarrow> tmpfs \<Rightarrow> tmpfs" where
  "add_entry parent inline oid tf =
     (case alloc_dirent oid tf of
        (entry, tf) \<Rightarrow> modify_inode parent (modify_children (bt_insert inline entry)) tf)"

definition create_publish :: "tmpfs \<Rightarrow> fs_object_id \<Rightarrow> inline_name \<Rightarrow> inode_meta \<Rightarrow> (fs_object_id \<times> inode_meta) result \<times> tmpfs" where
  "create_publish tf parent inline meta =
     admitted (name_is_free tf parent inline) tf (\<lambda>_.
       let container = set_size_bytes 0 (page_container_new TMPFS_FILE_PAGE_CAP);
           (new_id, tf) = alloc_object_id tf;
           tf = add_entry parent inline new_id tf;
           cap = length (tf_containers tf);
           tf = tf\<lparr>tf_containers := tf_containers tf @ [container]\<rparr>;
           tf = insert_inode new_id
                  \<lparr>ti_meta = meta, ti_payload = RegularFileP cap 0, ti_nlink = 1\<rparr> tf
       in ((new_id, meta), tf))"

definition create_inode ::
    "bool \<Rightarrow> tmpfs \<Rightarrow> fs_object_id \<Rightarrow> u8 list \<Rightarrow> u16 \<Rightarrow> credential \<Rightarrow>
     (fs_object_id \<times> inode_meta) result \<times> tmpfs" where
  "create_inode allocated tf parent name mode c =
     (case create_probe tf parent name mode c of
        Inl e \<Rightarrow> (Error e, tf)
      | Inr (inline, meta) \<Rightarrow>
          if \<not> allocated then (Error ENOMEM, tf) else create_publish tf parent inline meta)"

definition tmpfs_mkdir ::
    "tmpfs \<Rightarrow> fs_object_id \<Rightarrow> u8 list \<Rightarrow> u16 \<Rightarrow> credential \<Rightarrow>
     (fs_object_id \<times> inode_meta) result \<times> tmpfs" where
  "tmpfs_mkdir tf parent name mode c =
     admitted
       (and_then (inline_name_new name)
          (\<lambda>inline. and_then (name_is_free tf parent inline) (\<lambda>_. Ok inline))) tf (\<lambda>inline.
       let mode = (mode AND NOT S_IFMT) OR S_IFDIR;
           meta = (inode_meta_new Directory mode)
                    \<lparr>im_uid := cd_uid c, im_gid := cd_gid c, im_nlinks := 2\<rparr>;
           (new_id, tf) = alloc_object_id tf;
           tf = add_entry parent inline new_id tf;
           tf = modify_inode parent (\<lambda>i. set_nlink (u32_sat_add (ti_nlink i) 1) i) tf;
           tf = insert_inode new_id
                  \<lparr>ti_meta = meta, ti_payload = DirectoryP [], ti_nlink = 2\<rparr> tf
       in ((new_id, meta), tf))"

definition symlink_probe :: "tmpfs \<Rightarrow> fs_object_id \<Rightarrow> u8 list \<Rightarrow> u8 list \<Rightarrow> inline_name result" where
  "symlink_probe tf parent name link_target =
     (if link_target = [] \<or> length link_target > TMPFS_SYMLINK_MAX then Error ENAMETOOLONG
      else and_then (inline_name_new name)
             (\<lambda>inline. and_then (name_is_free tf parent inline) (\<lambda>_. Ok inline)))"

definition symlink_publish ::
    "tmpfs \<Rightarrow> fs_object_id \<Rightarrow> inline_name \<Rightarrow> u8 list \<Rightarrow> credential \<Rightarrow>
     (fs_object_id \<times> inode_meta) result \<times> tmpfs" where
  "symlink_publish tf parent inline link_target c =
     admitted (name_is_free tf parent inline) tf (\<lambda>_.
       let meta = (inode_meta_new Symlink (S_IFLNK OR 0x1ff))
                    \<lparr>im_uid := cd_uid c, im_gid := cd_gid c, im_size := of_nat (length link_target)\<rparr>;
           (new_id, tf) = alloc_object_id tf;
           tf = add_entry parent inline new_id tf;
           tf = insert_inode new_id
                  \<lparr>ti_meta = meta, ti_payload = SymlinkP link_target, ti_nlink = 1\<rparr> tf
       in ((new_id, meta), tf))"

definition tmpfs_symlink ::
    "tmpfs \<Rightarrow> fs_object_id \<Rightarrow> u8 list \<Rightarrow> u8 list \<Rightarrow> credential \<Rightarrow>
     (fs_object_id \<times> inode_meta) result \<times> tmpfs" where
  "tmpfs_symlink tf parent name link_target c =
     (case symlink_probe tf parent name link_target of
        Inl e \<Rightarrow> (Error e, tf)
      | Inr inline \<Rightarrow> symlink_publish tf parent inline link_target c)"

definition link_check :: "tmpfs \<Rightarrow> fs_object_id \<Rightarrow> u8 list \<Rightarrow> fs_object_id \<Rightarrow> inline_name result" where
  "link_check tf parent name target =
     (case inline_name_new name of
        Inl _ \<Rightarrow> Error ENAMETOOLONG
      | Inr iname \<Rightarrow>
          and_then (name_is_free tf parent iname) (\<lambda>_.
          and_then (get_inode tf target) (\<lambda>inode.
          case ti_payload inode of RegularFileP _ _ \<Rightarrow> Ok iname | _ \<Rightarrow> Error EPERM)))"

definition tmpfs_link :: "tmpfs \<Rightarrow> fs_object_id \<Rightarrow> u8 list \<Rightarrow> fs_object_id \<Rightarrow> unit result \<times> tmpfs" where
  "tmpfs_link tf parent name target =
     admitted (link_check tf parent name target) tf (\<lambda>iname.
       let tf = modify_inode target (\<lambda>i. set_nlink (u32_sat_add (ti_nlink i) 1) i) tf
       in ((), add_entry parent iname target tf))"

section \<open>Removing\<close>

definition found_entry :: "tmpfs \<Rightarrow> fs_object_id \<Rightarrow> inline_name \<Rightarrow> fs_object_id \<Rightarrow> unit result" where
  "found_entry tf parent inline target =
     and_then (get_children tf parent) (\<lambda>children.
       case bt_get children inline of
         None \<Rightarrow> Error ENOENT
       | Some entry \<Rightarrow> if te_object_id entry \<noteq> target then Error ENOENT else Ok ())"

definition unlink_check :: "tmpfs \<Rightarrow> fs_object_id \<Rightarrow> u8 list \<Rightarrow> fs_object_id \<Rightarrow> inline_name result" where
  "unlink_check tf parent name target =
     and_then (inline_name_new name) (\<lambda>inline.
     and_then (found_entry tf parent inline target) (\<lambda>_.
     and_then (get_inode tf target) (\<lambda>target_inode.
     if is_directory target_inode then Error EISDIR else Ok inline)))"

definition remove_entry :: "fs_object_id \<Rightarrow> inline_name \<Rightarrow> tmpfs \<Rightarrow> tmpfs" where
  "remove_entry parent inline tf = modify_inode parent (modify_children (bt_remove inline)) tf"

definition drop_link :: "fs_object_id \<Rightarrow> tmpfs \<Rightarrow> tmpfs" where
  "drop_link oid tf = modify_inode oid (\<lambda>i. set_nlink (u32_sat_sub (ti_nlink i) 1) i) tf"

definition tmpfs_unlink :: "tmpfs \<Rightarrow> fs_object_id \<Rightarrow> u8 list \<Rightarrow> fs_object_id \<Rightarrow> unit result \<times> tmpfs" where
  "tmpfs_unlink tf parent name target =
     admitted (unlink_check tf parent name target) tf
       (\<lambda>inline. ((), drop_link target (remove_entry parent inline tf)))"

definition rmdir_check :: "tmpfs \<Rightarrow> fs_object_id \<Rightarrow> u8 list \<Rightarrow> fs_object_id \<Rightarrow> inline_name result" where
  "rmdir_check tf parent name target =
     and_then (inline_name_new name) (\<lambda>inline.
     and_then (found_entry tf parent inline target) (\<lambda>_.
     and_then (get_children tf target) (\<lambda>target_children.
     if target_children \<noteq> [] then Error ENOTEMPTY else Ok inline)))"

definition tmpfs_rmdir :: "tmpfs \<Rightarrow> fs_object_id \<Rightarrow> u8 list \<Rightarrow> fs_object_id \<Rightarrow> unit result \<times> tmpfs" where
  "tmpfs_rmdir tf parent name target =
     admitted (rmdir_check tf parent name target) tf
       (\<lambda>inline. ((), modify_inode target (set_nlink 0) (drop_link parent (remove_entry parent inline tf))))"

definition destroy_inode :: "tmpfs \<Rightarrow> fs_object_id \<Rightarrow> tmpfs" where
  "destroy_inode tf fs_object_id =
     (case bt_get (tf_inodes tf) fs_object_id of
        None \<Rightarrow> tf
      | Some inode \<Rightarrow>
          if ti_nlink inode > 0 then tf
          else tf\<lparr>tf_inodes := bt_remove fs_object_id (tf_inodes tf)\<rparr>)"

section \<open>Renaming\<close>

definition children_ids :: "tmpfs \<Rightarrow> fs_object_id \<Rightarrow> fs_object_id list" where
  "children_ids tf oid =
     (case bt_get (tf_inodes tf) oid of
        Some inode \<Rightarrow>
          (case ti_payload inode of
             DirectoryP children \<Rightarrow> map te_object_id (bt_values children)
           | _ \<Rightarrow> [])
      | None \<Rightarrow> [])"

function subtree_search :: "tmpfs \<Rightarrow> fs_object_id \<Rightarrow> fs_object_id list \<Rightarrow> fs_object_id list \<Rightarrow> bool" where
  "subtree_search tf needle [] visited = False"
| "subtree_search tf needle (current # stack) visited =
     (if current = needle then True
      else if current \<in> set visited then subtree_search tf needle stack visited
      else subtree_search tf needle (rev (children_ids tf current) @ stack) (current # visited))"
  by pat_completeness auto
termination
proof (relation "measures [\<lambda>(tf, _, _, visited). card (fst ` set (tf_inodes tf) - set visited),
                           \<lambda>(_, _, stack, _). length stack]", goal_cases)
  case (3 tf needle current stack visited)
  let ?K = "fst ` set (tf_inodes tf)"
  show ?case
  proof (cases "current \<in> ?K")
    case True
    have "?K - set (current # visited) \<subset> ?K - set visited"
      using True 3 by auto
    then show ?thesis
      by (simp add: psubset_card_mono)
  next
    case False
    have "bt_get (tf_inodes tf) current = None"
      using False by (simp add: map_of_eq_None_iff)
    moreover have "?K - set (current # visited) = ?K - set visited"
      using False by auto
    ultimately show ?thesis
      by (simp add: children_ids_def)
  qed
qed auto

definition directory_subtree_contains :: "tmpfs \<Rightarrow> fs_object_id \<Rightarrow> fs_object_id \<Rightarrow> bool" where
  "directory_subtree_contains tf root needle = subtree_search tf needle [root] []"

definition adjust_directory_nlink :: "fs_object_id \<Rightarrow> i32 \<Rightarrow> tmpfs \<Rightarrow> tmpfs" where
  "adjust_directory_nlink dir delta tf =
     modify_inode dir (\<lambda>i.
       set_nlink (if delta \<ge> 0 then u32_sat_add (ti_nlink i) (of_int delta)
                  else u32_sat_sub (ti_nlink i) (of_int (- delta))) i) tf"

datatype rename_plan =
  Rename_noop
| Rename_move (rm_target_id: fs_object_id) (rm_target_is_dir: bool) (rm_displaced_is_dir: bool)

definition displaced_check :: "tmpfs \<Rightarrow> bool \<Rightarrow> fs_object_id \<Rightarrow> bool result" where
  "displaced_check tf target_is_dir displaced_id =
     and_then (get_inode tf displaced_id) (\<lambda>displaced_inode.
       let displaced_is_dir = is_directory displaced_inode
       in if \<not> target_is_dir \<and> displaced_is_dir then Error EISDIR
          else if target_is_dir \<and> \<not> displaced_is_dir then Error ENOTDIR
          else if target_is_dir \<and> children_ids tf displaced_id \<noteq> [] then Error ENOTEMPTY
          else Ok displaced_is_dir)"

definition rename_check ::
    "tmpfs \<Rightarrow> fs_object_id \<Rightarrow> inline_name \<Rightarrow> fs_object_id \<Rightarrow> inline_name \<Rightarrow> rename_plan result" where
  "rename_check tf old_parent old_key new_parent new_key =
     and_then (get_children tf old_parent) (\<lambda>children.
     and_then (ok_or (bt_get children old_key) ENOENT) (\<lambda>entry.
     let target_id = te_object_id entry in
     and_then (get_inode tf target_id) (\<lambda>target_inode.
     let target_is_dir = is_directory target_inode in
     if old_parent \<noteq> new_parent \<and> target_is_dir \<and> directory_subtree_contains tf target_id new_parent
     then Error EINVAL
     else
     and_then (get_children tf new_parent) (\<lambda>new_children.
     case bt_get new_children new_key of
       None \<Rightarrow> Ok (Rename_move target_id target_is_dir False)
     | Some displaced \<Rightarrow>
         if te_object_id displaced = target_id then Ok Rename_noop
         else and_then (displaced_check tf target_is_dir (te_object_id displaced))
                (\<lambda>displaced_is_dir. Ok (Rename_move target_id target_is_dir displaced_is_dir))))))"

definition displaced_entry :: "tmpfs \<Rightarrow> fs_object_id \<Rightarrow> inline_name \<Rightarrow> fs_object_id option" where
  "displaced_entry tf new_parent new_key =
     (case get_children tf new_parent of
        Inl _ \<Rightarrow> None
      | Inr children \<Rightarrow> map_option te_object_id (bt_get children new_key))"

definition rename_links :: "fs_object_id \<Rightarrow> fs_object_id \<Rightarrow> bool \<Rightarrow> bool \<Rightarrow> tmpfs \<Rightarrow> tmpfs" where
  "rename_links old_parent new_parent target_is_dir displaced_is_dir tf =
     (let tf = (if target_is_dir \<and> old_parent \<noteq> new_parent
                then adjust_directory_nlink new_parent 1 (adjust_directory_nlink old_parent (- 1) tf)
                else tf)
      in if displaced_is_dir then adjust_directory_nlink new_parent (- 1) tf else tf)"

definition release_displaced :: "fs_object_id option \<Rightarrow> bool \<Rightarrow> tmpfs \<Rightarrow> tmpfs" where
  "release_displaced displaced displaced_is_dir tf =
     (case displaced of
        None \<Rightarrow> tf
      | Some displaced_id \<Rightarrow>
          if displaced_is_dir then modify_inode displaced_id (set_nlink 0) tf
          else drop_link displaced_id tf)"

definition rename_apply ::
    "fs_object_id \<Rightarrow> inline_name \<Rightarrow> fs_object_id \<Rightarrow> inline_name \<Rightarrow> rename_plan \<Rightarrow> tmpfs \<Rightarrow> tmpfs" where
  "rename_apply old_parent old_key new_parent new_key plan tf =
     (case plan of
        Rename_noop \<Rightarrow> tf
      | Rename_move target_id target_is_dir displaced_is_dir \<Rightarrow>
          let tf = remove_entry old_parent old_key tf;
              displaced = displaced_entry tf new_parent new_key;
              tf = add_entry new_parent new_key target_id tf;
              tf = rename_links old_parent new_parent target_is_dir displaced_is_dir tf
          in release_displaced displaced displaced_is_dir tf)"

definition tmpfs_rename ::
    "tmpfs \<Rightarrow> fs_object_id \<Rightarrow> u8 list \<Rightarrow> fs_object_id \<Rightarrow> u8 list \<Rightarrow> unit result \<times> tmpfs" where
  "tmpfs_rename tf old_parent old_name new_parent new_name =
     admitted
       (and_then (inline_name_new old_name) (\<lambda>old_key.
        and_then (inline_name_new new_name) (\<lambda>new_key.
        if old_parent = new_parent \<and> old_key = new_key then Ok (old_key, new_key, Rename_noop)
        else and_then (rename_check tf old_parent old_key new_parent new_key)
               (\<lambda>plan. Ok (old_key, new_key, plan))))) tf
       (\<lambda>(old_key, new_key, plan). ((), rename_apply old_parent old_key new_parent new_key plan tf))"

section \<open>Attributes and sizes\<close>

definition serialize_inode_meta :: "tmpfs \<Rightarrow> fs_object_id \<Rightarrow> inode_meta \<Rightarrow> unit result \<times> tmpfs" where
  "serialize_inode_meta tf fs_object_id meta =
     admitted (get_inode tf fs_object_id) tf (\<lambda>inode.
       let existing_kind_bits = im_mode (ti_meta inode) AND S_IFMT;
           new_meta = meta\<lparr>im_mode := (im_mode meta AND NOT S_IFMT) OR existing_kind_bits,
                           im_nlinks := ti_nlink inode\<rparr>
       in ((), modify_inode fs_object_id (\<lambda>i. i\<lparr>ti_meta := new_meta\<rparr>) tf))"

definition chmod_inode :: "tmpfs \<Rightarrow> fs_object_id \<Rightarrow> u16 \<Rightarrow> credential \<Rightarrow> unit result \<times> tmpfs" where
  "chmod_inode tf fs_object_id new_mode c =
     admitted
       (and_then (get_inode tf fs_object_id) (\<lambda>inode.
        and_then (check_chmod_perm (ti_meta inode) c) (\<lambda>_. Ok inode))) tf (\<lambda>inode.
       let masked = new_mode AND 0xfff;
           kind_bits = im_mode (ti_meta inode) AND S_IFMT
       in ((), modify_inode fs_object_id
                 (\<lambda>i. i\<lparr>ti_meta := (ti_meta i)\<lparr>im_mode := kind_bits OR masked\<rparr>\<rparr>) tf))"

definition chown_meta :: "u32 option \<Rightarrow> u32 option \<Rightarrow> inode_meta \<Rightarrow> inode_meta" where
  "chown_meta new_uid new_gid meta =
     (let meta = (case new_uid of Some u \<Rightarrow> meta\<lparr>im_uid := u\<rparr> | None \<Rightarrow> meta);
          meta = (case new_gid of Some g \<Rightarrow> meta\<lparr>im_gid := g\<rparr> | None \<Rightarrow> meta);
          meta = meta\<lparr>im_mode := im_mode meta AND NOT S_ISUID\<rparr>
      in if im_mode meta AND 8 \<noteq> 0 then meta\<lparr>im_mode := im_mode meta AND NOT S_ISGID\<rparr> else meta)"

definition chown_inode ::
    "tmpfs \<Rightarrow> fs_object_id \<Rightarrow> u32 option \<Rightarrow> u32 option \<Rightarrow> credential \<Rightarrow> unit result \<times> tmpfs" where
  "chown_inode tf fs_object_id new_uid new_gid c =
     admitted
       (and_then (get_inode tf fs_object_id)
          (\<lambda>inode. check_chown_perm (ti_meta inode) new_uid new_gid c)) tf
       (\<lambda>_. ((), modify_inode fs_object_id
                    (\<lambda>i. i\<lparr>ti_meta := chown_meta new_uid new_gid (ti_meta i)\<rparr>) tf))"

definition tmpfs_container :: "tmpfs \<Rightarrow> fs_object_id \<Rightarrow> nat result" where
  "tmpfs_container tf fs_object_id =
     and_then (get_inode tf fs_object_id) (\<lambda>inode.
       case ti_payload inode of
         RegularFileP container _ \<Rightarrow> Ok container
       | DirectoryP _ \<Rightarrow> Error EISDIR
       | SymlinkP _ \<Rightarrow> Error EINVAL)"

definition set_file_size :: "u64 \<Rightarrow> tmpfs_inode \<Rightarrow> tmpfs_inode" where
  "set_file_size new_size inode =
     (let inode = (case ti_payload inode of
                     RegularFileP container _ \<Rightarrow> inode\<lparr>ti_payload := RegularFileP container new_size\<rparr>
                   | _ \<Rightarrow> inode)
      in inode\<lparr>ti_meta := (ti_meta inode)\<lparr>im_size := new_size\<rparr>\<rparr>)"

definition tmpfs_truncate :: "unit result \<Rightarrow> tmpfs \<Rightarrow> fs_object_id \<Rightarrow> u64 \<Rightarrow> unit result \<times> tmpfs" where
  "tmpfs_truncate drop_tail tf fs_object_id new_size =
     (case tmpfs_container tf fs_object_id of
        Inl e \<Rightarrow> (Error e, tf)
      | Inr container \<Rightarrow>
          (case step_truncate drop_tail (tf_containers tf ! container) new_size of
             (outcome, pc) \<Rightarrow>
               let tf = tf\<lparr>tf_containers := (tf_containers tf)[container := pc]\<rparr>
               in case outcome of
                    Inl e \<Rightarrow> (Error e, tf)
                  | Inr _ \<Rightarrow> (Ok (), modify_inode fs_object_id (set_file_size new_size) tf)))"

record rnode =
  rn_fs_object_id :: fs_object_id
  rn_meta :: inode_meta
  rn_page_backing :: nat

definition materialise_rnode :: "bool \<Rightarrow> tmpfs \<Rightarrow> fs_object_id \<Rightarrow> rnode result" where
  "materialise_rnode allocated tf fs_object_id =
     and_then (tmpfs_container tf fs_object_id) (\<lambda>container.
     and_then (get_inode tf fs_object_id) (\<lambda>inode.
     let meta = (ti_meta inode)\<lparr>im_nlinks := ti_nlink inode,
                               im_size := pc_size_bytes (tf_containers tf ! container)\<rparr>
     in if allocated
        then Ok \<lparr>rn_fs_object_id = fs_object_id, rn_meta = meta, rn_page_backing = container\<rparr>
        else Error ENOMEM))"

record filesystem_stats =
  fs_block_size :: u64
  fs_total_blocks :: u64
  fs_free_blocks :: u64
  fs_available_blocks :: u64
  fs_total_inodes :: u64
  fs_free_inodes :: u64
  fs_max_name_len :: u64

definition u64_sat_sub :: "u64 \<Rightarrow> u64 \<Rightarrow> u64" where
  "u64_sat_sub a b = (if b \<le> a then a - b else 0)"

definition filesystem_stats_of :: "(nat \<times> nat) option \<Rightarrow> tmpfs \<Rightarrow> filesystem_stats result" where
  "filesystem_stats_of diagnostics tf =
     (case diagnostics of
        None \<Rightarrow> Error EIO
      | Some (total_count, free_count) \<Rightarrow>
          let inode_count = of_nat (length (tf_inodes tf));
              total = of_nat total_count;
              free = of_nat free_count
          in Ok \<lparr>fs_block_size = USER_PAGE_SIZE, fs_total_blocks = total, fs_free_blocks = free,
                 fs_available_blocks = free, fs_total_inodes = total,
                 fs_free_inodes = u64_sat_sub total inode_count, fs_max_name_len = of_nat VFS_NAME_MAX\<rparr>)"

end
