(* ===== verification/Tmpfs_Space.thy ===== *)
theory Tmpfs_Space
  imports Tmpfs
begin

text \<open>
  The namespace behind the inode table of tmpfs: the objects, which of them are directories, what
  each name of a directory refers to, and the link counts as numbers. The first part shows what
  the updates of the model do to it and that the search for a directory in a subtree decides
  reachability; the second part is the specification of the operations on the namespace alone.
\<close>

section \<open>The abstraction\<close>

datatype obj_kind = KDir | KFile | KSym

record nspace =
  ns_kind :: "fs_object_id \<Rightarrow> obj_kind option"
  ns_ent :: "fs_object_id \<Rightarrow> inline_name \<Rightarrow> fs_object_id option"
  ns_links :: "fs_object_id \<Rightarrow> nat"
  ns_next :: fs_object_id

definition ns_objs :: "nspace \<Rightarrow> fs_object_id set" where
  "ns_objs N = dom (ns_kind N)"

definition ns_dirs :: "nspace \<Rightarrow> fs_object_id set" where
  "ns_dirs N = {x. ns_kind N x = Some KDir}"

fun payload_kind :: "tmpfs_payload \<Rightarrow> obj_kind" where
  "payload_kind (DirectoryP _) = KDir"
| "payload_kind (RegularFileP _ _) = KFile"
| "payload_kind (SymlinkP _) = KSym"

definition kind_of :: "tmpfs \<Rightarrow> fs_object_id \<Rightarrow> obj_kind option" where
  "kind_of tf x = map_option (\<lambda>inode. payload_kind (ti_payload inode)) (bt_get (tf_inodes tf) x)"

definition children_of :: "tmpfs \<Rightarrow> fs_object_id \<Rightarrow> dir_children" where
  "children_of tf d =
     (case bt_get (tf_inodes tf) d of
        None \<Rightarrow> []
      | Some inode \<Rightarrow> (case ti_payload inode of DirectoryP children \<Rightarrow> children | _ \<Rightarrow> []))"

definition entry_of :: "tmpfs \<Rightarrow> fs_object_id \<Rightarrow> inline_name \<Rightarrow> fs_object_id option" where
  "entry_of tf d n = map_option te_object_id (bt_get (children_of tf d) n)"

definition links_of :: "tmpfs \<Rightarrow> fs_object_id \<Rightarrow> nat" where
  "links_of tf x =
     (case bt_get (tf_inodes tf) x of None \<Rightarrow> 0 | Some inode \<Rightarrow> unat (ti_nlink inode))"

definition space_of :: "tmpfs \<Rightarrow> nspace" where
  "space_of tf =
     \<lparr>ns_kind = kind_of tf, ns_ent = entry_of tf, ns_links = links_of tf,
      ns_next = tf_next_object_id tf\<rparr>"

lemma space_of_sel [simp]:
  "ns_kind (space_of tf) = kind_of tf" "ns_ent (space_of tf) = entry_of tf"
  "ns_links (space_of tf) = links_of tf" "ns_next (space_of tf) = tf_next_object_id tf"
  by (simp_all add: space_of_def)

lemma ns_dirs_objs: "d \<in> ns_dirs N \<Longrightarrow> d \<in> ns_objs N"
  by (auto simp: ns_dirs_def ns_objs_def)

lemma payload_kind_KDir [simp]: "payload_kind p = KDir \<longleftrightarrow> (\<exists>ch. p = DirectoryP ch)"
  by (cases p) auto

lemma is_directory_iff: "is_directory inode \<longleftrightarrow> payload_kind (ti_payload inode) = KDir"
  by (auto simp: is_directory_def split: tmpfs_payload.splits)

lemma dirs_iff:
  "d \<in> ns_dirs (space_of tf) \<longleftrightarrow> (\<exists>inode ch. bt_get (tf_inodes tf) d = Some inode \<and> ti_payload inode = DirectoryP ch)"
  by (auto simp: ns_dirs_def kind_of_def)

lemma objs_iff: "x \<in> ns_objs (space_of tf) \<longleftrightarrow> (\<exists>inode. bt_get (tf_inodes tf) x = Some inode)"
  by (auto simp: ns_objs_def kind_of_def)

lemma entry_of_dir: "entry_of tf d n = Some x \<Longrightarrow> d \<in> ns_dirs (space_of tf)"
  by (auto simp: entry_of_def children_of_def dirs_iff split: option.splits tmpfs_payload.splits)

lemma get_children_cases:
  "get_children tf d =
     (if d \<notin> ns_objs (space_of tf) then Inl ENOENT
      else if d \<notin> ns_dirs (space_of tf) then Inl ENOTDIR
      else Inr (children_of tf d))"
  by (auto simp: get_children_def get_inode_def ok_or_def dirs_iff objs_iff children_of_def
      split: option.splits tmpfs_payload.splits)

section \<open>Effects of the updates\<close>

lemma modify_inode_sel [simp]:
  "tf_next_object_id (modify_inode x f tf) = tf_next_object_id tf"
  "tf_next_dirent_cookie (modify_inode x f tf) = tf_next_dirent_cookie tf"
  "tf_containers (modify_inode x f tf) = tf_containers tf"
  by (simp_all add: modify_inode_def split: option.splits)

lemma modify_inode_get:
  "bt_get (tf_inodes (modify_inode x f tf)) y =
     (if y = x then map_option f (bt_get (tf_inodes tf) x) else bt_get (tf_inodes tf) y)"
  by (simp add: modify_inode_def split: option.splits)

text \<open>An update that keeps the payload changes no entry and no directory.\<close>

lemma modify_inode_keeps:
  assumes "\<And>i. ti_payload (f i) = ti_payload i"
  shows "children_of (modify_inode x f tf) = children_of tf"
    and "entry_of (modify_inode x f tf) = entry_of tf"
    and "kind_of (modify_inode x f tf) = kind_of tf"
proof -
  show children: "children_of (modify_inode x f tf) = children_of tf"
    using assms by (auto simp: children_of_def modify_inode_get fun_eq_iff split: option.splits)
  show "entry_of (modify_inode x f tf) = entry_of tf"
    by (simp add: entry_of_def children fun_eq_iff)
  show "kind_of (modify_inode x f tf) = kind_of tf"
    using assms by (auto simp: kind_of_def modify_inode_get fun_eq_iff option.map_comp comp_def)
qed

lemma set_nlink_sel [simp]:
  "ti_payload (set_nlink n i) = ti_payload i" "ti_nlink (set_nlink n i) = n"
  "im_nlinks (ti_meta (set_nlink n i)) = n"
  by (simp_all add: set_nlink_def)

lemma links_of_modify:
  "links_of (modify_inode x f tf) y =
     (if y = x then (case bt_get (tf_inodes tf) x of None \<Rightarrow> 0 | Some i \<Rightarrow> unat (ti_nlink (f i)))
      else links_of tf y)"
  by (simp add: links_of_def modify_inode_get split: option.splits)

lemma links_of_modify_keeps:
  "(\<And>i. ti_nlink (f i) = ti_nlink i) \<Longrightarrow> links_of (modify_inode x f tf) = links_of tf"
  by (auto simp: links_of_modify fun_eq_iff links_of_def [of tf x] split: option.splits)

lemma space_of_relink:
  "space_of (modify_inode x (\<lambda>i. set_nlink (g i) i) tf) =
     (space_of tf)\<lparr>ns_links := (links_of tf)
        (x := (case bt_get (tf_inodes tf) x of None \<Rightarrow> 0 | Some i \<Rightarrow> unat (g i)))\<rparr>"
  by (auto simp: space_of_def modify_inode_keeps links_of_modify fun_eq_iff split: option.splits)

lemma space_of_modify_attr:
  assumes "\<And>i. ti_payload (f i) = ti_payload i" "\<And>i. ti_nlink (f i) = ti_nlink i"
  shows "space_of (modify_inode x f tf) = space_of tf"
  using assms by (simp add: space_of_def modify_inode_keeps links_of_modify_keeps)

lemma unat_sat_add_1:
  assumes "unat a + 1 < 2 ^ 32" shows "unat (u32_sat_add a 1) = unat a + 1"
proof -
  have "int (unat a) < int 4294967295"
    using assms by (subst of_nat_less_iff) simp
  then have "uint a + uint (1 :: u32) < 2 ^ 32"
    by simp
  then show ?thesis
    using assms by (simp add: u32_sat_add_def unat_word_ariths(1))
qed

lemma unat_sat_sub_1: "unat (u32_sat_sub a 1) = unat a - 1"
proof (cases "a = 0")
  case False
  then have "1 \<le> a"
    by (simp add: word_le_nat_alt unat_gt_0 Suc_leI)
  then show ?thesis
    by (simp add: u32_sat_sub_def unat_sub)
qed (simp add: u32_sat_sub_def)

lemma modify_children_sel [simp]:
  "ti_nlink (modify_children f i) = ti_nlink i" "ti_meta (modify_children f i) = ti_meta i"
  "payload_kind (ti_payload (modify_children f i)) = payload_kind (ti_payload i)"
  by (simp_all add: modify_children_def split: tmpfs_payload.splits)

lemma children_of_modify_children:
  "d \<in> ns_dirs (space_of tf) \<Longrightarrow>
   children_of (modify_inode d (modify_children f) tf) = (children_of tf)(d := f (children_of tf d))"
  by (auto simp: children_of_def modify_inode_get modify_children_def dirs_iff
      fun_eq_iff split: option.splits)

lemma space_of_modify_children:
  assumes "d \<in> ns_dirs (space_of tf)"
  shows "space_of (modify_inode d (modify_children f) tf) =
     (space_of tf)\<lparr>ns_ent := (entry_of tf)(d := (\<lambda>n. map_option te_object_id (bt_get (f (children_of tf d)) n)))\<rparr>"
proof -
  have "kind_of (modify_inode d (modify_children f) tf) = kind_of tf"
    by (auto simp: kind_of_def modify_inode_get fun_eq_iff option.map_comp comp_def)
  then show ?thesis
    using assms by (auto simp: space_of_def links_of_modify_keeps entry_of_def children_of_modify_children
        fun_eq_iff)
qed

definition ns_set :: "fs_object_id \<Rightarrow> inline_name \<Rightarrow> fs_object_id option \<Rightarrow> nspace \<Rightarrow> nspace" where
  "ns_set d n x N = N\<lparr>ns_ent := (ns_ent N)(d := (ns_ent N d)(n := x))\<rparr>"

lemma space_of_cookie [simp]: "space_of (tf\<lparr>tf_next_dirent_cookie := c\<rparr>) = space_of tf"
  by (simp add: space_of_def entry_of_def children_of_def kind_of_def links_of_def fun_eq_iff)

lemma space_of_add_entry:
  assumes "d \<in> ns_dirs (space_of tf)"
  shows "space_of (add_entry d n x tf) = ns_set d n (Some x) (space_of tf)"
proof -
  let ?tf = "tf\<lparr>tf_next_dirent_cookie := tf_next_dirent_cookie tf + 1\<rparr>"
  have "entry_of ?tf = entry_of tf"
    by (simp add: entry_of_def children_of_def fun_eq_iff)
  then show ?thesis
    using assms
    by (auto simp: add_entry_def alloc_dirent_def space_of_modify_children ns_set_def entry_of_def fun_eq_iff)
qed

lemma space_of_remove_entry:
  assumes "d \<in> ns_dirs (space_of tf)"
  shows "space_of (remove_entry d n tf) = ns_set d n None (space_of tf)"
  using assms
  by (auto simp: remove_entry_def space_of_modify_children ns_set_def entry_of_def fun_eq_iff)

definition ns_new :: "fs_object_id \<Rightarrow> obj_kind \<Rightarrow> nat \<Rightarrow> nspace \<Rightarrow> nspace" where
  "ns_new x k l N = N\<lparr>ns_kind := (ns_kind N)(x \<mapsto> k), ns_links := (ns_links N)(x := l)\<rparr>"

lemma space_of_insert_inode:
  assumes "x \<notin> ns_objs (space_of tf)" "\<forall>ch. ti_payload i = DirectoryP ch \<longrightarrow> ch = []"
  shows "space_of (insert_inode x i tf) =
         ns_new x (payload_kind (ti_payload i)) (unat (ti_nlink i)) (space_of tf)"
proof -
  have "children_of (insert_inode x i tf) = children_of tf"
    using assms
    by (auto simp: children_of_def insert_inode_def objs_iff fun_eq_iff
        split: option.splits tmpfs_payload.splits)
  then show ?thesis
    by (auto simp: space_of_def ns_new_def entry_of_def links_of_def kind_of_def insert_inode_def fun_eq_iff)
qed

definition ns_destroy :: "fs_object_id \<Rightarrow> nspace \<Rightarrow> nspace" where
  "ns_destroy x N =
     (if x \<notin> ns_objs N \<or> ns_links N x > 0 then N
      else N\<lparr>ns_kind := (ns_kind N)(x := None), ns_ent := (ns_ent N)(x := Map.empty), ns_links := (ns_links N)(x := 0)\<rparr>)"

lemma unat_pos_iff: "0 < unat w \<longleftrightarrow> 0 < (w :: 'a::len word)"
  by (simp add: unat_gt_0 word_gt_0)

lemma space_of_destroy: "space_of (destroy_inode tf x) = ns_destroy x (space_of tf)"
proof (cases "bt_get (tf_inodes tf) x")
  case None
  then show ?thesis
    by (auto simp: destroy_inode_def ns_destroy_def objs_iff)
next
  case (Some i)
  show ?thesis
  proof (cases "ti_nlink i > 0")
    case True
    then show ?thesis
      using Some by (auto simp: destroy_inode_def ns_destroy_def links_of_def unat_pos_iff)
  next
    case False
    then have "destroy_inode tf x = tf\<lparr>tf_inodes := bt_remove x (tf_inodes tf)\<rparr>"
      using Some by (simp add: destroy_inode_def)
    then show ?thesis
      using Some False
      by (auto simp: space_of_def ns_destroy_def links_of_def unat_pos_iff entry_of_def children_of_def
          kind_of_def ns_objs_def fun_eq_iff)
  qed
qed


section \<open>The search for a directory in a subtree\<close>

definition ns_edges :: "nspace \<Rightarrow> (fs_object_id \<times> fs_object_id) set" where
  "ns_edges N = {(d, x). \<exists>n. ns_ent N d n = Some x}"

lemma rtrancl_escapes:
  assumes "(v, y) \<in> E\<^sup>*" "v \<in> V" "y \<notin> V" "E `` V \<subseteq> V \<union> S"
  shows "\<exists>s\<in>S. (s, y) \<in> E\<^sup>*"
  using assms
proof (induction rule: converse_rtrancl_induct)
  case (step v z)
  then have "z \<in> V \<or> z \<in> S"
    by blast
  then show ?case
    using step by blast
qed blast

lemma subtree_search_reaches:
  assumes "needle \<notin> set visited"
    and "{(d, x). x \<in> set (children_ids tf d)} `` set visited \<subseteq> set visited \<union> set stack"
  shows "subtree_search tf needle stack visited \<longleftrightarrow>
         (\<exists>s\<in>set stack. (s, needle) \<in> {(d, x). x \<in> set (children_ids tf d)}\<^sup>*)"
  using assms
proof (induction tf needle stack visited rule: subtree_search.induct)
  case (2 tf needle current stack visited)
  let ?E = "{(d, x). x \<in> set (children_ids tf d)}"
  consider "current = needle" | "current \<noteq> needle" "current \<in> set visited"
    | "current \<noteq> needle" "current \<notin> set visited"
    by blast
  then show ?case
  proof cases
    case 2
    have closed: "?E `` set visited \<subseteq> set visited \<union> set stack"
      using "2.prems"(2) \<open>current \<in> set visited\<close> by auto
    have "(current, needle) \<in> ?E\<^sup>* \<Longrightarrow> \<exists>s\<in>set stack. (s, needle) \<in> ?E\<^sup>*"
      using rtrancl_escapes [OF _ \<open>current \<in> set visited\<close> "2.prems"(1) closed] .
    then show ?thesis
      using "2.IH"(1) 2 "2.prems"(1) closed by auto
  next
    case 3
    have "?E `` set (current # visited) \<subseteq>
          set (current # visited) \<union> set (rev (children_ids tf current) @ stack)"
      using "2.prems"(2) by auto
    then have IH: "subtree_search tf needle (rev (children_ids tf current) @ stack) (current # visited) \<longleftrightarrow>
        (\<exists>s\<in>set (rev (children_ids tf current) @ stack). (s, needle) \<in> ?E\<^sup>*)"
      using "2.IH"(2) 3 "2.prems"(1) by auto
    have "(current, needle) \<in> ?E\<^sup>* \<longleftrightarrow> (\<exists>s\<in>set (children_ids tf current). (s, needle) \<in> ?E\<^sup>*)"
      using 3(1) converse_rtranclE [of current needle ?E]
      by (auto intro: converse_rtrancl_into_rtrancl)
    then show ?thesis
      using 3 IH by auto
  qed auto
qed auto

lemma children_ids_edges:
  assumes "bt_ok (children_of tf d)"
  shows "x \<in> set (children_ids tf d) \<longleftrightarrow> (d, x) \<in> ns_edges (space_of tf)"
proof -
  have "x \<in> set (children_ids tf d) \<longleftrightarrow> (\<exists>n e. (n, e) \<in> set (children_of tf d) \<and> te_object_id e = x)"
    by (force simp: children_ids_def children_of_def bt_values_def split: option.splits tmpfs_payload.splits)
  then show ?thesis
    using assms by (auto simp: ns_edges_def entry_of_def bt_in_set_iff)
qed

lemma directory_subtree_contains_iff:
  assumes "\<And>d. bt_ok (children_of tf d)"
  shows "directory_subtree_contains tf root needle \<longleftrightarrow> (root, needle) \<in> (ns_edges (space_of tf))\<^sup>*"
proof -
  have "{(d, x). x \<in> set (children_ids tf d)} = ns_edges (space_of tf)"
    using children_ids_edges assms by auto
  then show ?thesis
    using subtree_search_reaches [of needle "[]" tf "[root]"]
    by (simp add: directory_subtree_contains_def)
qed

section \<open>Calls\<close>

text \<open>
  The calls that change the table, and the lookup. Creating a file and creating a symbolic link
  take the lock a second time to publish the object; the first time changes nothing, so the calls
  are the second sections alone, at any valid name and with any attributes, and sequences of them
  include every interleaving.
\<close>

datatype tmpfs_call =
  Call_lookup fs_object_id "u8 list"
| Call_create fs_object_id "u8 list" inode_meta
| Call_mkdir fs_object_id "u8 list" u16 credential
| Call_symlink fs_object_id "u8 list" "u8 list" credential
| Call_link fs_object_id "u8 list" fs_object_id
| Call_unlink fs_object_id "u8 list" fs_object_id
| Call_rmdir fs_object_id "u8 list" fs_object_id
| Call_rename fs_object_id "u8 list" fs_object_id "u8 list"
| Call_destroy fs_object_id
| Call_serialize fs_object_id inode_meta
| Call_chmod fs_object_id u16 credential
| Call_chown fs_object_id "u32 option" "u32 option" credential
| Call_truncate "unit result" fs_object_id u64

definition reply_id :: "(fs_object_id \<times> 'a) result \<times> 's \<Rightarrow> fs_object_id option result \<times> 's" where
  "reply_id p = (and_then (fst p) (\<lambda>(x, _). Ok (Some x)), snd p)"

definition reply_unit :: "unit result \<times> 's \<Rightarrow> fs_object_id option result \<times> 's" where
  "reply_unit p = (and_then (fst p) (\<lambda>_. Ok None), snd p)"

definition published :: "inline_name result \<Rightarrow> tmpfs \<Rightarrow> (inline_name \<Rightarrow> (fs_object_id \<times> inode_meta) result \<times> tmpfs) \<Rightarrow>
    fs_object_id option result \<times> tmpfs" where
  "published r tf f = (case r of Inl e \<Rightarrow> (Error e, tf) | Inr inline \<Rightarrow> reply_id (f inline))"

text \<open>The replies of the calls on attributes are no part of the namespace and are left out.\<close>

fun tmpfs_step :: "tmpfs_call \<Rightarrow> tmpfs \<Rightarrow> fs_object_id option result \<times> tmpfs" where
  "tmpfs_step (Call_lookup p name) tf = (and_then (tmpfs_lookup tf p name) (\<lambda>x. Ok (Some x)), tf)"
| "tmpfs_step (Call_create p name meta) tf =
     published (inline_name_new name) tf (\<lambda>inline. create_publish tf p inline meta)"
| "tmpfs_step (Call_mkdir p name mode c) tf = reply_id (tmpfs_mkdir tf p name mode c)"
| "tmpfs_step (Call_symlink p name target c) tf =
     published (inline_name_new name) tf (\<lambda>inline. symlink_publish tf p inline target c)"
| "tmpfs_step (Call_link p name x) tf = reply_unit (tmpfs_link tf p name x)"
| "tmpfs_step (Call_unlink p name x) tf = reply_unit (tmpfs_unlink tf p name x)"
| "tmpfs_step (Call_rmdir p name x) tf = reply_unit (tmpfs_rmdir tf p name x)"
| "tmpfs_step (Call_rename p name q name') tf = reply_unit (tmpfs_rename tf p name q name')"
| "tmpfs_step (Call_destroy x) tf = (Ok None, destroy_inode tf x)"
| "tmpfs_step (Call_serialize x meta) tf = (Ok None, snd (serialize_inode_meta tf x meta))"
| "tmpfs_step (Call_chmod x mode c) tf = (Ok None, snd (chmod_inode tf x mode c))"
| "tmpfs_step (Call_chown x u g c) tf = (Ok None, snd (chown_inode tf x u g c))"
| "tmpfs_step (Call_truncate tail x n) tf = (Ok None, snd (tmpfs_truncate tail tf x n))"

section \<open>Specification\<close>

definition ns_admitted :: "'a result \<Rightarrow> nspace \<Rightarrow> ('a \<Rightarrow> 'b \<times> nspace) \<Rightarrow> 'b result \<times> nspace" where
  "ns_admitted r N f = (case r of Inl e \<Rightarrow> (Error e, N) | Inr a \<Rightarrow> (case f a of (b, N') \<Rightarrow> (Ok b, N')))"

definition ns_dir :: "nspace \<Rightarrow> fs_object_id \<Rightarrow> unit result" where
  "ns_dir N d = (if d \<notin> ns_objs N then Error ENOENT else if d \<notin> ns_dirs N then Error ENOTDIR else Ok ())"

definition ns_free :: "nspace \<Rightarrow> fs_object_id \<Rightarrow> inline_name \<Rightarrow> unit result" where
  "ns_free N d n = and_then (ns_dir N d) (\<lambda>_. if ns_ent N d n = None then Ok () else Error EEXIST)"

definition ns_named :: "nspace \<Rightarrow> fs_object_id \<Rightarrow> inline_name \<Rightarrow> fs_object_id \<Rightarrow> unit result" where
  "ns_named N d n x = and_then (ns_dir N d) (\<lambda>_. if ns_ent N d n = Some x then Ok () else Error ENOENT)"

definition ns_bump :: "fs_object_id \<Rightarrow> nspace \<Rightarrow> nspace" where
  "ns_bump x N = N\<lparr>ns_links := (ns_links N)(x := ns_links N x + 1)\<rparr>"

definition ns_drop :: "fs_object_id \<Rightarrow> nspace \<Rightarrow> nspace" where
  "ns_drop x N = N\<lparr>ns_links := (ns_links N)(x := ns_links N x - 1)\<rparr>"

definition ns_clear :: "fs_object_id \<Rightarrow> nspace \<Rightarrow> nspace" where
  "ns_clear x N = N\<lparr>ns_links := (ns_links N)(x := 0)\<rparr>"

definition ns_make :: "obj_kind \<Rightarrow> nat \<Rightarrow> fs_object_id \<Rightarrow> inline_name \<Rightarrow> nspace \<Rightarrow> fs_object_id option \<times> nspace" where
  "ns_make k l d n N =
     (let x = ns_next N
      in (Some x, ns_new x k l ((if k = KDir then ns_bump d else (\<lambda>N. N))
                   (ns_set d n (Some x) (N\<lparr>ns_next := x + 1\<rparr>)))))"

definition ns_move ::
    "fs_object_id \<Rightarrow> inline_name \<Rightarrow> fs_object_id \<Rightarrow> inline_name \<Rightarrow> fs_object_id \<Rightarrow> fs_object_id option \<Rightarrow> nspace \<Rightarrow> nspace" where
  "ns_move p n q m x displaced N =
     (let N' = ns_set q m (Some x) (ns_set p n None N);
          N' = (if x \<in> ns_dirs N \<and> p \<noteq> q then ns_bump q (ns_drop p N') else N')
      in case displaced of
           None \<Rightarrow> N'
         | Some y \<Rightarrow> if y \<in> ns_dirs N then ns_clear y (ns_drop q N') else ns_drop y N')"

definition ns_rename ::
    "nspace \<Rightarrow> fs_object_id \<Rightarrow> inline_name \<Rightarrow> fs_object_id \<Rightarrow> inline_name \<Rightarrow> nspace result" where
  "ns_rename N p n q m =
     and_then (ns_dir N p) (\<lambda>_.
     and_then (ok_or (ns_ent N p n) ENOENT) (\<lambda>x.
     if x \<notin> ns_objs N then Error ENOENT
     else if p \<noteq> q \<and> x \<in> ns_dirs N \<and> (x, q) \<in> (ns_edges N)\<^sup>* then Error EINVAL
     else and_then (ns_dir N q) (\<lambda>_.
       case ns_ent N q m of
         None \<Rightarrow> Ok (ns_move p n q m x None N)
       | Some y \<Rightarrow>
           if y = x then Ok N
           else if y \<notin> ns_objs N then Error ENOENT
           else if x \<notin> ns_dirs N \<and> y \<in> ns_dirs N then Error EISDIR
           else if x \<in> ns_dirs N \<and> y \<notin> ns_dirs N then Error ENOTDIR
           else if x \<in> ns_dirs N \<and> ns_ent N y \<noteq> Map.empty then Error ENOTEMPTY
           else Ok (ns_move p n q m x (Some y) N))))"

fun ns_step :: "tmpfs_call \<Rightarrow> nspace \<Rightarrow> fs_object_id option result \<times> nspace" where
  "ns_step (Call_lookup p name) N =
     (and_then (inline_name_new name) (\<lambda>n.
      and_then (ns_dir N p) (\<lambda>_.
      and_then (ok_or (ns_ent N p n) ENOENT) (\<lambda>x. Ok (Some x)))), N)"
| "ns_step (Call_create p name meta) N =
     ns_admitted (and_then (inline_name_new name) (\<lambda>n. and_then (ns_free N p n) (\<lambda>_. Ok n))) N
       (\<lambda>n. ns_make KFile 1 p n N)"
| "ns_step (Call_mkdir p name mode c) N =
     ns_admitted (and_then (inline_name_new name) (\<lambda>n. and_then (ns_free N p n) (\<lambda>_. Ok n))) N
       (\<lambda>n. ns_make KDir 2 p n N)"
| "ns_step (Call_symlink p name target c) N =
     ns_admitted (and_then (inline_name_new name) (\<lambda>n. and_then (ns_free N p n) (\<lambda>_. Ok n))) N
       (\<lambda>n. ns_make KSym 1 p n N)"
| "ns_step (Call_link p name x) N =
     ns_admitted
       (and_then (inline_name_new name) (\<lambda>n.
        and_then (ns_free N p n) (\<lambda>_.
        case ns_kind N x of None \<Rightarrow> Error ENOENT | Some KFile \<Rightarrow> Ok n | Some _ \<Rightarrow> Error EPERM))) N
       (\<lambda>n. (None, ns_set p n (Some x) (ns_bump x N)))"
| "ns_step (Call_unlink p name x) N =
     ns_admitted
       (and_then (inline_name_new name) (\<lambda>n.
        and_then (ns_named N p n x) (\<lambda>_.
        if x \<notin> ns_objs N then Error ENOENT else if x \<in> ns_dirs N then Error EISDIR else Ok n))) N
       (\<lambda>n. (None, ns_drop x (ns_set p n None N)))"
| "ns_step (Call_rmdir p name x) N =
     ns_admitted
       (and_then (inline_name_new name) (\<lambda>n.
        and_then (ns_named N p n x) (\<lambda>_.
        and_then (ns_dir N x) (\<lambda>_.
        if ns_ent N x \<noteq> Map.empty then Error ENOTEMPTY else Ok n)))) N
       (\<lambda>n. (None, ns_clear x (ns_drop p (ns_set p n None N))))"
| "ns_step (Call_rename p name q name') N =
     ns_admitted
       (and_then (inline_name_new name) (\<lambda>n.
        and_then (inline_name_new name') (\<lambda>m.
        if p = q \<and> n = m then Ok N else ns_rename N p n q m))) N
       (\<lambda>N'. (None, N'))"
| "ns_step (Call_destroy x) N = (Ok None, ns_destroy x N)"
| "ns_step (Call_serialize x meta) N = (Ok None, N)"
| "ns_step (Call_chmod x mode c) N = (Ok None, N)"
| "ns_step (Call_chown x u g c) N = (Ok None, N)"
| "ns_step (Call_truncate tail x n) N = (Ok None, N)"

end
