(* ===== verification/Tmpfs_Refine.thy ===== *)
theory Tmpfs_Refine
  imports Tmpfs_Space
begin

text \<open>
  Every call of tmpfs does to the namespace exactly what the specification says, errors included,
  as long as the next object id is unused and no link count is about to saturate.
\<close>

section \<open>Checks\<close>

definition sorted_dirs :: "tmpfs \<Rightarrow> bool" where
  "sorted_dirs tf \<longleftrightarrow> (\<forall>d. bt_ok (children_of tf d))"

lemma name_is_free_spec: "name_is_free tf p n = ns_free (space_of tf) p n"
  by (simp add: name_is_free_def ns_free_def ns_dir_def get_children_cases entry_of_def)

lemma found_entry_spec: "found_entry tf p n x = ns_named (space_of tf) p n x"
  by (auto simp: found_entry_def ns_named_def ns_dir_def get_children_cases entry_of_def split: option.splits)

lemma get_inode_None: "x \<notin> ns_objs (space_of tf) \<Longrightarrow> get_inode tf x = Inl ENOENT"
  by (auto simp: get_inode_def ok_or_def objs_iff split: option.splits)

lemma get_inode_Some:
  assumes "x \<in> ns_objs (space_of tf)"
  obtains i where "get_inode tf x = Inr i" "bt_get (tf_inodes tf) x = Some i"
    "is_directory i \<longleftrightarrow> x \<in> ns_dirs (space_of tf)"
  using assms by (auto simp: get_inode_def ok_or_def objs_iff dirs_iff is_directory_iff split: option.splits)

lemma children_of_Nil_iff: "children_of tf d = [] \<longleftrightarrow> entry_of tf d = Map.empty"
proof
  assume "entry_of tf d = Map.empty"
  then have "bt_get (children_of tf d) = Map.empty"
    by (simp add: entry_of_def fun_eq_iff)
  then show "children_of tf d = []"
    by (simp only: map_of_eq_empty_iff)
qed (simp add: entry_of_def fun_eq_iff)

lemma children_ids_Nil_iff: "children_ids tf d = [] \<longleftrightarrow> entry_of tf d = Map.empty"
  by (simp add: children_of_Nil_iff [symmetric])
    (simp add: children_ids_def children_of_def bt_values_def split: option.splits tmpfs_payload.splits)

section \<open>Link counts\<close>

lemma space_of_drop_link:
  "x \<in> ns_objs (space_of tf) \<Longrightarrow> space_of (drop_link x tf) = ns_drop x (space_of tf)"
  by (auto simp: drop_link_def space_of_relink ns_drop_def objs_iff unat_sat_sub_1 links_of_def)

lemma space_of_bump:
  assumes "x \<in> ns_objs (space_of tf)" "links_of tf x + 1 < 2 ^ 32"
  shows "space_of (modify_inode x (\<lambda>i. set_nlink (u32_sat_add (ti_nlink i) 1) i) tf) = ns_bump x (space_of tf)"
  using assms by (auto simp: space_of_relink ns_bump_def objs_iff unat_sat_add_1 links_of_def)

lemma space_of_clear:
  "x \<in> ns_objs (space_of tf) \<Longrightarrow> space_of (modify_inode x (set_nlink 0) tf) = ns_clear x (space_of tf)"
  using space_of_relink [of x "\<lambda>_. 0" tf] by (auto simp: ns_clear_def objs_iff eta_contract_eq)

lemma space_of_adjust:
  assumes "x \<in> ns_objs (space_of tf)" "links_of tf x + 1 < 2 ^ 32"
  shows "space_of (adjust_directory_nlink x 1 tf) = ns_bump x (space_of tf)"
    and "space_of (adjust_directory_nlink x (- 1) tf) = ns_drop x (space_of tf)"
  using space_of_bump [OF assms] space_of_drop_link [OF assms(1)]
  by (simp_all add: adjust_directory_nlink_def drop_link_def)


section \<open>Operations\<close>

lemma space_of_next [simp]: "space_of (tf\<lparr>tf_next_object_id := x\<rparr>) = (space_of tf)\<lparr>ns_next := x\<rparr>"
  by (simp add: space_of_def entry_of_def children_of_def kind_of_def links_of_def fun_eq_iff)

lemma space_of_containers [simp]: "space_of (tf\<lparr>tf_containers := cs\<rparr>) = space_of tf"
  by (simp add: space_of_def entry_of_def children_of_def kind_of_def links_of_def fun_eq_iff)

lemma ns_set_sel [simp]:
  "ns_kind (ns_set d n x N) = ns_kind N" "ns_links (ns_set d n x N) = ns_links N"
  "ns_next (ns_set d n x N) = ns_next N" "ns_objs (ns_set d n x N) = ns_objs N"
  "ns_dirs (ns_set d n x N) = ns_dirs N"
  by (simp_all add: ns_set_def ns_objs_def ns_dirs_def)

lemma ns_relink_sel [simp]:
  "ns_kind (ns_bump x N) = ns_kind N" "ns_kind (ns_drop x N) = ns_kind N" "ns_kind (ns_clear x N) = ns_kind N"
  "ns_ent (ns_bump x N) = ns_ent N" "ns_ent (ns_drop x N) = ns_ent N" "ns_ent (ns_clear x N) = ns_ent N"
  "ns_next (ns_bump x N) = ns_next N" "ns_next (ns_drop x N) = ns_next N" "ns_next (ns_clear x N) = ns_next N"
  "ns_objs (ns_bump x N) = ns_objs N" "ns_objs (ns_drop x N) = ns_objs N" "ns_objs (ns_clear x N) = ns_objs N"
  "ns_dirs (ns_bump x N) = ns_dirs N" "ns_dirs (ns_drop x N) = ns_dirs N" "ns_dirs (ns_clear x N) = ns_dirs N"
  by (simp_all add: ns_bump_def ns_drop_def ns_clear_def ns_objs_def ns_dirs_def)

lemma ns_links_relink [simp]:
  "ns_links (ns_bump x N) = (ns_links N)(x := ns_links N x + 1)"
  "ns_links (ns_drop x N) = (ns_links N)(x := ns_links N x - 1)"
  "ns_links (ns_clear x N) = (ns_links N)(x := 0)"
  by (simp_all add: ns_bump_def ns_drop_def ns_clear_def)

lemma ns_ent_set: "ns_ent (ns_set d n x N) e m = (if e = d \<and> m = n then x else ns_ent N e m)"
  by (simp add: ns_set_def)

lemma ns_next_upd_sel [simp]:
  "ns_objs (N\<lparr>ns_next := x\<rparr>) = ns_objs N" "ns_dirs (N\<lparr>ns_next := x\<rparr>) = ns_dirs N"
  by (simp_all add: ns_objs_def ns_dirs_def)

lemma ns_free_Inr: "ns_free N p n = Inr u \<longleftrightarrow> p \<in> ns_dirs N \<and> ns_ent N p n = None"
  using ns_dirs_objs [of p N] by (auto simp: ns_free_def ns_dir_def)

lemma ns_named_Inr: "ns_named N p n x = Inr u \<longleftrightarrow> p \<in> ns_dirs N \<and> ns_ent N p n = Some x"
  using ns_dirs_objs [of p N] by (auto simp: ns_named_def ns_dir_def)

lemma reply_id_admitted:
  assumes "\<And>a. r = Inr a \<Longrightarrow> g a = (Some (fst (fst (f a))), space_of (snd (f a)))"
  shows "(fst (reply_id (admitted r tf f)), space_of (snd (reply_id (admitted r tf f)))) =
         ns_admitted r (space_of tf) g"
  using assms by (cases r) (auto simp: reply_id_def admitted_def ns_admitted_def split: prod.splits)

lemma reply_unit_admitted:
  assumes "\<And>a. r = Inr a \<Longrightarrow> g a = (None, space_of (snd (f a)))"
  shows "(fst (reply_unit (admitted r tf f)), space_of (snd (reply_unit (admitted r tf f)))) =
         ns_admitted r (space_of tf) g"
  using assms by (cases r) (auto simp: reply_unit_def admitted_def ns_admitted_def split: prod.splits)

lemma published_spec:
  assumes "\<And>n. r = Inr n \<Longrightarrow>
      (fst (reply_id (f n)), space_of (snd (reply_id (f n)))) = ns_admitted (ns_free (space_of tf) p n) (space_of tf) (\<lambda>_. g n)"
  shows "(fst (published r tf f), space_of (snd (published r tf f))) =
         ns_admitted (and_then r (\<lambda>n. and_then (ns_free (space_of tf) p n) (\<lambda>_. Ok n))) (space_of tf) g"
proof (cases r)
  case (Inr n)
  then show ?thesis
    using assms by (cases "ns_free (space_of tf) p n") (simp_all add: published_def ns_admitted_def)
qed (simp add: published_def ns_admitted_def)

lemma create_publish_spec:
  assumes "tf_next_object_id tf \<notin> ns_objs (space_of tf)"
  shows "(fst (reply_id (create_publish tf p n meta)), space_of (snd (reply_id (create_publish tf p n meta)))) =
         ns_admitted (ns_free (space_of tf) p n) (space_of tf) (\<lambda>_. ns_make KFile 1 p n (space_of tf))"
proof -
  have swap: "insert_inode x i (t\<lparr>tf_containers := cs\<rparr>) = (insert_inode x i t)\<lparr>tf_containers := cs\<rparr>" for x i t cs
    by (simp add: insert_inode_def)
  show ?thesis
    unfolding create_publish_def name_is_free_spec
  proof (rule reply_id_admitted, goal_cases)
    case (1 u)
    then have "p \<in> ns_dirs (space_of tf)"
      by (simp add: ns_free_Inr)
    then show ?case
      using assms by (simp add: alloc_object_id_def Let_def ns_make_def swap space_of_insert_inode space_of_add_entry)
  qed
qed

lemma symlink_publish_spec:
  assumes "tf_next_object_id tf \<notin> ns_objs (space_of tf)"
  shows "(fst (reply_id (symlink_publish tf p n target c)), space_of (snd (reply_id (symlink_publish tf p n target c)))) =
         ns_admitted (ns_free (space_of tf) p n) (space_of tf) (\<lambda>_. ns_make KSym 1 p n (space_of tf))"
  unfolding symlink_publish_def name_is_free_spec
proof (rule reply_id_admitted, goal_cases)
  case (1 u)
  then have "p \<in> ns_dirs (space_of tf)"
    by (simp add: ns_free_Inr)
  then show ?case
    using assms by (simp add: alloc_object_id_def Let_def ns_make_def space_of_insert_inode space_of_add_entry)
qed

lemma mkdir_spec:
  assumes "tf_next_object_id tf \<notin> ns_objs (space_of tf)" "links_of tf p + 1 < 2 ^ 32"
  shows "(fst (reply_id (tmpfs_mkdir tf p name mode c)), space_of (snd (reply_id (tmpfs_mkdir tf p name mode c)))) =
         ns_step (Call_mkdir p name mode c) (space_of tf)"
  unfolding tmpfs_mkdir_def ns_step.simps name_is_free_spec
proof (rule reply_id_admitted, goal_cases)
  case (1 n)
  then have p: "p \<in> ns_dirs (space_of tf)" "p \<in> ns_objs (space_of tf)"
    using ns_dirs_objs by (auto simp: and_then_eq_Inr_iff ns_free_Inr)
  let ?tf = "add_entry p n (tf_next_object_id tf) (tf\<lparr>tf_next_object_id := tf_next_object_id tf + 1\<rparr>)"
  have space: "space_of ?tf = ns_set p n (Some (tf_next_object_id tf)) ((space_of tf)\<lparr>ns_next := tf_next_object_id tf + 1\<rparr>)"
    using p by (simp add: space_of_add_entry)
  have "links_of ?tf = links_of tf"
    using arg_cong [OF space, of ns_links] by simp
  then have "space_of (modify_inode p (\<lambda>i. set_nlink (u32_sat_add (ti_nlink i) 1) i) ?tf) = ns_bump p (space_of ?tf)"
    using p assms(2) by (intro space_of_bump) (simp_all add: space)
  then show ?case
    using assms(1) p by (simp add: alloc_object_id_def Let_def ns_make_def space_of_insert_inode space)
qed

lemma link_spec:
  assumes "links_of tf x + 1 < 2 ^ 32"
  shows "(fst (reply_unit (tmpfs_link tf p name x)), space_of (snd (reply_unit (tmpfs_link tf p name x)))) =
         ns_step (Call_link p name x) (space_of tf)"
proof -
  have check: "link_check tf p name x =
      and_then (inline_name_new name) (\<lambda>n. and_then (ns_free (space_of tf) p n) (\<lambda>_.
        case ns_kind (space_of tf) x of None \<Rightarrow> Error ENOENT | Some KFile \<Rightarrow> Ok n | Some _ \<Rightarrow> Error EPERM))"
    by (auto simp: link_check_def name_is_free_spec inline_name_new_def get_inode_def ok_or_def kind_of_def
        intro!: arg_cong2 [of _ _ _ _ and_then] split: option.splits tmpfs_payload.splits)
  show ?thesis
    unfolding tmpfs_link_def ns_step.simps check
  proof (rule reply_unit_admitted, goal_cases)
    case (1 n)
    then have "p \<in> ns_dirs (space_of tf)" "x \<in> ns_objs (space_of tf)"
      by (auto simp: and_then_eq_Inr_iff ns_free_Inr ns_objs_def split: option.splits)
    then show ?case
      using assms by (simp add: space_of_add_entry space_of_bump)
  qed
qed

lemma unlink_spec:
  "(fst (reply_unit (tmpfs_unlink tf p name x)), space_of (snd (reply_unit (tmpfs_unlink tf p name x)))) =
   ns_step (Call_unlink p name x) (space_of tf)"
proof -
  have "and_then (get_inode tf x) (\<lambda>i. if is_directory i then Error EISDIR else Ok n) =
        (if x \<notin> ns_objs (space_of tf) then Error ENOENT
         else if x \<in> ns_dirs (space_of tf) then Error EISDIR else Ok n)" for n :: inline_name
    by (cases "x \<in> ns_objs (space_of tf)") (auto simp: get_inode_None elim: get_inode_Some)
  then have check: "unlink_check tf p name x =
      and_then (inline_name_new name) (\<lambda>n. and_then (ns_named (space_of tf) p n x) (\<lambda>_.
        if x \<notin> ns_objs (space_of tf) then Error ENOENT
        else if x \<in> ns_dirs (space_of tf) then Error EISDIR else Ok n))"
    by (simp add: unlink_check_def found_entry_spec)
  show ?thesis
    unfolding tmpfs_unlink_def ns_step.simps check
    by (rule reply_unit_admitted)
      (auto simp: and_then_eq_Inr_iff ns_named_Inr space_of_drop_link space_of_remove_entry split: if_splits)
qed

lemma rmdir_spec:
  "(fst (reply_unit (tmpfs_rmdir tf p name x)), space_of (snd (reply_unit (tmpfs_rmdir tf p name x)))) =
   ns_step (Call_rmdir p name x) (space_of tf)"
proof -
  have "and_then (get_children tf x) (\<lambda>ch. if ch \<noteq> [] then Error ENOTEMPTY else Ok n) =
        and_then (ns_dir (space_of tf) x) (\<lambda>_. if ns_ent (space_of tf) x \<noteq> Map.empty then Error ENOTEMPTY else Ok n)"
    for n :: inline_name
    by (simp add: get_children_cases ns_dir_def children_of_Nil_iff)
  then have check: "rmdir_check tf p name x =
      and_then (inline_name_new name) (\<lambda>n. and_then (ns_named (space_of tf) p n x) (\<lambda>_.
        and_then (ns_dir (space_of tf) x) (\<lambda>_.
        if ns_ent (space_of tf) x \<noteq> Map.empty then Error ENOTEMPTY else Ok n)))"
    by (simp only: rmdir_check_def found_entry_spec)
  show ?thesis
    unfolding tmpfs_rmdir_def ns_step.simps check
  proof (rule reply_unit_admitted, goal_cases)
    case (1 n)
    then have "p \<in> ns_dirs (space_of tf)" "p \<in> ns_objs (space_of tf)" "x \<in> ns_objs (space_of tf)"
      using ns_dirs_objs by (auto simp: and_then_eq_Inr_iff ns_named_Inr ns_dir_def split: if_splits)
    then show ?case
      by (simp add: space_of_clear space_of_drop_link space_of_remove_entry)
  qed
qed


text \<open>A rename, whose checks read the table and whose moves are the updates above in a row.\<close>

lemma displaced_check_spec:
  "displaced_check tf b y =
     (if y \<notin> ns_objs (space_of tf) then Error ENOENT
      else if \<not> b \<and> y \<in> ns_dirs (space_of tf) then Error EISDIR
      else if b \<and> y \<notin> ns_dirs (space_of tf) then Error ENOTDIR
      else if b \<and> ns_ent (space_of tf) y \<noteq> Map.empty then Error ENOTEMPTY
      else Ok (y \<in> ns_dirs (space_of tf)))"
proof (cases "y \<in> ns_objs (space_of tf)")
  case True
  then obtain i where "get_inode tf y = Inr i" "is_directory i \<longleftrightarrow> y \<in> ns_dirs (space_of tf)"
    by (rule get_inode_Some)
  then show ?thesis
    using True by (simp add: displaced_check_def Let_def children_ids_Nil_iff)
qed (simp add: displaced_check_def get_inode_None)

definition plan_space :: "fs_object_id \<Rightarrow> inline_name \<Rightarrow> fs_object_id \<Rightarrow> inline_name \<Rightarrow> nspace \<Rightarrow> rename_plan \<Rightarrow> nspace" where
  "plan_space p n q m N plan =
     (case plan of Rename_noop \<Rightarrow> N | Rename_move x _ _ \<Rightarrow> ns_move p n q m x (ns_ent N q m) N)"

lemma rename_check_spec:
  assumes "sorted_dirs tf"
  shows "and_then (rename_check tf p n q m) (\<lambda>plan. Ok (plan_space p n q m (space_of tf) plan)) =
         ns_rename (space_of tf) p n q m"
proof (cases "entry_of tf p n")
  case None
  then show ?thesis
    by (auto simp: rename_check_def Let_def ns_rename_def get_children_cases ns_dir_def entry_of_def)
next
  case (Some x)
  have search: "directory_subtree_contains tf x q \<longleftrightarrow> (x, q) \<in> (ns_edges (space_of tf))\<^sup>*"
    using assms by (simp add: directory_subtree_contains_iff sorted_dirs_def)
  obtain e where e: "bt_get (children_of tf p) n = Some e" "te_object_id e = x"
    using Some by (auto simp: entry_of_def)
  have p: "p \<in> ns_dirs (space_of tf)" "p \<in> ns_objs (space_of tf)"
    using entry_of_dir [OF Some] ns_dirs_objs by auto
  show ?thesis
  proof (cases "x \<in> ns_objs (space_of tf)")
    case False
    then show ?thesis
      using e p by (simp add: rename_check_def Let_def ns_rename_def get_children_cases ns_dir_def get_inode_None Some)
  next
    case True
    then obtain i where i: "get_inode tf x = Inr i" "is_directory i \<longleftrightarrow> x \<in> ns_dirs (space_of tf)"
      by (rule get_inode_Some)
    show ?thesis
    proof (cases "bt_get (children_of tf q) m")
      case None
      then show ?thesis
        using e p i True search
        by (simp add: rename_check_def Let_def ns_rename_def get_children_cases ns_dir_def Some plan_space_def entry_of_def)
    next
      case (Some d)
      then show ?thesis
        using e p i True search \<open>entry_of tf p n = Some x\<close>
        by (simp add: rename_check_def Let_def ns_rename_def get_children_cases ns_dir_def plan_space_def
            displaced_check_spec entry_of_def [of _ q])
    qed
  qed
qed


lemma rename_check_Inr:
  assumes "rename_check tf p n q m = Inr (Rename_move x td dd)"
  shows "p \<in> ns_dirs (space_of tf)" "q \<in> ns_dirs (space_of tf)" "td \<longleftrightarrow> x \<in> ns_dirs (space_of tf)"
    and "entry_of tf q m = None \<Longrightarrow> \<not> dd"
    and "entry_of tf q m = Some y \<Longrightarrow> y \<in> ns_objs (space_of tf) \<and> (dd \<longleftrightarrow> y \<in> ns_dirs (space_of tf))"
proof -
  obtain e i where e: "p \<in> ns_dirs (space_of tf)" "bt_get (children_of tf p) n = Some e"
      "get_inode tf (te_object_id e) = Inr i"
    and rest: "and_then (get_children tf q) (\<lambda>new_children.
       case bt_get new_children m of
         None \<Rightarrow> Ok (Rename_move (te_object_id e) (is_directory i) False)
       | Some displaced \<Rightarrow>
           if te_object_id displaced = te_object_id e then Ok Rename_noop
           else and_then (displaced_check tf (is_directory i) (te_object_id displaced))
                  (\<lambda>dd. Ok (Rename_move (te_object_id e) (is_directory i) dd))) = Inr (Rename_move x td dd)"
    using assms by (auto simp: rename_check_def Let_def and_then_eq_Inr_iff get_children_cases ok_or_def
        split: if_splits option.splits)
  then have q: "q \<in> ns_dirs (space_of tf)" and x: "x = te_object_id e" and td: "td = is_directory i"
    by (auto simp: and_then_eq_Inr_iff get_children_cases split: if_splits option.splits)
  show "p \<in> ns_dirs (space_of tf)" "q \<in> ns_dirs (space_of tf)"
    using e(1) q by simp_all
  show "td \<longleftrightarrow> x \<in> ns_dirs (space_of tf)"
    using e(3) x td by (auto simp: get_inode_def ok_or_def dirs_iff is_directory_iff split: option.splits)
  show "entry_of tf q m = None \<Longrightarrow> \<not> dd"
    using rest q by (auto simp: and_then_eq_Inr_iff get_children_cases entry_of_def split: if_splits option.splits)
  show "entry_of tf q m = Some y \<Longrightarrow> y \<in> ns_objs (space_of tf) \<and> (dd \<longleftrightarrow> y \<in> ns_dirs (space_of tf))"
    using rest q
    by (auto simp: and_then_eq_Inr_iff get_children_cases entry_of_def displaced_check_spec split: if_splits option.splits)
qed

lemma displaced_entry_spec:
  "q \<in> ns_dirs (space_of tf) \<Longrightarrow> displaced_entry tf q m = ns_ent (space_of tf) q m"
  using ns_dirs_objs [of q "space_of tf"] by (simp add: displaced_entry_def get_children_cases entry_of_def)

lemma rename_links_spec:
  assumes "p \<in> ns_objs (space_of tf)" "q \<in> ns_objs (space_of tf)" "\<And>x. links_of tf x + 1 < 2 ^ 32"
  shows "space_of (rename_links p q td dd tf) =
     (let N = (if td \<and> p \<noteq> q then ns_bump q (ns_drop p (space_of tf)) else space_of tf)
      in if dd then ns_drop q N else N)"
proof -
  let ?a = "adjust_directory_nlink p (- 1) tf"
  let ?tf = "if td \<and> p \<noteq> q then adjust_directory_nlink q 1 ?a else tf"
  have a: "space_of ?a = ns_drop p (space_of tf)"
    using space_of_adjust(2) assms(1,3) by simp
  then have "links_of ?a = ns_links (ns_drop p (space_of tf))"
    by (metis space_of_sel(3))
  then have "space_of (adjust_directory_nlink q 1 ?a) = ns_bump q (space_of ?a)" if "p \<noteq> q"
    using assms that by (intro space_of_adjust) (simp_all add: a)
  then have tf: "space_of ?tf = (if td \<and> p \<noteq> q then ns_bump q (ns_drop p (space_of tf)) else space_of tf)"
    using a by simp
  then have "q \<in> ns_objs (space_of ?tf)"
    using assms(2) by simp
  then have "space_of (adjust_directory_nlink q (- 1) ?tf) = ns_drop q (space_of ?tf)"
    by (simp add: adjust_directory_nlink_def space_of_drop_link [unfolded drop_link_def])
  then show ?thesis
    using tf by (simp add: rename_links_def Let_def)
qed

lemma rename_apply_spec:
  assumes check: "rename_check tf p n q m = Inr plan" and "(p, n) \<noteq> (q, m)" "\<And>x. links_of tf x + 1 < 2 ^ 32"
  shows "space_of (rename_apply p n q m plan tf) = plan_space p n q m (space_of tf) plan"
proof (cases plan)
  case (Rename_move x td dd)
  note facts = rename_check_Inr [OF check [unfolded Rename_move]]
  let ?tf1 = "remove_entry p n tf" and ?N = "space_of tf"
  let ?tf2 = "add_entry q m x ?tf1"
  have one: "space_of ?tf1 = ns_set p n None ?N"
    using facts(1) by (rule space_of_remove_entry)
  have "displaced_entry ?tf1 q m = ns_ent (space_of ?tf1) q m"
    using facts(2) by (intro displaced_entry_spec) (simp add: one)
  also have "\<dots> = entry_of tf q m"
    unfolding one using assms(2) by (auto simp: ns_ent_set)
  finally have displaced: "displaced_entry ?tf1 q m = entry_of tf q m" .
  have two: "space_of ?tf2 = ns_set q m (Some x) (ns_set p n None ?N)"
    using facts(2) one by (simp add: space_of_add_entry)
  then have "links_of ?tf2 = links_of tf"
    by (metis space_of_sel(3) ns_set_sel(2))
  define tf3 where "tf3 = rename_links p q td dd ?tf2"
  have three: "space_of tf3 =
      (let N = (if td \<and> p \<noteq> q then ns_bump q (ns_drop p (space_of ?tf2)) else space_of ?tf2)
       in if dd then ns_drop q N else N)"
    unfolding tf3_def using facts(1,2) assms(3) \<open>links_of ?tf2 = links_of tf\<close>
    by (intro rename_links_spec) (auto simp: two dest: ns_dirs_objs)
  have objs: "ns_objs (space_of tf3) = ns_objs ?N"
    by (simp add: three two Let_def)
  have "rename_apply p n q m plan tf = release_displaced (entry_of tf q m) dd tf3"
    by (simp add: Rename_move rename_apply_def displaced tf3_def Let_def)
  also have "space_of \<dots> = ns_move p n q m x (entry_of tf q m) ?N"
    using facts(3-5) objs
    by (cases "entry_of tf q m")
      (auto simp: release_displaced_def three two ns_move_def space_of_clear space_of_drop_link Let_def)
  finally show ?thesis
    by (simp add: Rename_move plan_space_def)
qed (simp add: rename_apply_def plan_space_def)

lemma rename_spec:
  assumes "sorted_dirs tf" "\<And>x. links_of tf x + 1 < 2 ^ 32"
  shows "(fst (reply_unit (tmpfs_rename tf p name q name')), space_of (snd (reply_unit (tmpfs_rename tf p name q name')))) =
         ns_step (Call_rename p name q name') (space_of tf)"
proof (cases "inline_name_new name"; cases "inline_name_new name'")
  fix n m
  assume names: "inline_name_new name = Inr n" "inline_name_new name' = Inr m"
  show ?thesis
  proof (cases "p = q \<and> n = m")
    case True
    then show ?thesis
      by (simp add: names tmpfs_rename_def admitted_def ns_admitted_def reply_unit_def rename_apply_def)
  next
    case False
    have "ns_rename (space_of tf) p n q m =
          and_then (rename_check tf p n q m) (\<lambda>plan. Ok (plan_space p n q m (space_of tf) plan))"
      using assms(1) by (simp add: rename_check_spec)
    then show ?thesis
      using False assms(2) by (cases "rename_check tf p n q m")
        (auto simp: names tmpfs_rename_def admitted_def ns_admitted_def reply_unit_def rename_apply_spec)
  qed
qed (simp_all add: tmpfs_rename_def admitted_def ns_admitted_def reply_unit_def)

section \<open>Refinement of a call\<close>

lemma attributes_keep_space:
  "space_of (snd (serialize_inode_meta tf x meta)) = space_of tf"
  "space_of (snd (chmod_inode tf x mode c)) = space_of tf"
  "space_of (snd (chown_inode tf x u g c)) = space_of tf"
  by (auto simp: serialize_inode_meta_def chmod_inode_def chown_inode_def admitted_def Let_def
      intro!: space_of_modify_attr split: sum.splits)

lemma set_file_size_space:
  assumes "tmpfs_container tf x = Inr c"
  shows "space_of (modify_inode x (set_file_size n) tf) = space_of tf"
proof -
  obtain i l where i: "bt_get (tf_inodes tf) x = Some i" "ti_payload i = RegularFileP c l"
    using assms by (auto simp: tmpfs_container_def get_inode_def ok_or_def and_then_eq_Inr_iff
        split: option.splits tmpfs_payload.splits)
  then show ?thesis
    by (auto simp: space_of_def kind_of_def entry_of_def children_of_def links_of_def modify_inode_get
        set_file_size_def Let_def fun_eq_iff)
qed

lemma truncate_keeps_space: "space_of (snd (tmpfs_truncate tail tf x n)) = space_of tf"
proof (cases "tmpfs_container tf x")
  case (Inr c)
  then have "tmpfs_container (tf\<lparr>tf_containers := cs\<rparr>) x = Inr c" for cs
    by (simp add: tmpfs_container_def get_inode_def)
  then show ?thesis
    using Inr by (auto simp: tmpfs_truncate_def Let_def set_file_size_space split: prod.splits sum.splits)
qed (simp add: tmpfs_truncate_def)

lemma lookup_spec:
  "(and_then (tmpfs_lookup tf p name) (\<lambda>x. Ok (Some x)), space_of tf) = ns_step (Call_lookup p name) (space_of tf)"
  by (cases "inline_name_new name")
    (auto simp: tmpfs_lookup_def get_children_cases ns_dir_def entry_of_def ok_or_def split: option.splits)

lemma tmpfs_step_refines:
  assumes "sorted_dirs tf" "tf_next_object_id tf \<notin> ns_objs (space_of tf)" "\<And>x. links_of tf x + 1 < 2 ^ 32"
  shows "(fst (tmpfs_step call tf), space_of (snd (tmpfs_step call tf))) = ns_step call (space_of tf)"
proof (cases call)
  case (Call_rename p name q name')
  then show ?thesis
    using rename_spec assms by simp
next
  case (Call_create p name meta)
  then show ?thesis
    using published_spec [OF create_publish_spec [OF assms(2)]] by simp
next
  case (Call_symlink p name target c)
  then show ?thesis
    using published_spec [OF symlink_publish_spec [OF assms(2)]] by simp
qed (use assms in \<open>simp_all add: lookup_spec mkdir_spec link_spec unlink_spec
    rmdir_spec space_of_destroy attributes_keep_space truncate_keeps_space
    del: ns_step.simps(1-8) \<close>)

end
