(* ===== verification/Tmpfs_Tree.thy ===== *)
theory Tmpfs_Tree
  imports Tmpfs_Refine
begin

text \<open>
  The shape of the namespace. Entries refer to objects that exist, every directory has at most
  one name and the root none, and no directory contains itself. The links an object must have are
  computed from the entries: the names of a file, and for a directory its own two while it has a
  name and one for each subdirectory. The section at the end takes the calls one by one.
\<close>

section \<open>Shape\<close>

definition names_of :: "nspace \<Rightarrow> fs_object_id \<Rightarrow> (fs_object_id \<times> inline_name) set" where
  "names_of N x = {(d, n). ns_ent N d n = Some x}"

definition subdirs :: "nspace \<Rightarrow> fs_object_id \<Rightarrow> inline_name set" where
  "subdirs N d = {n. \<exists>c\<in>ns_dirs N. ns_ent N d n = Some c}"

definition named :: "nspace \<Rightarrow> fs_object_id \<Rightarrow> bool" where
  "named N d \<longleftrightarrow> d = TMPFS_ROOT_OBJECT_ID \<or> names_of N d \<noteq> {}"

definition shape_ok :: "nspace \<Rightarrow> bool" where
  "shape_ok N \<longleftrightarrow>
     (\<forall>d n x. ns_ent N d n = Some x \<longrightarrow> d \<in> ns_dirs N \<and> x \<in> ns_objs N \<and> x \<noteq> TMPFS_ROOT_OBJECT_ID) \<and>
     TMPFS_ROOT_OBJECT_ID \<in> ns_dirs N \<and>
     (\<forall>x\<in>ns_dirs N. \<forall>a\<in>names_of N x. \<forall>b\<in>names_of N x. a = b) \<and>
     acyclic (ns_edges N) \<and>
     finite {(d, n). ns_ent N d n \<noteq> None}"

definition due_links :: "nspace \<Rightarrow> fs_object_id \<Rightarrow> nat" where
  "due_links N x =
     (if x \<in> ns_dirs N then (if named N x then 2 else 0) + card (subdirs N x)
      else card (names_of N x))"

lemma shape_okD:
  assumes "shape_ok N"
  shows "ns_ent N d n = Some x \<Longrightarrow> d \<in> ns_dirs N"
    and "ns_ent N d n = Some x \<Longrightarrow> x \<in> ns_objs N"
    and "ns_ent N d n = Some x \<Longrightarrow> x \<noteq> TMPFS_ROOT_OBJECT_ID"
    and "TMPFS_ROOT_OBJECT_ID \<in> ns_dirs N"
    and "x \<in> ns_dirs N \<Longrightarrow> ns_ent N d n = Some x \<Longrightarrow> ns_ent N d' n' = Some x \<Longrightarrow> d = d' \<and> n = n'"
    and "acyclic (ns_edges N)"
    and "finite {(d, n). ns_ent N d n \<noteq> None}"
  using assms unfolding shape_ok_def names_of_def by blast+

lemma finite_names: "shape_ok N \<Longrightarrow> finite (names_of N x)"
  by (rule finite_subset [OF _ shape_okD(7)]) (auto simp: names_of_def)

lemma finite_subdirs:
  assumes "shape_ok N" shows "finite (subdirs N d)"
proof -
  have "(\<lambda>n. (d, n)) ` subdirs N d \<subseteq> {(d, n). ns_ent N d n \<noteq> None}"
    by (auto simp: subdirs_def)
  then show ?thesis
    using shape_okD(7) [OF assms] finite_subset by (blast intro: finite_imageD inj_onI)
qed

text \<open>An entry that goes away.\<close>

lemma names_of_set:
  "names_of (ns_set d n v N) x = (if v = Some x then insert (d, n) (names_of N x) else names_of N x - {(d, n)})"
  by (auto simp: names_of_def ns_ent_set split: if_splits)

lemma names_of_unset_other:
  "ns_ent N d n = Some x \<Longrightarrow> z \<noteq> x \<Longrightarrow> names_of (ns_set d n None N) z = names_of N z"
  by (auto simp: names_of_def ns_ent_set split: if_splits)

lemma names_of_set_other:
  "ns_ent N d n = None \<Longrightarrow> z \<noteq> x \<Longrightarrow> names_of (ns_set d n (Some x) N) z = names_of N z"
  by (auto simp: names_of_def ns_ent_set split: if_splits)

lemma subdirs_set:
  "subdirs (ns_set d n v N) e =
     (if e \<noteq> d then subdirs N e
      else if \<exists>c\<in>ns_dirs N. v = Some c then insert n (subdirs N d) else subdirs N d - {n})"
  by (auto simp: subdirs_def ns_ent_set split: if_splits)

lemma ns_edges_unset: "ns_edges (ns_set d n None N) \<subseteq> ns_edges N"
  by (auto simp: ns_edges_def ns_ent_set split: if_splits)

lemma ns_edges_set: "ns_edges (ns_set d n (Some x) N) \<subseteq> insert (d, x) (ns_edges N)"
  by (auto simp: ns_edges_def ns_ent_set split: if_splits)

lemma shape_ok_unset:
  assumes "shape_ok N" shows "shape_ok (ns_set d n None N)"
proof -
  have "acyclic (ns_edges (ns_set d n None N))"
    using shape_okD(6) [OF assms] ns_edges_unset by (rule acyclic_subset)
  moreover have "finite {(e, m). ns_ent (ns_set d n None N) e m \<noteq> None}"
    by (rule finite_subset [OF _ shape_okD(7) [OF assms]]) (auto simp: ns_ent_set split: if_splits)
  ultimately show ?thesis
    using assms unfolding shape_ok_def by (auto simp: names_of_set ns_ent_set split: if_splits)
qed

lemma no_loop:
  assumes "shape_ok N" "ns_ent N d n = Some x" shows "d \<noteq> x"
proof
  assume "d = x"
  then have "(x, x) \<in> (ns_edges N)\<^sup>+"
    using assms(2) by (auto simp: ns_edges_def)
  then show False
    using shape_okD(6) [OF assms(1)] by (simp add: acyclic_def)
qed

lemma due_links_unset:
  assumes shape: "shape_ok N" and ent: "ns_ent N d n = Some x"
  shows "due_links (ns_set d n None N) y =
     (if y = x then (if x \<in> ns_dirs N then card (subdirs N x) else due_links N x - 1)
      else if y = d \<and> x \<in> ns_dirs N then due_links N d - 1 else due_links N y)"
proof -
  have "d \<noteq> x"
    using no_loop [OF shape ent] .
  have names: "names_of (ns_set d n None N) x = {}" if "x \<in> ns_dirs N"
    using that ent shape_okD(5) [OF shape] by (auto simp: names_of_def ns_ent_set split: if_splits)
  have root: "x \<noteq> TMPFS_ROOT_OBJECT_ID"
    using shape_okD(3) [OF shape ent] .
  have x_named: "(d, n) \<in> names_of N x"
    using ent by (simp add: names_of_def)
  note other = names_of_unset_other [OF ent]
  have n: "n \<in> subdirs N d" if "x \<in> ns_dirs N"
    using that ent by (auto simp: subdirs_def)
  then have sub: "card (subdirs (ns_set d n None N) d) = card (subdirs N d) - 1" if "x \<in> ns_dirs N"
    using that by (simp add: subdirs_set)
  have "0 < card (subdirs N d)" if "x \<in> ns_dirs N"
    using that n finite_subdirs [OF shape] by (auto simp: card_gt_0_iff)
  have sub': "subdirs (ns_set d n None N) d = subdirs N d" if "x \<notin> ns_dirs N"
    using that ent by (auto simp: subdirs_def ns_ent_set)
  consider "y = x" "x \<in> ns_dirs N" | "y = x" "x \<notin> ns_dirs N" | "y = d" "y \<noteq> x" | "y \<noteq> d" "y \<noteq> x"
    by blast
  then show ?thesis
  proof cases
    case 1
    then show ?thesis
      using \<open>d \<noteq> x\<close> by (simp add: due_links_def named_def names root subdirs_set)
  next
    case 2
    then show ?thesis
      using x_named by (simp add: due_links_def names_of_set)
  next
    case 3
    then have "d \<in> ns_dirs N"
      using shape_okD(1) [OF shape ent] by simp
    then show ?thesis
      using 3 \<open>x \<in> ns_dirs N \<Longrightarrow> 0 < card (subdirs N d)\<close>
      by (cases "x \<in> ns_dirs N") (simp_all add: due_links_def named_def other sub sub')
  next
    case 4
    then show ?thesis
      by (simp add: due_links_def named_def other subdirs_set)
  qed
qed

text \<open>An entry that is added under a free name.\<close>

lemma shape_ok_set:
  assumes shape: "shape_ok N" and "ns_ent N d n = None" "d \<in> ns_dirs N" "x \<in> ns_objs N"
    "x \<noteq> TMPFS_ROOT_OBJECT_ID" "x \<in> ns_dirs N \<Longrightarrow> names_of N x = {}" "(x, d) \<notin> (ns_edges N)\<^sup>*"
  shows "shape_ok (ns_set d n (Some x) N)"
proof -
  have "acyclic (insert (d, x) (ns_edges N))"
    using shape_okD(6) [OF shape] assms(7) by (simp add: acyclic_insert)
  then have "acyclic (ns_edges (ns_set d n (Some x) N))"
    using ns_edges_set by (rule acyclic_subset)
  moreover have "finite {(e, m). ns_ent (ns_set d n (Some x) N) e m \<noteq> None}"
    by (rule finite_subset [of _ "insert (d, n) {(d, n). ns_ent N d n \<noteq> None}"])
      (use shape_okD(7) [OF shape] in \<open>auto simp: ns_ent_set split: if_splits\<close>)
  ultimately show ?thesis
    using assms unfolding shape_ok_def by (auto simp: names_of_set ns_ent_set split: if_splits)
qed

lemma due_links_set:
  assumes shape: "shape_ok N" and ent: "ns_ent N d n = None" and "d \<in> ns_dirs N" "d \<noteq> x" "x \<noteq> TMPFS_ROOT_OBJECT_ID"
    "x \<in> ns_dirs N \<Longrightarrow> names_of N x = {}"
  shows "due_links (ns_set d n (Some x) N) y =
     (if y = x then (if x \<in> ns_dirs N then 2 + card (subdirs N x) else due_links N x + 1)
      else if y = d \<and> x \<in> ns_dirs N then due_links N d + 1 else due_links N y)"
proof -
  note other = names_of_set_other [OF ent]
  have fresh: "n \<notin> subdirs N d" "(d, n) \<notin> names_of N x"
    using ent by (auto simp: subdirs_def names_of_def)
  have sub': "subdirs (ns_set d n (Some x) N) d = subdirs N d" if "x \<notin> ns_dirs N"
    using that ent by (auto simp: subdirs_def ns_ent_set)
  consider "y = x" "x \<in> ns_dirs N" | "y = x" "x \<notin> ns_dirs N" | "y = d" "y \<noteq> x" | "y \<noteq> d" "y \<noteq> x"
    by blast
  then show ?thesis
  proof cases
    case 1
    then show ?thesis
      using assms(4) by (simp add: due_links_def named_def names_of_set subdirs_set)
  next
    case 2
    then show ?thesis
      using fresh finite_names [OF shape] by (simp add: due_links_def names_of_set)
  next
    case 3
    then show ?thesis
      using assms(3) fresh finite_subdirs [OF shape]
      by (cases "x \<in> ns_dirs N") (simp_all add: due_links_def named_def other sub' subdirs_set)
  next
    case 4
    then show ?thesis
      by (simp add: due_links_def named_def other subdirs_set)
  qed
qed


text \<open>Directories without a name are empty, apart from those in a given set.\<close>

definition dead_empty :: "fs_object_id set \<Rightarrow> nspace \<Rightarrow> bool" where
  "dead_empty X N \<longleftrightarrow> (\<forall>d\<in>ns_dirs N. d \<notin> X \<longrightarrow> \<not> named N d \<longrightarrow> ns_ent N d = Map.empty)"

lemma named_unset: "ns_ent N d n = Some x \<Longrightarrow> y \<noteq> x \<Longrightarrow> named (ns_set d n None N) y \<longleftrightarrow> named N y"
  by (simp add: named_def names_of_unset_other)

lemma named_set: "ns_ent N d n = None \<Longrightarrow> named (ns_set d n (Some x) N) y \<longleftrightarrow> y = x \<or> named N y"
proof (cases "y = x")
  case True
  then show ?thesis
    by (simp add: named_def names_of_set)
qed (simp add: named_def names_of_set_other)

lemma ns_ent_unset_empty: "ns_ent N e = Map.empty \<Longrightarrow> ns_ent (ns_set d n None N) e = Map.empty"
  by (auto simp: ns_ent_set fun_eq_iff)

lemma dead_empty_unset:
  assumes "dead_empty X N" "ns_ent N d n = Some x"
  shows "dead_empty (insert x X) (ns_set d n None N)"
    and "x \<notin> ns_dirs N \<or> ns_ent N x = Map.empty \<Longrightarrow> dead_empty X (ns_set d n None N)"
  using assms by (auto simp: dead_empty_def named_unset intro!: ns_ent_unset_empty)
    (metis named_unset)+

lemma dead_empty_set:
  assumes "dead_empty X N" "ns_ent N d n = None" "named N d"
  shows "dead_empty (X - {x}) (ns_set d n (Some x) N)"
  using assms unfolding dead_empty_def by (auto simp: named_set ns_ent_set fun_eq_iff)

section \<open>The invariant\<close>

text \<open>
  The counts of directories are exact, those of other objects never too small. They are exact
  for all objects, and removed directories are empty, when the flag is set.
\<close>

definition space_ok :: "bool \<Rightarrow> nspace \<Rightarrow> bool" where
  "space_ok exact N \<longleftrightarrow>
     shape_ok N \<and>
     (\<forall>x\<in>ns_objs N. due_links N x \<le> ns_links N x \<and> (x \<in> ns_dirs N \<or> exact \<longrightarrow> ns_links N x = due_links N x)) \<and>
     (exact \<longrightarrow> dead_empty {} N)"

lemma same_view:
  assumes "ns_kind N' = ns_kind N" "ns_ent N' = ns_ent N"
  shows "ns_objs N' = ns_objs N" "ns_dirs N' = ns_dirs N" "ns_edges N' = ns_edges N" "names_of N' = names_of N"
    "subdirs N' = subdirs N" "named N' = named N" "shape_ok N' = shape_ok N" "due_links N' = due_links N"
    "dead_empty X N' = dead_empty X N"
proof -
  show objs: "ns_objs N' = ns_objs N" and dirs: "ns_dirs N' = ns_dirs N"
    using assms by (simp_all add: ns_objs_def ns_dirs_def)
  show edges: "ns_edges N' = ns_edges N" and names: "names_of N' = names_of N"
    using assms by (simp_all add: ns_edges_def names_of_def fun_eq_iff)
  show sub: "subdirs N' = subdirs N" and nm: "named N' = named N"
    using assms dirs names by (simp_all add: subdirs_def named_def fun_eq_iff)
  show "shape_ok N' = shape_ok N" "due_links N' = due_links N" "dead_empty X N' = dead_empty X N"
    using assms(2) objs dirs edges names sub nm by (simp_all add: shape_ok_def due_links_def dead_empty_def fun_eq_iff)
qed

lemma space_okI:
  assumes "ns_kind N' = ns_kind M" "ns_ent N' = ns_ent M" "shape_ok M"
    and "\<And>x. x \<in> ns_objs M \<Longrightarrow> due_links M x \<le> ns_links N' x"
    and "\<And>x. x \<in> ns_objs M \<Longrightarrow> x \<in> ns_dirs M \<or> e \<Longrightarrow> ns_links N' x = due_links M x"
    and "e \<Longrightarrow> dead_empty {} M"
  shows "space_ok e N'"
  using assms same_view [OF assms(1,2)] by (simp add: space_ok_def)

lemma space_okD:
  assumes "space_ok e N"
  shows "shape_ok N" "x \<in> ns_objs N \<Longrightarrow> due_links N x \<le> ns_links N x"
    "x \<in> ns_dirs N \<Longrightarrow> ns_links N x = due_links N x" "e \<Longrightarrow> x \<in> ns_objs N \<Longrightarrow> ns_links N x = due_links N x"
    "e \<Longrightarrow> dead_empty {} N"
  using assms ns_dirs_objs unfolding space_ok_def by auto

section \<open>Calls\<close>

lemma no_edge_out:
  assumes "shape_ok N" "x \<notin> ns_dirs N"
  shows "(x, d) \<in> (ns_edges N)\<^sup>* \<longleftrightarrow> x = d"
proof -
  have "(x, y) \<notin> ns_edges N" for y
    using assms shape_okD(1) [OF assms(1)] by (auto simp: ns_edges_def)
  then show ?thesis
    by (metis converse_rtranclE rtrancl.rtrancl_refl)
qed

lemma space_ok_unlink:
  assumes ok: "space_ok e N" and ent: "ns_ent N p n = Some x" and "x \<notin> ns_dirs N"
  shows "space_ok e (ns_drop x (ns_set p n None N))"
proof (rule space_okI [where M = "ns_set p n None N"])
  note shape = space_okD(1) [OF ok]
  show "shape_ok (ns_set p n None N)"
    using shape by (rule shape_ok_unset)
  show "due_links (ns_set p n None N) y \<le> ns_links (ns_drop x (ns_set p n None N)) y"
    if "y \<in> ns_objs (ns_set p n None N)" for y
    using that assms space_okD(2) [OF ok, of y] by (auto simp: due_links_unset [OF shape ent])
  show "ns_links (ns_drop x (ns_set p n None N)) y = due_links (ns_set p n None N) y"
    if "y \<in> ns_objs (ns_set p n None N)" "y \<in> ns_dirs (ns_set p n None N) \<or> e" for y
    using that assms space_okD(3,4) [OF ok, of y] by (auto simp: due_links_unset [OF shape ent])
  show "dead_empty {} (ns_set p n None N)" if e
    using dead_empty_unset(2) [OF space_okD(5) [OF ok that] ent] assms(3) by simp
qed simp_all

lemma space_ok_rmdir:
  assumes ok: "space_ok e N" and ent: "ns_ent N p n = Some x" and "x \<in> ns_dirs N" "ns_ent N x = Map.empty"
  shows "space_ok e (ns_clear x (ns_drop p (ns_set p n None N)))"
proof (rule space_okI [where M = "ns_set p n None N"])
  note shape = space_okD(1) [OF ok]
  have "p \<noteq> x" "p \<in> ns_dirs N"
    using no_loop [OF shape ent] shape_okD(1) [OF shape ent] by simp_all
  have "subdirs N x = {}"
    using assms(4) by (simp add: subdirs_def)
  then have due: "due_links (ns_set p n None N) y =
      (if y = x then 0 else if y = p then due_links N p - 1 else due_links N y)" for y
    using assms(3) by (simp add: due_links_unset [OF shape ent])
  show "shape_ok (ns_set p n None N)"
    using shape by (rule shape_ok_unset)
  show "due_links (ns_set p n None N) y \<le> ns_links (ns_clear x (ns_drop p (ns_set p n None N))) y"
    if "y \<in> ns_objs (ns_set p n None N)" for y
    using that \<open>p \<noteq> x\<close> space_okD(2) [OF ok, of y] by (auto simp: due)
  show "ns_links (ns_clear x (ns_drop p (ns_set p n None N))) y = due_links (ns_set p n None N) y"
    if "y \<in> ns_objs (ns_set p n None N)" "y \<in> ns_dirs (ns_set p n None N) \<or> e" for y
    using that \<open>p \<noteq> x\<close> \<open>p \<in> ns_dirs N\<close> space_okD(3,4) [OF ok, of y] by (auto simp: due)
  show "dead_empty {} (ns_set p n None N)" if e
    using dead_empty_unset(2) [OF space_okD(5) [OF ok that] ent] assms(4) by simp
qed simp_all

lemma space_ok_link:
  assumes ok: "space_ok e N" and "p \<in> ns_dirs N" "ns_ent N p n = None" "ns_kind N x = Some KFile"
    and "e \<Longrightarrow> named N p"
  shows "space_ok e (ns_set p n (Some x) (ns_bump x N))"
proof (rule space_okI [where M = "ns_set p n (Some x) N"])
  note shape = space_okD(1) [OF ok]
  have x: "x \<in> ns_objs N" "x \<notin> ns_dirs N" "x \<noteq> p" "x \<noteq> TMPFS_ROOT_OBJECT_ID"
    using assms(2,4) shape_okD(4) [OF shape] by (auto simp: ns_objs_def ns_dirs_def)
  have due: "due_links (ns_set p n (Some x) N) y = (if y = x then due_links N x + 1 else due_links N y)" for y
    using assms x by (subst due_links_set [OF shape]) auto
  show "shape_ok (ns_set p n (Some x) N)"
    using assms x by (intro shape_ok_set [OF shape]) (auto simp: no_edge_out [OF shape])
  show "due_links (ns_set p n (Some x) N) y \<le> ns_links (ns_set p n (Some x) (ns_bump x N)) y"
    if "y \<in> ns_objs (ns_set p n (Some x) N)" for y
    using that space_okD(2) [OF ok, of y] by (auto simp: due)
  show "ns_links (ns_set p n (Some x) (ns_bump x N)) y = due_links (ns_set p n (Some x) N) y"
    if "y \<in> ns_objs (ns_set p n (Some x) N)" "y \<in> ns_dirs (ns_set p n (Some x) N) \<or> e" for y
    using that x space_okD(3,4) [OF ok, of y] by (auto simp: due)
  show "dead_empty {} (ns_set p n (Some x) N)" if e
    using dead_empty_set [OF space_okD(5) [OF ok that] assms(3), of x] assms(5) that by simp
qed (simp_all add: ns_set_def)


text \<open>A new object, first without a name.\<close>

lemma ns_new_sel [simp]:
  "ns_ent (ns_new x k l N) = ns_ent N" "ns_next (ns_new x k l N) = ns_next N"
  "ns_kind (ns_new x k l N) = (ns_kind N)(x \<mapsto> k)" "ns_links (ns_new x k l N) = (ns_links N)(x := l)"
  "ns_objs (ns_new x k l N) = insert x (ns_objs N)" "ns_edges (ns_new x k l N) = ns_edges N"
  "names_of (ns_new x k l N) = names_of N" "named (ns_new x k l N) = named N"
  by (auto simp: ns_new_def ns_objs_def ns_edges_def names_of_def named_def fun_eq_iff)

lemma ns_dirs_new:
  "x \<notin> ns_objs N \<Longrightarrow> ns_dirs (ns_new x k l N) = (if k = KDir then insert x (ns_dirs N) else ns_dirs N)"
  by (auto simp: ns_new_def ns_dirs_def ns_objs_def split: if_splits)

lemma unborn:
  assumes "shape_ok N" "x \<notin> ns_objs N"
  shows "names_of N x = {}" "ns_ent N x = Map.empty" "x \<noteq> TMPFS_ROOT_OBJECT_ID" "x \<notin> ns_dirs N"
    "subdirs N x = {}"
proof -
  show dirs: "x \<notin> ns_dirs N"
    using assms(2) ns_dirs_objs by blast
  show "names_of N x = {}" "x \<noteq> TMPFS_ROOT_OBJECT_ID"
    using assms dirs shape_okD(2,4) [OF assms(1)] by (auto simp: names_of_def)
  show ent: "ns_ent N x = Map.empty"
    using dirs shape_okD(1) [OF assms(1)] by (fastforce simp: fun_eq_iff)
  show "subdirs N x = {}"
    by (simp add: subdirs_def ent)
qed

lemma shape_ok_new:
  assumes shape: "shape_ok N" and "x \<notin> ns_objs N"
  shows "shape_ok (ns_new x k l N)"
  using assms unborn [OF assms] unfolding shape_ok_def by (auto simp: ns_dirs_new)

lemma due_links_new:
  assumes shape: "shape_ok N" and "x \<notin> ns_objs N"
  shows "due_links (ns_new x k l N) y = (if y = x then 0 else due_links N y)"
proof -
  have "subdirs (ns_new x k l N) = subdirs N"
    using unborn [OF assms] assms(2) by (auto simp: subdirs_def ns_dirs_new names_of_def fun_eq_iff)
  then show ?thesis
    using unborn [OF assms] assms(2) by (auto simp: due_links_def ns_dirs_new named_def)
qed

lemma space_ok_make:
  assumes ok: "space_ok e N" and p: "p \<in> ns_dirs N" and free: "ns_ent N p n = None"
    and x: "ns_next N \<notin> ns_objs N" and l: "l = (if k = KDir then 2 else 1)"
    and live: "e \<Longrightarrow> named N p"
  shows "space_ok e (snd (ns_make k l p n N))"
proof -
  note shape = space_okD(1) [OF ok] and unb = unborn [OF space_okD(1) [OF ok] x]
  let ?x = "ns_next N" and ?M = "ns_new (ns_next N) k l N" and ?N' = "snd (ns_make k l p n N)"
  let ?P = "ns_set p n (Some ?x) ?M"
  have shapeM: "shape_ok ?M"
    using shape x by (rule shape_ok_new)
  have "p \<noteq> ?x" "p \<in> ns_dirs ?M"
    using p x unb(4) by (auto simp: ns_dirs_new)
  have due: "due_links ?P y =
      (if y = ?x then l else if y = p \<and> k = KDir then due_links N p + 1 else due_links N y)" for y
  proof -
    have "card (subdirs ?M ?x) = 0"
      using unb(2) by (simp add: subdirs_def)
    then show ?thesis
      using \<open>p \<noteq> ?x\<close> \<open>p \<in> ns_dirs ?M\<close> free unb x l
      by (subst due_links_set [OF shapeM]) (auto simp: due_links_new [OF shape x] ns_dirs_new)
  qed
  have links: "ns_links ?N' = (if k = KDir then (ns_links N)(p := ns_links N p + 1) else ns_links N)(?x := l)"
    by (simp add: ns_make_def Let_def)
  show ?thesis
  proof (rule space_okI [where M = ?P])
    have "ns_edges N = ns_edges ?M" "(?x, p) \<notin> (ns_edges ?M)\<^sup>*"
      using no_edge_out [OF shape unb(4)] \<open>p \<noteq> ?x\<close> by auto
    then show "shape_ok ?P"
      using free unb \<open>p \<in> ns_dirs ?M\<close> by (intro shape_ok_set [OF shapeM]) auto
    show "due_links ?P y \<le> ns_links ?N' y" if "y \<in> ns_objs ?P" for y
      using that space_okD(2) [OF ok, of y] \<open>p \<noteq> ?x\<close> by (auto simp: due links)
    show "ns_links ?N' y = due_links ?P y" if "y \<in> ns_objs ?P" "y \<in> ns_dirs ?P \<or> e" for y
      using that space_okD(3,4) [OF ok, of y] \<open>p \<noteq> ?x\<close> x p by (auto simp: due links ns_dirs_new)
    have "dead_empty {} ?M" if e
      using space_okD(5) [OF ok that] unb(2) x by (auto simp: dead_empty_def ns_dirs_new)
    then show "dead_empty {} ?P" if e
      using that dead_empty_set [of "{}" ?M p n ?x] free live by simp
  qed (simp_all add: ns_make_def Let_def ns_set_def)
qed

text \<open>An object whose link count has dropped to zero.\<close>

lemma space_ok_destroy:
  assumes ok: "space_ok e N" shows "space_ok e (ns_destroy x N)"
proof (cases "x \<notin> ns_objs N \<or> ns_links N x > 0")
  case True
  then show ?thesis
    using ok by (simp add: ns_destroy_def)
next
  case False
  note shape = space_okD(1) [OF ok]
  let ?N = "ns_destroy x N"
  have "due_links N x = 0"
    using False space_okD(2) [OF ok, of x] by simp
  then have none: "names_of N x = {}" "x \<noteq> TMPFS_ROOT_OBJECT_ID" "subdirs N x = {}"
    using finite_names [OF shape] finite_subdirs [OF shape] shape_okD(1,4) [OF shape]
    by (auto simp: due_links_def named_def subdirs_def split: if_splits)
  have sel: "ns_kind ?N = (ns_kind N)(x := None)" "ns_ent ?N = (ns_ent N)(x := Map.empty)"
    "ns_links ?N = (ns_links N)(x := 0)"
    using False by (simp_all add: ns_destroy_def)
  have sets: "ns_objs ?N = ns_objs N - {x}" "ns_dirs ?N = ns_dirs N - {x}" "ns_edges ?N \<subseteq> ns_edges N"
    by (auto simp: ns_objs_def ns_dirs_def ns_edges_def sel split: if_splits)
  have names: "names_of ?N y = names_of N y - {x} \<times> UNIV" for y
    by (auto simp: names_of_def sel split: if_splits)
  have ent: "ns_ent N x n \<noteq> Some d" if "d \<in> ns_dirs N" for n d
    using that none(3) by (auto simp: subdirs_def)
  have dirs: "names_of ?N y = names_of N y" "subdirs ?N y = subdirs N y" if "y \<in> ns_dirs ?N" for y
    using that ent none(1) by (auto simp: sets names_of_def subdirs_def sel split: if_splits)
  have due_dir: "due_links ?N y = due_links N y" if "y \<in> ns_dirs ?N" for y
    using that dirs [OF that] by (simp add: due_links_def named_def sets)
  have due_file: "due_links ?N y \<le> due_links N y" if "y \<in> ns_objs ?N" "y \<notin> ns_dirs ?N" for y
    using that finite_names [OF shape] by (auto simp: due_links_def sets names intro: card_mono)
  have empty: "ns_ent N x = Map.empty" if e
    using space_okD(5) [OF ok that] none shape_okD(1) [OF shape]
    by (cases "x \<in> ns_dirs N") (fastforce simp: dead_empty_def named_def fun_eq_iff)+
  then have exact: "due_links ?N y = due_links N y" if e "y \<in> ns_objs ?N" for y
    using that due_dir by (cases "y \<in> ns_dirs ?N") (auto simp: due_links_def sets names_of_def sel intro!: arg_cong [of _ _ card] split: if_splits)
  show ?thesis
  proof (rule space_okI [where M = ?N])
    have "acyclic (ns_edges ?N)"
      using shape_okD(6) [OF shape] sets(3) by (rule acyclic_subset)
    moreover have "finite {(d, n). ns_ent ?N d n \<noteq> None}"
      by (rule finite_subset [OF _ shape_okD(7) [OF shape]]) (auto simp: sel split: if_splits)
    moreover have "d \<in> ns_dirs ?N \<and> y \<in> ns_objs ?N \<and> y \<noteq> TMPFS_ROOT_OBJECT_ID" if "ns_ent ?N d n = Some y" for d n y
      using that none(1) shape_okD(1-3) [OF shape, of d n y] by (auto simp: sel sets names_of_def split: if_splits)
    ultimately show "shape_ok ?N"
      using shape none(2) dirs(1) unfolding shape_ok_def by (simp add: sets) blast
    show "due_links ?N y \<le> ns_links ?N y" if "y \<in> ns_objs ?N" for y
      using that space_okD(2) [OF ok, of y] due_dir [of y] due_file [of y]
      by (cases "y \<in> ns_dirs ?N") (auto simp: sel sets)
    show "ns_links ?N y = due_links ?N y" if "y \<in> ns_objs ?N" "y \<in> ns_dirs ?N \<or> e" for y
      using that space_okD(3,4) [OF ok, of y] due_dir [of y] exact [of y] by (auto simp: sel sets)
    show "dead_empty {} ?N" if e
      using space_okD(5) [OF ok that] dirs(1) by (auto simp: dead_empty_def sets named_def sel)
  qed simp_all
qed


text \<open>A rename takes the entry out, clears the new place, and puts the entry there.\<close>

lemma ns_set_set: "ns_set d n v (ns_set d n w N) = ns_set d n v N"
  by (simp add: ns_set_def)

lemma ns_set_same: "ns_ent N d n = v \<Longrightarrow> ns_set d n v N = N"
  by (simp add: ns_set_def fun_upd_idem)

lemma due_links_pos:
  assumes "shape_ok N" "ns_ent N d n = Some x"
  shows "x \<in> ns_dirs N \<Longrightarrow> 0 < due_links N d" "x \<notin> ns_dirs N \<Longrightarrow> 0 < due_links N x"
proof -
  assume "x \<in> ns_dirs N"
  then have "n \<in> subdirs N d"
    using assms(2) by (auto simp: subdirs_def)
  then have "0 < card (subdirs N d)"
    using finite_subdirs [OF assms(1)] by (auto simp: card_gt_0_iff)
  then show "0 < due_links N d"
    using shape_okD(1) [OF assms] by (simp add: due_links_def)
next
  assume "x \<notin> ns_dirs N"
  moreover have "(d, n) \<in> names_of N x"
    using assms(2) by (simp add: names_of_def)
  ultimately show "0 < due_links N x"
    using finite_names [OF assms(1)] by (auto simp: due_links_def card_gt_0_iff)
qed

definition move_allowed ::
    "bool \<Rightarrow> nspace \<Rightarrow> fs_object_id \<Rightarrow> inline_name \<Rightarrow> fs_object_id \<Rightarrow> inline_name \<Rightarrow> fs_object_id \<Rightarrow> bool" where
  "move_allowed e N p n q m x \<longleftrightarrow>
     ns_ent N p n = Some x \<and> q \<in> ns_dirs N \<and> (p, n) \<noteq> (q, m) \<and>
     (p \<noteq> q \<and> x \<in> ns_dirs N \<longrightarrow> (x, q) \<notin> (ns_edges N)\<^sup>*) \<and>
     (\<forall>y. ns_ent N q m = Some y \<longrightarrow>
        y \<noteq> x \<and> (x \<in> ns_dirs N \<longleftrightarrow> y \<in> ns_dirs N) \<and> (y \<in> ns_dirs N \<longrightarrow> ns_ent N y = Map.empty)) \<and>
     (e \<longrightarrow> named N q)"

lemma move_not_below:
  assumes "shape_ok N" "move_allowed e N p n q m x"
  shows "(x, q) \<notin> (ns_edges N)\<^sup>*"
proof
  assume below: "(x, q) \<in> (ns_edges N)\<^sup>*"
  have x: "x \<in> ns_dirs N"
    using assms(2) below no_edge_out [OF assms(1), of x q] by (cases "x \<in> ns_dirs N") (auto simp: move_allowed_def)
  then have "p = q"
    using assms(2) below by (auto simp: move_allowed_def)
  moreover have "(p, x) \<in> ns_edges N"
    using assms(2) by (auto simp: move_allowed_def ns_edges_def)
  ultimately have "(p, p) \<in> (ns_edges N)\<^sup>+"
    using below by (meson rtrancl_into_trancl2)
  then show False
    using shape_okD(6) [OF assms(1)] by (simp add: acyclic_def)
qed

text \<open>The namespace between the two halves.\<close>

lemma cleared:
  assumes shape: "shape_ok N" and allowed: "move_allowed e N p n q m x"
  defines "M \<equiv> ns_set q m None (ns_set p n None N)"
  shows "shape_ok M" "ns_ent M q m = None" "names_of M x = {} \<or> x \<notin> ns_dirs N"
    and "(x, q) \<notin> (ns_edges M)\<^sup>*"
    and "dead_empty {} N \<Longrightarrow> dead_empty {x} M"
    and "named M q \<longleftrightarrow> named N q"
proof -
  let ?N1 = "ns_set p n None N"
  have ent: "ns_ent N p n = Some x" "ns_ent ?N1 q m = ns_ent N q m"
    using allowed by (auto simp: move_allowed_def ns_ent_set)
  have "x \<noteq> q"
    using move_not_below [OF shape allowed] by auto
  show "shape_ok M" "ns_ent M q m = None"
    unfolding M_def by (auto intro: shape_ok_unset shape simp: ns_ent_set)
  have "names_of ?N1 x = {}" if "x \<in> ns_dirs N"
    using that ent(1) shape_okD(5) [OF shape] by (auto simp: names_of_def ns_ent_set split: if_splits)
  then show "names_of M x = {} \<or> x \<notin> ns_dirs N"
    unfolding M_def by (auto simp: names_of_set)
  have "ns_edges M \<subseteq> ns_edges N"
    unfolding M_def using ns_edges_unset by blast
  then show "(x, q) \<notin> (ns_edges M)\<^sup>*"
    using move_not_below [OF shape allowed] rtrancl_mono by blast
  have N1: "named ?N1 q \<longleftrightarrow> named N q" "dead_empty {} N \<Longrightarrow> dead_empty {x} ?N1"
    using ent(1) \<open>x \<noteq> q\<close> dead_empty_unset(1) [of "{}" N p n x] by (simp_all add: named_unset)
  show "named M q \<longleftrightarrow> named N q" and "dead_empty {} N \<Longrightarrow> dead_empty {x} M"
  proof (atomize (full), cases "ns_ent N q m")
    case None
    then show "(named M q = named N q) \<and> (dead_empty {} N \<longrightarrow> dead_empty {x} M)"
      using N1 ent(2) by (simp add: M_def ns_set_same)
  next
    case (Some y)
    then have y: "ns_ent ?N1 q m = Some y" "y \<noteq> q" "y \<notin> ns_dirs ?N1 \<or> ns_ent ?N1 y = Map.empty"
      using ent(2) allowed no_loop [OF shape Some] ns_ent_unset_empty by (auto simp: move_allowed_def)
    then show "(named M q = named N q) \<and> (dead_empty {} N \<longrightarrow> dead_empty {x} M)"
      using N1 dead_empty_unset(2) [OF _ y(1,3)] by (simp add: M_def named_unset [OF y(1)])
  qed
qed


lemma due_links_cleared:
  assumes shape: "shape_ok N" and allowed: "move_allowed e N p n q m x"
  defines "M \<equiv> ns_set q m None (ns_set p n None N)"
  shows "y \<noteq> x \<Longrightarrow> due_links M y =
     (if ns_ent N q m = Some y then (if y \<in> ns_dirs N then 0 else due_links N y - 1)
      else due_links N y - (if x \<in> ns_dirs N then
             (if y = p then 1 else 0) + (if y = q \<and> ns_ent N q m \<noteq> None then 1 else 0) else 0))"
    and "x \<notin> ns_dirs N \<Longrightarrow> due_links M x = due_links N x - 1"
    and "x \<in> ns_dirs N \<Longrightarrow> subdirs M x = subdirs N x"
proof -
  let ?N1 = "ns_set p n None N"
  have ent: "ns_ent N p n = Some x" "ns_ent ?N1 q m = ns_ent N q m"
    using allowed by (auto simp: move_allowed_def ns_ent_set)
  note shape1 = shape_ok_unset [OF shape, of p n] and due1 = due_links_unset [OF shape ent(1)]
  have "x \<noteq> q" "x \<noteq> p"
    using move_not_below [OF shape allowed] no_loop [OF shape ent(1)] by auto
  then show "x \<in> ns_dirs N \<Longrightarrow> subdirs M x = subdirs N x"
    by (simp add: M_def subdirs_set)
  have "(y \<noteq> x \<longrightarrow> due_links M y =
     (if ns_ent N q m = Some y then (if y \<in> ns_dirs N then 0 else due_links N y - 1)
      else due_links N y - (if x \<in> ns_dirs N then
             (if y = p then 1 else 0) + (if y = q \<and> ns_ent N q m \<noteq> None then 1 else 0) else 0))) \<and>
     (x \<notin> ns_dirs N \<longrightarrow> due_links M x = due_links N x - 1)"
  proof (cases "ns_ent N q m")
    case None
    then have "M = ?N1"
      using ent(2) by (simp add: M_def ns_set_same)
    then show ?thesis
      using None by (simp add: due1)
  next
    case (Some z)
    then have z: "ns_ent ?N1 q m = Some z" "z \<noteq> x" "x \<in> ns_dirs N \<longleftrightarrow> z \<in> ns_dirs N"
        "z \<in> ns_dirs N \<Longrightarrow> ns_ent N z = Map.empty"
      using ent(2) allowed by (auto simp: move_allowed_def)
    then have "z \<noteq> p" if "z \<in> ns_dirs N"
      using that ent(1) by auto
    moreover have "subdirs ?N1 z = {}" if "z \<in> ns_dirs N"
      using z(4) [OF that] by (simp add: subdirs_def ns_ent_unset_empty)
    ultimately show ?thesis
      using Some z \<open>x \<noteq> q\<close> unfolding M_def by (auto simp: due_links_unset [OF shape1 z(1)] due1)
  qed
  then show "y \<noteq> x \<Longrightarrow> due_links M y =
     (if ns_ent N q m = Some y then (if y \<in> ns_dirs N then 0 else due_links N y - 1)
      else due_links N y - (if x \<in> ns_dirs N then
             (if y = p then 1 else 0) + (if y = q \<and> ns_ent N q m \<noteq> None then 1 else 0) else 0))"
    and "x \<notin> ns_dirs N \<Longrightarrow> due_links M x = due_links N x - 1"
    by blast+
qed

lemma due_links_moved:
  assumes shape: "shape_ok N" and allowed: "move_allowed e N p n q m x"
  shows "due_links (ns_set q m (Some x) (ns_set p n None N)) y =
     (if ns_ent N q m = Some y then (if y \<in> ns_dirs N then 0 else due_links N y - 1)
      else if x \<in> ns_dirs N
      then due_links N y + (if y = q \<and> p \<noteq> q then 1 else 0) - (if y = p \<and> p \<noteq> q then 1 else 0)
             - (if y = q \<and> ns_ent N q m \<noteq> None then 1 else 0)
      else due_links N y)"
proof -
  let ?M = "ns_set q m None (ns_set p n None N)"
  note M = cleared [OF shape allowed] and dueM = due_links_cleared [OF shape allowed]
  have ent: "ns_ent N p n = Some x" "q \<in> ns_dirs N" "ns_ent N q m \<noteq> Some x"
    using allowed by (auto simp: move_allowed_def)
  have x: "x \<noteq> q" "x \<noteq> p" "x \<noteq> TMPFS_ROOT_OBJECT_ID"
    using move_not_below [OF shape allowed] no_loop [OF shape ent(1)] shape_okD(3) [OF shape ent(1)] by auto
  have P: "ns_set q m (Some x) (ns_set p n None N) = ns_set q m (Some x) ?M"
    by (simp add: ns_set_set)
  have due: "due_links (ns_set q m (Some x) (ns_set p n None N)) z =
     (if z = x then (if x \<in> ns_dirs N then 2 + card (subdirs ?M x) else due_links ?M x + 1)
      else if z = q \<and> x \<in> ns_dirs N then due_links ?M q + 1 else due_links ?M z)" for z
    unfolding P by (subst due_links_set [OF M(1,2)]) (use M(3) x ent(2) in auto)
  have named: "named N x"
    using ent(1) by (auto simp: named_def names_of_def)
  have pos: "x \<in> ns_dirs N \<Longrightarrow> 0 < due_links N p" "x \<notin> ns_dirs N \<Longrightarrow> 0 < due_links N x"
    using due_links_pos [OF shape ent(1)] by simp_all
  consider "y = x" | "y \<noteq> x" "y = q" "x \<in> ns_dirs N" | "y \<noteq> x" "y \<noteq> q \<or> x \<notin> ns_dirs N"
    by blast
  then show ?thesis
  proof cases
    case 1
    then show ?thesis
      using x ent(3) named pos dueM(2,3) by (simp add: due due_links_def [of N x])
  next
    case 2
    have self: "ns_ent N q m \<noteq> Some q"
      using no_loop [OF shape] by blast
    have two: "2 \<le> due_links N q" if "p = q" "ns_ent N q m = Some z" for z
    proof -
      have "{n, m} \<subseteq> subdirs N q" "n \<noteq> m"
        using that 2 ent(1) allowed by (auto simp: subdirs_def move_allowed_def)
      then show ?thesis
        using card_mono [OF finite_subdirs [OF shape], of "{n, m}" q] ent(2) by (simp add: due_links_def)
    qed
    have one: "0 < due_links N q" if "ns_ent N q m = Some z" for z
      using that due_links_pos(1) [OF shape that] 2 allowed by (auto simp: move_allowed_def)
    have "due_links ?M q = due_links N q - ((if q = p then 1 else 0) + (if ns_ent N q m \<noteq> None then 1 else 0))"
      using dueM(1) [of q] x(1) self 2(3) by simp
    then show ?thesis
      using due [of q] 2 x(1) self pos(1) one two by (cases "ns_ent N q m"; cases "p = q") simp_all
  next
    case 3
    then show ?thesis
      using dueM(1) [of y] due [of y] by (cases "x \<in> ns_dirs N"; cases "y = p") simp_all
  qed
qed

lemma space_ok_move:
  assumes ok: "space_ok e N" and allowed: "move_allowed e N p n q m x"
  shows "space_ok e (ns_move p n q m x (ns_ent N q m) N)"
proof (rule space_okI [where M = "ns_set q m (Some x) (ns_set p n None N)"])
  note shape = space_okD(1) [OF ok]
  let ?M = "ns_set q m None (ns_set p n None N)" and ?P = "ns_set q m (Some x) (ns_set p n None N)"
  let ?N' = "ns_move p n q m x (ns_ent N q m) N"
  note M = cleared [OF shape allowed]
  have P: "?P = ns_set q m (Some x) ?M"
    by (simp add: ns_set_set)
  have ent: "ns_ent N p n = Some x" "q \<in> ns_dirs N"
    using allowed by (auto simp: move_allowed_def)
  show "shape_ok ?P"
    unfolding P using M shape_okD(2,3) [OF shape ent(1)] ent(2) by (intro shape_ok_set [OF M(1)]) auto
  have p: "p \<in> ns_dirs N"
    using shape_okD(1) [OF shape ent(1)] .
  have y: "y \<noteq> x" "y \<noteq> q" "x \<in> ns_dirs N \<longleftrightarrow> y \<in> ns_dirs N" if "ns_ent N q m = Some y" for y
    using that allowed no_loop [OF shape that] by (auto simp: move_allowed_def)
  have yp: "y \<noteq> p" if "ns_ent N q m = Some y" "y \<in> ns_dirs N" for y
    using that allowed ent(1) by (auto simp: move_allowed_def)
  have links: "ns_links ?N' z =
     (if ns_ent N q m = Some z then (if z \<in> ns_dirs N then 0 else ns_links N z - 1)
      else if x \<in> ns_dirs N
      then ns_links N z + (if z = q \<and> p \<noteq> q then 1 else 0) - (if z = p \<and> p \<noteq> q then 1 else 0)
             - (if z = q \<and> ns_ent N q m \<noteq> None then 1 else 0)
      else ns_links N z)" for z
  proof (cases "ns_ent N q m")
    case None
    then show ?thesis
      by (simp add: ns_move_def Let_def)
  next
    case (Some w)
    then show ?thesis
      using y [OF Some] yp [OF Some] 
      by (cases "w \<in> ns_dirs N"; cases "p = q"; cases "z = w") (simp_all add: ns_move_def Let_def)
  qed
  show "due_links ?P z \<le> ns_links ?N' z" if "z \<in> ns_objs ?P" for z
  proof -
    have mono: "(if A then (if B then 0 else a - 1) else if C then a + i - j - k else a)
              \<le> (if A then (if B then 0 else b - 1) else if C then b + i - j - k else b)"
      if "a \<le> b" for A B C and a b i j k :: nat
      using that by (simp add: diff_le_mono)
    show ?thesis
      unfolding due_links_moved [OF shape allowed] links
      using that by (intro mono space_okD(2) [OF ok]) simp
  qed
  show "ns_links ?N' z = due_links ?P z" if "z \<in> ns_objs ?P" "z \<in> ns_dirs ?P \<or> e" for z
  proof -
    have "ns_links N z = due_links N z"
      using that space_okD(3,4) [OF ok, of z] by auto
    then show ?thesis
      by (simp only: due_links_moved [OF shape allowed] links)
  qed
  show "dead_empty {} ?P" if e
    using that dead_empty_set [OF M(5) M(2), of x] space_okD(5) [OF ok that] M(6) allowed
    by (simp add: P move_allowed_def)
qed (simp_all add: ns_move_def Let_def split: option.split)

end
