(* ===== verification/Tmpfs_Runs.thy ===== *)
theory Tmpfs_Runs
  imports Tmpfs_Tree
begin

text \<open>
  Sequences of calls: every call keeps the shape of the namespace and its link counts, gives out
  object ids that were never used, and raises a link count by one at most, so that within
  \<open>2 ^ 32 - 3\<close> calls no count saturates and every call refines its specification.
\<close>

section \<open>Invariant of a call\<close>

fun grows :: "tmpfs_call \<Rightarrow> fs_object_id option" where
  "grows (Call_create p name meta) = Some p"
| "grows (Call_mkdir p name mode c) = Some p"
| "grows (Call_symlink p name target c) = Some p"
| "grows (Call_link p name x) = Some p"
| "grows (Call_rename p name q name') = Some q"
| "grows _ = None"

lemma live_named:
  assumes "space_ok True N" "p \<in> ns_dirs N" "0 < ns_links N p"
  shows "named N p"
proof (rule ccontr)
  assume "\<not> named N p"
  then have "ns_ent N p = Map.empty"
    using space_okD(5) [OF assms(1)] assms(2) by (simp add: dead_empty_def)
  then have "due_links N p = 0"
    using \<open>\<not> named N p\<close> by (simp add: due_links_def subdirs_def assms(2))
  then show False
    using space_okD(3) [OF assms(1,2)] assms(3) by simp
qed

lemma ns_admitted_snd: "snd (ns_admitted r N f) = (case r of Inl e \<Rightarrow> N | Inr a \<Rightarrow> snd (f a))"
  by (simp add: ns_admitted_def split: sum.split prod.split)

lemma ns_rename_Inr:
  assumes "ns_rename N p n q m = Inr N'"
  obtains "N' = N"
  | x where "N' = ns_move p n q m x (ns_ent N q m) N" "ns_ent N p n = Some x" "q \<in> ns_dirs N"
      "p \<noteq> q \<and> x \<in> ns_dirs N \<longrightarrow> (x, q) \<notin> (ns_edges N)\<^sup>*"
      "\<forall>y. ns_ent N q m = Some y \<longrightarrow>
        y \<noteq> x \<and> (x \<in> ns_dirs N \<longleftrightarrow> y \<in> ns_dirs N) \<and> (y \<in> ns_dirs N \<longrightarrow> ns_ent N y = Map.empty)"
  using assms unfolding ns_rename_def
  by (auto simp: and_then_eq_Inr_iff ok_or_def ns_dir_def split: if_splits option.splits)

lemma ns_step_rename_cases:
  obtains "snd (ns_step (Call_rename p name q name') N) = N"
  | n m where "ns_rename N p n q m = Inr (snd (ns_step (Call_rename p name q name') N))" "(p, n) \<noteq> (q, m)"
proof (cases "snd (ns_step (Call_rename p name q name') N) = N")
  case False
  then obtain n m where "inline_name_new name = Inr n" "inline_name_new name' = Inr m" "\<not> (p = q \<and> n = m)"
    by (auto simp: ns_admitted_snd and_then_eq_Inr_iff split: sum.splits if_splits)
  then show ?thesis
    using False that(2) [of n m] by (cases "ns_rename N p n q m") (auto simp: ns_admitted_snd)
qed (rule that(1))

lemma link_kind_Inr:
  "(case k of None \<Rightarrow> Error ENOENT | Some KFile \<Rightarrow> Ok n | Some _ \<Rightarrow> Error EPERM) = Inr m \<longleftrightarrow>
   k = Some KFile \<and> m = n"
  by (auto split: option.splits obj_kind.splits)

lemma ns_step_ok:
  assumes ok: "space_ok e N" and fresh: "ns_next N \<notin> ns_objs N"
    and live: "\<And>p. e \<Longrightarrow> grows call = Some p \<Longrightarrow> p \<in> ns_dirs N \<Longrightarrow> 0 < ns_links N p"
  shows "space_ok e (snd (ns_step call N))"
proof -
  have named: "named N p" if e "grows call = Some p" "p \<in> ns_dirs N" for p
    using live_named [of N p] ok live that by simp
  show ?thesis
  proof (cases call)
    case (Call_create p name meta)
    then show ?thesis
      using ok fresh named
      by (auto simp: ns_admitted_snd and_then_eq_Inr_iff ns_free_Inr intro!: space_ok_make split: sum.splits)
  next
    case (Call_mkdir p name mode c)
    then show ?thesis
      using ok fresh named
      by (auto simp: ns_admitted_snd and_then_eq_Inr_iff ns_free_Inr intro!: space_ok_make split: sum.splits)
  next
    case (Call_symlink p name target c)
    then show ?thesis
      using ok fresh named
      by (auto simp: ns_admitted_snd and_then_eq_Inr_iff ns_free_Inr intro!: space_ok_make split: sum.splits)
  next
    case (Call_link p name x)
    then show ?thesis
      using ok named
      by (auto simp: ns_admitted_snd and_then_eq_Inr_iff ns_free_Inr link_kind_Inr intro!: space_ok_link
          split: sum.split)
  next
    case (Call_unlink p name x)
    then show ?thesis
      using ok by (auto simp: ns_admitted_snd and_then_eq_Inr_iff ns_named_Inr intro!: space_ok_unlink
          split: sum.splits if_splits)
  next
    case (Call_rmdir p name x)
    then show ?thesis
      using ok by (auto simp: ns_admitted_snd and_then_eq_Inr_iff ns_named_Inr ns_dir_def intro!: space_ok_rmdir
          split: sum.splits if_splits)
  next
    case (Call_rename p name q name')
    have "space_ok e N'" if "ns_rename N p n q m = Inr N'" "(p, n) \<noteq> (q, m)" for n m N'
      using that(1)
    proof (cases rule: ns_rename_Inr)
      case (2 x)
      then have "move_allowed e N p n q m x"
        using that(2) named [of q] Call_rename by (simp add: move_allowed_def)
      then show ?thesis
        using space_ok_move [OF ok] 2(1) by simp
    qed (use ok in simp)
    then show ?thesis
      using ok ns_step_rename_cases [of p name q name' N] unfolding Call_rename by metis
  qed (use ok in \<open>simp_all add: space_ok_destroy\<close>)
qed

text \<open>What a call does to the counters.\<close>

lemma ns_move_links: "ns_links (ns_move p n q m x dis N) y \<le> ns_links N y + 1"
  by (auto simp: ns_move_def Let_def split: option.split)

lemma ns_move_sel [simp]:
  "ns_kind (ns_move p n q m x dis N) = ns_kind N" "ns_next (ns_move p n q m x dis N) = ns_next N"
  by (auto simp: ns_move_def Let_def split: option.split)

lemma ns_step_links:
  "ns_links (snd (ns_step call N)) y \<le> max (ns_links N y + 1) 2"
proof (cases call)
  case (Call_rename p name q name')
  have "ns_links N' y \<le> ns_links N y + 1" if "ns_rename N p n q m = Inr N'" for n m N'
    using that by (cases rule: ns_rename_Inr) (simp_all add: ns_move_links [simplified])
  then show ?thesis
    using ns_step_rename_cases [of p name q name' N] unfolding Call_rename
    by (metis add_increasing2 le_add1 max.coboundedI1 order_refl)
qed (auto simp: ns_admitted_snd ns_make_def Let_def ns_destroy_def split: sum.splits)

lemma ns_step_next:
  "ns_next (snd (ns_step call N)) = ns_next N \<and> ns_objs (snd (ns_step call N)) \<subseteq> ns_objs N \<or>
   ns_next (snd (ns_step call N)) = ns_next N + 1 \<and>
     ns_objs (snd (ns_step call N)) \<subseteq> insert (ns_next N) (ns_objs N)"
proof (cases call)
  case (Call_rename p name q name')
  have "ns_next N' = ns_next N \<and> ns_objs N' = ns_objs N" if "ns_rename N p n q m = Inr N'" for n m N'
    using that by (cases rule: ns_rename_Inr) (auto simp: ns_objs_def)
  then show ?thesis
    using ns_step_rename_cases [of p name q name' N] unfolding Call_rename by (metis order_refl)
qed (auto simp: ns_admitted_snd ns_make_def Let_def ns_destroy_def ns_objs_def split: sum.splits if_splits)

text \<open>Directories stay sorted by name.\<close>

lemma sorted_modify: "sorted_dirs tf \<Longrightarrow> (\<And>i. ti_payload (f i) = ti_payload i) \<Longrightarrow> sorted_dirs (modify_inode x f tf)"
  by (simp add: sorted_dirs_def modify_inode_keeps)

lemma sorted_upd [simp]:
  "sorted_dirs (tf\<lparr>tf_next_object_id := a\<rparr>) = sorted_dirs tf"
  "sorted_dirs (tf\<lparr>tf_next_dirent_cookie := a\<rparr>) = sorted_dirs tf"
  "sorted_dirs (tf\<lparr>tf_containers := cs\<rparr>) = sorted_dirs tf"
  by (simp_all add: sorted_dirs_def children_of_def)

lemma sorted_modify_children:
  assumes "sorted_dirs tf" "\<And>ch. bt_ok ch \<Longrightarrow> bt_ok (f ch)"
  shows "sorted_dirs (modify_inode p (modify_children f) tf)"
proof (cases "p \<in> ns_dirs (space_of tf)")
  case True
  then show ?thesis
    using assms by (simp add: sorted_dirs_def children_of_modify_children)
next
  case False
  then have "children_of (modify_inode p (modify_children f) tf) = children_of tf"
    by (auto simp: children_of_def modify_inode_get modify_children_def dirs_iff fun_eq_iff
        split: option.splits tmpfs_payload.splits)
  then show ?thesis
    using assms by (simp add: sorted_dirs_def)
qed

lemma sorted_add: "sorted_dirs tf \<Longrightarrow> sorted_dirs (add_entry p n x tf)"
  by (simp add: add_entry_def alloc_dirent_def sorted_modify_children)

lemma sorted_remove: "sorted_dirs tf \<Longrightarrow> sorted_dirs (remove_entry p n tf)"
  by (simp add: remove_entry_def sorted_modify_children)

lemma sorted_insert:
  "sorted_dirs tf \<Longrightarrow> \<forall>ch. ti_payload i = DirectoryP ch \<longrightarrow> ch = [] \<Longrightarrow> sorted_dirs (insert_inode x i tf)"
  by (auto simp: sorted_dirs_def children_of_def insert_inode_def split: tmpfs_payload.splits)

lemma sorted_destroy: "sorted_dirs tf \<Longrightarrow> sorted_dirs (destroy_inode tf x)"
  by (auto simp: sorted_dirs_def children_of_def destroy_inode_def split: option.splits)

lemma sorted_drop_link: "sorted_dirs tf \<Longrightarrow> sorted_dirs (drop_link x tf)"
  by (simp add: drop_link_def sorted_modify)

lemma sorted_adjust: "sorted_dirs tf \<Longrightarrow> sorted_dirs (adjust_directory_nlink x d tf)"
  by (simp add: adjust_directory_nlink_def sorted_modify)

lemmas sorted_intros = sorted_modify sorted_add sorted_remove sorted_insert sorted_destroy sorted_drop_link sorted_adjust

lemma snd_admitted: "snd (admitted r tf f) = (case r of Inl e \<Rightarrow> tf | Inr a \<Rightarrow> snd (f a))"
  by (simp add: admitted_def split: sum.split prod.split)

lemma sorted_rename: "sorted_dirs tf \<Longrightarrow> sorted_dirs (rename_apply p n q m plan tf)"
  by (auto simp: rename_apply_def rename_links_def release_displaced_def Let_def intro!: sorted_intros
      split: rename_plan.split option.split)

lemma sorted_file_size: "sorted_dirs tf \<Longrightarrow> sorted_dirs (modify_inode x (set_file_size n) tf)"
proof -
  have "children_of (modify_inode x (set_file_size n) tf) = children_of tf"
    by (auto simp: children_of_def modify_inode_get set_file_size_def Let_def fun_eq_iff
        split: option.splits tmpfs_payload.splits)
  then show "sorted_dirs tf \<Longrightarrow> sorted_dirs (modify_inode x (set_file_size n) tf)"
    by (simp add: sorted_dirs_def)
qed

lemma sorted_truncate: "sorted_dirs tf \<Longrightarrow> sorted_dirs (snd (tmpfs_truncate tail tf x n))"
  by (auto simp: tmpfs_truncate_def Let_def sorted_file_size split: sum.split prod.split)

lemma sorted_step:
  assumes "sorted_dirs tf" shows "sorted_dirs (snd (tmpfs_step call tf))"
  using assms
  by (cases call)
    (auto simp: published_def reply_id_def reply_unit_def create_publish_def tmpfs_mkdir_def symlink_publish_def tmpfs_link_def
      tmpfs_unlink_def tmpfs_rmdir_def tmpfs_rename_def serialize_inode_meta_def chmod_inode_def chown_inode_def
      snd_admitted alloc_object_id_def Let_def sorted_rename sorted_truncate
      intro!: sorted_intros split: sum.split prod.split)


section \<open>Sequences of calls\<close>

fun tmpfs_run :: "tmpfs_call list \<Rightarrow> tmpfs \<Rightarrow> fs_object_id option result list \<times> tmpfs" where
  "tmpfs_run [] tf = ([], tf)"
| "tmpfs_run (call # calls) tf =
     (case tmpfs_step call tf of (r, tf) \<Rightarrow> (case tmpfs_run calls tf of (rs, tf) \<Rightarrow> (r # rs, tf)))"

fun ns_run :: "tmpfs_call list \<Rightarrow> nspace \<Rightarrow> fs_object_id option result list \<times> nspace" where
  "ns_run [] N = ([], N)"
| "ns_run (call # calls) N =
     (case ns_step call N of (r, N) \<Rightarrow> (case ns_run calls N of (rs, N) \<Rightarrow> (r # rs, N)))"

text \<open>No call adds an entry to a directory whose link count is zero.\<close>

definition live_call :: "tmpfs_call \<Rightarrow> tmpfs \<Rightarrow> bool" where
  "live_call call tf = (case grows call of None \<Rightarrow> True | Some p \<Rightarrow> 0 < links_of tf p)"

fun live_calls :: "tmpfs_call list \<Rightarrow> tmpfs \<Rightarrow> bool" where
  "live_calls [] tf = True"
| "live_calls (call # calls) tf = (live_call call tf \<and> live_calls calls (snd (tmpfs_step call tf)))"

definition tmpfs_inv :: "nat \<Rightarrow> bool \<Rightarrow> tmpfs \<Rightarrow> bool" where
  "tmpfs_inv k e tf \<longleftrightarrow>
     sorted_dirs tf \<and> space_ok e (space_of tf) \<and>
     (\<forall>x\<in>ns_objs (space_of tf). x < tf_next_object_id tf) \<and>
     unat (tf_next_object_id tf) \<le> 3 + k \<and> (\<forall>x. links_of tf x \<le> 2 + k)"

lemma tmpfs_inv_new: "tmpfs_inv 0 e tmpfs_new"
proof -
  have get: "bt_get (tf_inodes tmpfs_new) x =
      (if x = TMPFS_ROOT_OBJECT_ID
       then Some \<lparr>ti_meta = inode_meta_new Directory TMPFS_ROOT_MODE, ti_payload = DirectoryP [], ti_nlink = 2\<rparr>
       else None)" for x
    by (simp add: tmpfs_new_def tmpfs_state_new_def)
  have next_def: "tf_next_object_id tmpfs_new = 3"
    by (simp add: tmpfs_new_def TMPFS_FIRST_FREE_OBJECT_ID_def)
  have ent: "entry_of tmpfs_new d n = None" for d n
    by (simp add: entry_of_def children_of_def get)
  have dirs: "ns_dirs (space_of tmpfs_new) = {TMPFS_ROOT_OBJECT_ID}" "ns_objs (space_of tmpfs_new) = {TMPFS_ROOT_OBJECT_ID}"
    by (auto simp: dirs_iff objs_iff get split: if_splits)
  have "ns_edges (space_of tmpfs_new) = {}"
    by (simp add: ns_edges_def ent)
  then have shape: "shape_ok (space_of tmpfs_new)"
    by (simp add: shape_ok_def ent dirs names_of_def acyclic_def)
  have "due_links (space_of tmpfs_new) TMPFS_ROOT_OBJECT_ID = 2" "links_of tmpfs_new TMPFS_ROOT_OBJECT_ID = 2"
    by (simp_all add: due_links_def dirs named_def subdirs_def ent links_of_def get)
  then show ?thesis
    using shape
    by (auto simp: tmpfs_inv_def space_ok_def dirs dead_empty_def named_def sorted_dirs_def children_of_def get
        next_def TMPFS_ROOT_OBJECT_ID_def links_of_def)
qed


lemma tmpfs_inv_step:
  assumes inv: "tmpfs_inv k e tf" and k: "k + 3 < 2 ^ 32" and live: "e \<Longrightarrow> live_call call tf"
  shows "tmpfs_inv (Suc k) e (snd (tmpfs_step call tf))"
    and "(fst (tmpfs_step call tf), space_of (snd (tmpfs_step call tf))) = ns_step call (space_of tf)"
proof -
  let ?N = "space_of tf" and ?tf' = "snd (tmpfs_step call tf)"
  have parts: "sorted_dirs tf" "space_ok e ?N" "\<And>x. x \<in> ns_objs ?N \<Longrightarrow> x < tf_next_object_id tf"
    "unat (tf_next_object_id tf) \<le> 3 + k" "\<And>x. links_of tf x \<le> 2 + k"
    using inv by (simp_all add: tmpfs_inv_def)
  have fresh: "tf_next_object_id tf \<notin> ns_objs ?N"
    using parts(3) by blast
  have "links_of tf x + 1 < 2 ^ 32" for x
    using parts(5) [of x] k by simp
  then show step: "(fst (tmpfs_step call tf), space_of ?tf') = ns_step call ?N"
    using tmpfs_step_refines [OF parts(1) fresh] by blast
  then have space: "space_of ?tf' = snd (ns_step call ?N)"
    by (metis snd_conv)
  have "space_ok e (snd (ns_step call ?N))"
    using parts(2) fresh live by (intro ns_step_ok) (auto simp: live_call_def)
  moreover have "links_of ?tf' x \<le> 2 + Suc k" for x
    using ns_step_links [of call ?N x] parts(5) [of x] by (simp add: space [symmetric])
  moreover have "unat (tf_next_object_id ?tf') \<le> 3 + Suc k \<and> (\<forall>x\<in>ns_objs (space_of ?tf'). x < tf_next_object_id ?tf')"
  proof -
    have "unat (tf_next_object_id tf + 1) = unat (tf_next_object_id tf) + 1"
      using parts(4) k by (simp add: unat_word_ariths(1))
    then have below: "x < tf_next_object_id tf + 1" if "x \<le> tf_next_object_id tf" for x
      using that by (simp add: word_less_nat_alt word_le_nat_alt)
    consider
        "tf_next_object_id ?tf' = tf_next_object_id tf" "ns_objs (space_of ?tf') \<subseteq> ns_objs ?N"
      | "tf_next_object_id ?tf' = tf_next_object_id tf + 1"
        "ns_objs (space_of ?tf') \<subseteq> insert (tf_next_object_id tf) (ns_objs ?N)"
      using ns_step_next [of call ?N] by (auto simp: space [symmetric])
    then show ?thesis
    proof cases
      case 1
      have "\<forall>x\<in>ns_objs (space_of ?tf'). x < tf_next_object_id tf"
        using 1(2) parts(3) by blast
      then show ?thesis
        using 1(1) parts(4) by simp
    next
      case 2
      have "\<forall>x\<in>ns_objs (space_of ?tf'). x \<le> tf_next_object_id tf"
        using 2(2) parts(3) order.strict_implies_order by blast
      then show ?thesis
        using 2(1) parts(4) below \<open>unat (tf_next_object_id tf + 1) = _\<close> by simp
    qed
  qed
  ultimately show "tmpfs_inv (Suc k) e ?tf'"
    using sorted_step [OF parts(1)] by (simp add: tmpfs_inv_def space)
qed

lemma tmpfs_run_inv:
  assumes "tmpfs_inv k e tf" "k + length calls + 3 < 2 ^ 32" "e \<Longrightarrow> live_calls calls tf"
  shows "tmpfs_inv (k + length calls) e (snd (tmpfs_run calls tf))"
    and "(fst (tmpfs_run calls tf), space_of (snd (tmpfs_run calls tf))) = ns_run calls (space_of tf)"
  using assms
proof (induction calls arbitrary: k tf)
  case (Cons call calls)
  { case 1
    then show ?case
      using Cons.IH(1) [OF tmpfs_inv_step(1) [of k e tf call]] by (auto split: prod.splits)
  next
    case 2
    then show ?case
      using tmpfs_inv_step(2) [of k e tf call] Cons.IH(2) [OF tmpfs_inv_step(1) [of k e tf call]]
      by (auto split: prod.splits)
  }
qed simp_all

end
