(* ===== verification/Tmpfs_Listing.thy ===== *)
theory Tmpfs_Listing
  imports Tmpfs_Runs
begin

text \<open>
  Reading a directory of tmpfs. The cookies of the entries of a directory are distinct and given
  out in order, names are valid, and so successive calls of \<open>readdir\<close> move through the entries by
  cookie. The section at the end counts how often an entry is reported.
\<close>

section \<open>Reading a directory\<close>

text \<open>Cookies are given out in order and every entry has its own.\<close>

definition listing_ok :: "u64 \<Rightarrow> dir_children \<Rightarrow> bool" where
  "listing_ok c ch \<longleftrightarrow>
     (\<forall>e\<in>set ch. 0 < te_cookie (snd e) \<and> te_cookie (snd e) < c \<and> inline_name_new (fst e) = Inr (fst e)) \<and>
     distinct (map (\<lambda>e. te_cookie (snd e)) ch)"

definition cookies_ok :: "tmpfs \<Rightarrow> bool" where
  "cookies_ok tf \<longleftrightarrow> (\<forall>d. listing_ok (tf_next_dirent_cookie tf) (children_of tf d))"

lemma bt_insert_set: "set (bt_insert k v m) \<subseteq> insert (k, v) (set m)"
  by (induction k v m rule: bt_insert.induct) auto

lemma bt_insert_distinct:
  assumes "distinct (map f m)" "f (k, v) \<notin> f ` set m"
  shows "distinct (map f (bt_insert k v m))"
  using assms
proof (induction k v m rule: bt_insert.induct)
  case (2 k v k' v' m)
  have "f ` set (bt_insert k v m) \<subseteq> insert (f (k, v)) (f ` set m)"
    using bt_insert_set by (metis image_insert image_mono)
  then show ?case
    using 2 by auto
qed simp

lemma listing_ok_remove: "listing_ok c ch \<Longrightarrow> listing_ok c (bt_remove n ch)"
  by (simp add: listing_ok_def bt_remove_def distinct_map_filter)

lemma listing_ok_succ: "listing_ok c ch \<Longrightarrow> c \<noteq> - 1 \<Longrightarrow> listing_ok (c + 1) ch"
  by (auto simp: listing_ok_def word_less_succ intro: order.strict_implies_order)

lemma listing_ok_insert:
  assumes ok: "listing_ok c ch" and "c \<noteq> - 1" "0 < c" "inline_name_new n = Inr n" "te_cookie e = c"
  shows "listing_ok (c + 1) (bt_insert n e ch)"
proof -
  have "te_cookie (snd (n, e)) \<notin> (\<lambda>e. te_cookie (snd e)) ` set ch"
    using ok assms(5) by (auto simp: listing_ok_def)
  then have "distinct (map (\<lambda>e. te_cookie (snd e)) (bt_insert n e ch))"
    using ok by (intro bt_insert_distinct) (simp_all add: listing_ok_def)
  moreover have "\<forall>e'\<in>insert (n, e) (set ch). 0 < te_cookie (snd e') \<and> te_cookie (snd e') < c + 1 \<and>
      inline_name_new (fst e') = Inr (fst e')"
    using assms listing_ok_succ [OF ok] by (simp add: listing_ok_def word_less_succ)
  ultimately show ?thesis
    using bt_insert_set [of n e ch] unfolding listing_ok_def by blast
qed

lemma cookies_keep:
  assumes "cookies_ok tf" "children_of tf' = children_of tf" "tf_next_dirent_cookie tf' = tf_next_dirent_cookie tf"
  shows "cookies_ok tf'"
  using assms by (simp add: cookies_ok_def)

lemma cookies_modify: "cookies_ok tf \<Longrightarrow> (\<And>i. ti_payload (f i) = ti_payload i) \<Longrightarrow> cookies_ok (modify_inode x f tf)"
  by (erule cookies_keep) (simp_all add: modify_inode_keeps)

lemma children_of_modify_other:
  "p \<notin> ns_dirs (space_of tf) \<Longrightarrow> children_of (modify_inode p (modify_children f) tf) = children_of tf"
  by (auto simp: children_of_def modify_inode_get modify_children_def dirs_iff fun_eq_iff
      split: option.splits tmpfs_payload.splits)

lemma cookies_remove: "cookies_ok tf \<Longrightarrow> cookies_ok (remove_entry p n tf)"
  by (cases "p \<in> ns_dirs (space_of tf)")
    (simp_all add: cookies_ok_def remove_entry_def children_of_modify_children children_of_modify_other listing_ok_remove)

lemma cookies_add:
  assumes "cookies_ok tf" "tf_next_dirent_cookie tf \<noteq> - 1" "0 < tf_next_dirent_cookie tf" "inline_name_new n = Inr n"
  shows "cookies_ok (add_entry p n x tf)"
proof -
  let ?tf = "tf\<lparr>tf_next_dirent_cookie := tf_next_dirent_cookie tf + 1\<rparr>"
  have "children_of ?tf = children_of tf"
    by (simp add: children_of_def fun_eq_iff)
  then show ?thesis
    using assms by (cases "p \<in> ns_dirs (space_of tf)")
      (simp_all add: cookies_ok_def add_entry_def alloc_dirent_def children_of_modify_children
        children_of_modify_other listing_ok_insert listing_ok_succ)
qed

text \<open>A counter that is neither at its start nor at its end.\<close>

definition cookies_left :: "tmpfs \<Rightarrow> bool" where
  "cookies_left tf \<longleftrightarrow> 0 < tf_next_dirent_cookie tf \<and> tf_next_dirent_cookie tf \<noteq> - 1"

lemma cookies_left_modify [simp]:
  "cookies_left (modify_inode x f tf) = cookies_left tf" "cookies_left (tf\<lparr>tf_next_object_id := a\<rparr>) = cookies_left tf"
  "cookies_left (remove_entry p n tf) = cookies_left tf"
  by (simp_all add: cookies_left_def remove_entry_def)

lemma cookies_upd [simp]:
  "cookies_ok (tf\<lparr>tf_next_object_id := a\<rparr>) = cookies_ok tf" "cookies_ok (tf\<lparr>tf_containers := cs\<rparr>) = cookies_ok tf"
  by (simp_all add: cookies_ok_def children_of_def)

lemma cookies_add_left:
  "cookies_ok tf \<Longrightarrow> cookies_left tf \<Longrightarrow> inline_name_new n = Inr n \<Longrightarrow> cookies_ok (add_entry p n x tf)"
  by (simp add: cookies_left_def cookies_add)

lemma cookies_insert:
  assumes "cookies_ok tf" "\<forall>ch. ti_payload i = DirectoryP ch \<longrightarrow> ch = []"
  shows "cookies_ok (insert_inode x i tf)"
proof -
  have "children_of (insert_inode x i tf) d = children_of tf d \<or> children_of (insert_inode x i tf) d = []" for d
    using assms(2) by (auto simp: children_of_def insert_inode_def split: option.splits tmpfs_payload.splits)
  then show ?thesis
    using assms(1) unfolding cookies_ok_def
    by (metis (no_types, lifting) insert_inode_def listing_ok_def distinct.simps(1) empty_iff list.set(1)
        list.simps(8) tmpfs.select_convs(3) tmpfs.surjective tmpfs.update_convs(1))
qed

lemma cookies_destroy: "cookies_ok tf \<Longrightarrow> cookies_ok (destroy_inode tf x)"
  by (auto simp: cookies_ok_def children_of_def destroy_inode_def listing_ok_def split: option.splits)

lemma cookies_file_size: "cookies_ok tf \<Longrightarrow> cookies_ok (modify_inode x (set_file_size n) tf)"
  by (erule cookies_keep)
    (auto simp: children_of_def modify_inode_get set_file_size_def Let_def fun_eq_iff
      split: option.splits tmpfs_payload.splits)

lemma inline_name_idem: "inline_name_new name = Inr n \<Longrightarrow> inline_name_new n = Inr n"
  by (auto simp: inline_name_new_def split: if_splits)

lemmas cookies_intros = cookies_add_left cookies_modify cookies_remove cookies_insert cookies_destroy cookies_file_size

lemma cookies_rename:
  assumes "cookies_ok tf" "cookies_left tf" "inline_name_new m = Inr m"
  shows "cookies_ok (rename_apply p n q m plan tf)"
  using assms
  by (auto simp: rename_apply_def rename_links_def release_displaced_def adjust_directory_nlink_def drop_link_def
      Let_def intro!: cookies_intros split: rename_plan.split option.split)

lemma link_check_name:
  assumes "link_check tf p name x = Inr n" shows "inline_name_new n = Inr n"
proof -
  have kind: "(case q of RegularFileP _ _ \<Rightarrow> Ok m | _ \<Rightarrow> Error EPERM) = Inr n \<longleftrightarrow>
      (\<exists>c l. q = RegularFileP c l) \<and> m = n" for q :: tmpfs_payload and m :: inline_name
    by (cases q) simp_all
  have "inline_name_new name = Inr n"
    using assms by (auto simp: link_check_def and_then_eq_Inr_iff kind split: sum.splits)
  then show ?thesis
    by (rule inline_name_idem)
qed

lemma cookies_step:
  assumes "cookies_ok tf" "cookies_left tf" shows "cookies_ok (snd (tmpfs_step call tf))"
proof (cases call)
  case (Call_rename p name q name')
  then show ?thesis
    using assms
    by (auto simp: reply_unit_def tmpfs_rename_def snd_admitted and_then_eq_Inr_iff inline_name_idem
        intro!: cookies_rename split: sum.split if_splits)
next
  case (Call_truncate tail x n)
  then show ?thesis
    using assms by (auto simp: tmpfs_truncate_def Let_def cookies_file_size split: sum.split prod.split)
qed (use assms in \<open>auto simp: published_def reply_id_def reply_unit_def create_publish_def tmpfs_mkdir_def symlink_publish_def
      tmpfs_link_def link_check_name tmpfs_unlink_def tmpfs_rmdir_def serialize_inode_meta_def chmod_inode_def chown_inode_def
      drop_link_def snd_admitted alloc_object_id_def Let_def and_then_eq_Inr_iff inline_name_idem
      intro!: cookies_intros split: sum.splits\<close>)

lemma next_cookie_upd [simp]:
  "tf_next_dirent_cookie (add_entry p n x tf) = tf_next_dirent_cookie tf + 1"
  "tf_next_dirent_cookie (remove_entry p n tf) = tf_next_dirent_cookie tf"
  "tf_next_dirent_cookie (drop_link x tf) = tf_next_dirent_cookie tf"
  "tf_next_dirent_cookie (adjust_directory_nlink x i tf) = tf_next_dirent_cookie tf"
  "tf_next_dirent_cookie (insert_inode x inode tf) = tf_next_dirent_cookie tf"
  "tf_next_dirent_cookie (destroy_inode tf x) = tf_next_dirent_cookie tf"
  by (simp_all add: add_entry_def alloc_dirent_def remove_entry_def drop_link_def adjust_directory_nlink_def
      insert_inode_def destroy_inode_def split: option.split)

lemma step_next_cookie:
  "tf_next_dirent_cookie (snd (tmpfs_step call tf)) \<in> {tf_next_dirent_cookie tf, tf_next_dirent_cookie tf + 1}"
proof (cases call)
  case (Call_rename p name q name')
  have "tf_next_dirent_cookie (rename_apply p n q m plan tf) \<in> {tf_next_dirent_cookie tf, tf_next_dirent_cookie tf + 1}"
    for n m plan
    by (auto simp: rename_apply_def rename_links_def release_displaced_def Let_def split: rename_plan.split option.split)
  then show ?thesis
    using Call_rename by (auto simp: reply_unit_def tmpfs_rename_def snd_admitted split: sum.split)
next
  case (Call_truncate tail x n)
  then show ?thesis
    by (auto simp: tmpfs_truncate_def Let_def split: sum.split prod.split)
qed (auto simp: published_def reply_id_def reply_unit_def create_publish_def tmpfs_mkdir_def symlink_publish_def
      tmpfs_link_def tmpfs_unlink_def tmpfs_rmdir_def serialize_inode_meta_def chmod_inode_def chown_inode_def
      snd_admitted alloc_object_id_def Let_def split: sum.splits)

lemma run_cookies:
  assumes "cookies_ok tf" "0 < tf_next_dirent_cookie tf" "unat (tf_next_dirent_cookie tf) + length calls < 2 ^ 64 - 1"
  shows "cookies_ok (snd (tmpfs_run calls tf))"
  using assms
proof (induction calls arbitrary: tf)
  case (Cons call calls)
  have "tf_next_dirent_cookie tf \<noteq> - 1"
    using Cons.prems(3) by (auto simp: unsigned_minus_1_eq_mask mask_eq_exp_minus_1)
  then have left: "cookies_left tf"
    using Cons.prems(2) by (simp add: cookies_left_def)
  have "unat (tf_next_dirent_cookie tf + 1) = unat (tf_next_dirent_cookie tf) + 1"
    using Cons.prems(3) by (simp add: unat_word_ariths(1))
  then have "0 < tf_next_dirent_cookie (snd (tmpfs_step call tf))"
      "unat (tf_next_dirent_cookie (snd (tmpfs_step call tf))) \<le> unat (tf_next_dirent_cookie tf) + 1"
    using step_next_cookie [of call tf] Cons.prems(2) by (auto simp: word_less_nat_alt)
  then have "cookies_ok (snd (tmpfs_run calls (snd (tmpfs_step call tf))))"
    using Cons.prems cookies_step [OF Cons.prems(1) left] by (intro Cons.IH) simp_all
  then show ?case
    by (auto split: prod.splits)
qed simp

lemma cookies_ok_new: "cookies_ok tmpfs_new"
  by (auto simp: cookies_ok_def listing_ok_def children_of_def tmpfs_new_def tmpfs_state_new_def split: option.splits)

lemma tmpfs_new_cookie: "tf_next_dirent_cookie tmpfs_new = 1"
  by (simp add: tmpfs_new_def)


definition tmpfs_reached :: "tmpfs \<Rightarrow> bool" where
  "tmpfs_reached tf \<longleftrightarrow> (\<exists>calls. length calls < 2 ^ 31 \<and> tf = snd (tmpfs_run calls tmpfs_new))"

lemma reached_inv:
  assumes "tmpfs_reached tf"
  shows "cookies_ok tf" "sorted_dirs tf" "shape_ok (space_of tf)"
proof -
  obtain calls where calls: "length calls < 2 ^ 31" "tf = snd (tmpfs_run calls tmpfs_new)"
    using assms by (auto simp: tmpfs_reached_def)
  show "cookies_ok tf"
    unfolding calls(2) using calls(1) by (intro run_cookies) (simp_all add: cookies_ok_new tmpfs_new_cookie)
  have "tmpfs_inv (0 + length calls) False tf"
    unfolding calls(2) using calls(1) by (intro tmpfs_run_inv(1) tmpfs_inv_new) simp_all
  then show "sorted_dirs tf" "shape_ok (space_of tf)"
    by (auto simp: tmpfs_inv_def dest: space_okD(1))
qed

lemma min_by_cookie_None: "min_by_cookie ch = None \<longleftrightarrow> ch = []"
  by (cases ch) (auto split: option.splits)

lemma min_by_cookie_Some:
  "min_by_cookie ch = Some e \<Longrightarrow> e \<in> set ch \<and> (\<forall>e'\<in>set ch. te_cookie (snd e) \<le> te_cookie (snd e'))"
  by (induction ch arbitrary: e rule: min_by_cookie.induct)
    (auto simp: min_by_cookie_None split: option.splits if_splits intro: order_trans)

lemma readdir_None:
  "tmpfs_readdir tf d cur = Inr None \<longleftrightarrow>
   d \<in> ns_dirs (space_of tf) \<and> (\<forall>e\<in>set (children_of tf d). te_cookie (snd e) \<le> cur)"
proof (cases "min_by_cookie (filter (\<lambda>(_, entry). te_cookie entry > cur) (children_of tf d))")
  case None
  then show ?thesis
    using ns_dirs_objs [of d "space_of tf"]
    by (auto simp: tmpfs_readdir_def get_children_cases min_by_cookie_None filter_empty_conv not_less)
next
  case (Some e)
  then have "e \<in> set (children_of tf d)" "\<not> te_cookie (snd e) \<le> cur"
    using min_by_cookie_Some [OF Some] by (auto simp: split_def)
  then show ?thesis
    using Some by (auto simp: tmpfs_readdir_def get_children_cases and_then_eq_Inr_iff split: prod.splits)
qed

lemma readdir_Some:
  assumes "tmpfs_readdir tf d cur = Inr (Some (de, next))"
  obtains e where "(de_name de, e) \<in> set (children_of tf d)" "te_cookie e = next" "te_object_id e = de_fs_object_id de"
    "cur < next" "\<forall>e'\<in>set (children_of tf d). cur < te_cookie (snd e') \<longrightarrow> next \<le> te_cookie (snd e')"
proof -
  let ?ch = "filter (\<lambda>(_, entry). te_cookie entry > cur) (children_of tf d)"
  obtain n e where e: "min_by_cookie ?ch = Some (n, e)"
      "te_cookie e = next" "te_object_id e = de_fs_object_id de" "de_name de = n"
    using assms by (auto simp: tmpfs_readdir_def get_children_cases and_then_eq_Inr_iff dir_entry_new_def
        inline_name_new_def split: option.splits if_splits)
  show ?thesis
    using min_by_cookie_Some [OF e(1)] e(2-) by (intro that [of e]) (auto simp: split_def)
qed

text \<open>Successive calls, each on the state it finds, until one reports the end.\<close>

fun listing :: "tmpfs list \<Rightarrow> fs_object_id \<Rightarrow> u64 \<Rightarrow> dir_entry list option" where
  "listing [] d cursor = None"
| "listing (tf # tfs) d cursor =
     (case tmpfs_readdir tf d cursor of
        Inl e \<Rightarrow> None
      | Inr None \<Rightarrow> Some []
      | Inr (Some (de, next)) \<Rightarrow> map_option (\<lambda>es. de # es) (listing tfs d next))"

lemma same_name_same_entry:
  "sorted_dirs tf \<Longrightarrow> bt_get (children_of tf d) n = Some e \<Longrightarrow> (n, e') \<in> set (children_of tf d) \<Longrightarrow> e' = e"
  by (simp add: sorted_dirs_def bt_in_set_iff)

lemma same_cookie_same_name:
  assumes "cookies_ok tf" "(n, e) \<in> set (children_of tf d)" "(m, e') \<in> set (children_of tf d)" "te_cookie e = te_cookie e'"
  shows "n = m"
proof -
  have "inj_on (\<lambda>e. te_cookie (snd e)) (set (children_of tf d))"
    using assms(1) by (simp add: cookies_ok_def listing_ok_def distinct_map)
  then show ?thesis
    using inj_onD [of _ _ "(n, e)" "(m, e')"] assms(2-4) by fastforce
qed

lemma listing_counts:
  assumes "\<forall>tf\<in>set tfs. cookies_ok tf \<and> sorted_dirs tf \<and> bt_get (children_of tf d) n = Some e"
    and "listing tfs d cur = Some es"
  shows "length (filter (\<lambda>de. de_name de = n) es) = (if cur < te_cookie e then 1 else 0) \<and>
         (\<forall>de\<in>set es. de_name de = n \<longrightarrow> de_fs_object_id de = te_object_id e)"
  using assms
proof (induction tfs arbitrary: cur es)
  case (Cons tf tfs)
  have tf: "cookies_ok tf" "sorted_dirs tf" "bt_get (children_of tf d) n = Some e"
    using Cons.prems(1) by simp_all
  have mem: "(n, e) \<in> set (children_of tf d)"
    using tf(3) by (rule map_of_SomeD)
  show ?case
  proof (cases "tmpfs_readdir tf d cur")
    case (Inr r)
    show ?thesis
    proof (cases r)
      case None
      then show ?thesis
        using Inr Cons.prems(2) mem readdir_None [of tf d cur] by auto
    next
      case (Some p)
      obtain de "next" where p: "p = (de, next)"
        by (cases p)
      have rd: "tmpfs_readdir tf d cur = Inr (Some (de, next))"
        using Inr Some p by simp
      obtain es' where es: "es = de # es'" "listing tfs d next = Some es'"
        using Cons.prems(2) Inr Some p by auto
      obtain e' where e': "(de_name de, e') \<in> set (children_of tf d)" "te_cookie e' = next"
          "te_object_id e' = de_fs_object_id de" "cur < next"
          "\<forall>e'\<in>set (children_of tf d). cur < te_cookie (snd e') \<longrightarrow> next \<le> te_cookie (snd e')"
        by (rule readdir_Some [OF rd]) (rule that)
      have same: "e' = e" if "de_name de = n"
        using same_name_same_entry [OF tf(2,3)] e'(1) that by simp
      have other: "de_name de = n" if "next = te_cookie e"
        using same_cookie_same_name [OF tf(1) mem e'(1)] e'(2) that by simp
      have "next \<le> te_cookie e" if "cur < te_cookie e"
        using bspec [OF e'(5) mem] that by simp
      have IH: "length (filter (\<lambda>de. de_name de = n) es') = (if next < te_cookie e then 1 else 0) \<and>
          (\<forall>de\<in>set es'. de_name de = n \<longrightarrow> de_fs_object_id de = te_object_id e)"
        using Cons.IH [OF _ es(2)] Cons.prems(1) by simp
      show ?thesis
      proof (cases "de_name de = n")
        case True
        then show ?thesis
          using IH same [OF True] e'(2-4) es(1) by auto
      next
        case False
        then have "next < te_cookie e \<longleftrightarrow> cur < te_cookie e"
          using other e'(4) \<open>cur < te_cookie e \<Longrightarrow> next \<le> te_cookie e\<close> by (auto simp: order_less_le)
        then show ?thesis
          using IH False es(1) by simp
      qed
    qed
  qed (use Cons.prems(2) in simp)
qed simp


lemma cookies_okD:
  assumes "cookies_ok tf" "(n, e) \<in> set (children_of tf d)"
  shows "0 < te_cookie e" "inline_name_new n = Inr n"
proof -
  have "\<forall>e\<in>set (children_of tf d). 0 < te_cookie (snd e) \<and> inline_name_new (fst e) = Inr (fst e)"
    using assms(1) unfolding cookies_ok_def listing_ok_def by blast
  from bspec [OF this assms(2)] show "0 < te_cookie e" "inline_name_new n = Inr n"
    by simp_all
qed

lemma readdir_total:
  assumes "tmpfs_reached tf" "d \<in> ns_dirs (space_of tf)"
  obtains "tmpfs_readdir tf d cur = Inr None"
  | de "next" where "tmpfs_readdir tf d cur = Inr (Some (de, next))"
proof (cases "min_by_cookie (filter (\<lambda>(_, entry). te_cookie entry > cur) (children_of tf d))")
  case None
  then have "tmpfs_readdir tf d cur = Inr None"
    using assms(2) ns_dirs_objs [OF assms(2)] by (simp add: tmpfs_readdir_def get_children_cases)
  then show ?thesis
    by (rule that(1))
next
  case (Some p)
  obtain n e where p: "p = (n, e)"
    by (cases p)
  have mem: "(n, e) \<in> set (children_of tf d)"
    using min_by_cookie_Some [OF Some] p by simp
  note name = cookies_okD(2) [OF reached_inv(1) [OF assms(1)] mem]
  have "entry_of tf d n = Some (te_object_id e)"
    using mem reached_inv(2) [OF assms(1)] by (simp add: entry_of_def sorted_dirs_def bt_in_set_iff)
  then have "te_object_id e \<in> ns_objs (space_of tf)"
    using shape_okD(2) [OF reached_inv(3) [OF assms(1)], of d n] by simp
  then obtain i where "get_inode tf (te_object_id e) = Inr i"
    by (rule get_inode_Some)
  then show ?thesis
    using that(2) Some p name assms(2) ns_dirs_objs [OF assms(2)]
    by (simp add: tmpfs_readdir_def get_children_cases dir_entry_new_def)
qed

lemma listing_total:
  assumes reached: "tmpfs_reached tf" and d: "d \<in> ns_dirs (space_of tf)"
    and "length (filter (\<lambda>e. cur < te_cookie (snd e)) (children_of tf d)) < k"
  shows "\<exists>es. listing (replicate k tf) d cur = Some es \<and>
           (\<forall>de\<in>set es. entry_of tf d (de_name de) = Some (de_fs_object_id de))"
  using assms(3)
proof (induction k arbitrary: cur)
  case (Suc k)
  from reached d show ?case
  proof (cases rule: readdir_total [of tf d cur])
    case (2 de "next")
    obtain e where e: "(de_name de, e) \<in> set (children_of tf d)" "te_cookie e = next"
        "te_object_id e = de_fs_object_id de" "cur < next"
        "\<forall>e'\<in>set (children_of tf d). cur < te_cookie (snd e') \<longrightarrow> next \<le> te_cookie (snd e')"
      by (rule readdir_Some [OF 2]) (rule that)
    let ?rest = "\<lambda>c. filter (\<lambda>e. c < te_cookie (snd e)) (children_of tf d)"
    have "filter (\<lambda>e. next < te_cookie (snd e)) (?rest cur) = ?rest next"
      using e(4) by (auto simp: filter_filter intro!: filter_cong)
    moreover have "(de_name de, e) \<in> set (?rest cur)"
      using e(1,2,4) by simp
    ultimately have "length (?rest next) < length (?rest cur)"
      using length_filter_less [of "(de_name de, e)" "?rest cur" "\<lambda>e. next < te_cookie (snd e)"] e(2) by simp
    then obtain es where es: "listing (replicate k tf) d next = Some es"
        "\<forall>de\<in>set es. entry_of tf d (de_name de) = Some (de_fs_object_id de)"
      using Suc.IH [of "next"] Suc.prems by auto
    have "entry_of tf d (de_name de) = Some (de_fs_object_id de)"
      using e(1,3) reached_inv(2) [OF reached] by (simp add: entry_of_def sorted_dirs_def bt_in_set_iff)
    then show ?thesis
      using 2 es by simp
  qed simp
qed simp

end
