(* ===== verification/Tmpfs_Props.thy ===== *)
theory Tmpfs_Props
  imports Tmpfs_Listing
begin

text \<open>
  The properties of tmpfs over sequences of calls from an empty file system: the namespace stays a
  tree without dangling entries, link counts are exact and what has links is reachable, the inode
  table refines the namespace, and reading a directory reports its entries. The last two
  properties show where the code does less than it means to.
\<close>

section \<open>Reachability\<close>

lemma linked_reachable:
  assumes ok: "space_ok True N" and "x \<in> ns_objs N" "0 < ns_links N x"
  shows "(TMPFS_ROOT_OBJECT_ID, x) \<in> (ns_edges N)\<^sup>*"
proof -
  note shape = space_okD(1) [OF ok]
  have "ns_edges N \<subseteq> (\<lambda>((d, n), x). (d, x)) ` {((d, n), x). ns_ent N d n = Some x}"
    by (force simp: ns_edges_def)
  moreover have "finite {((d, n), x). ns_ent N d n = Some x}"
    by (rule finite_subset [of _ "(\<lambda>(d, n). ((d, n), the (ns_ent N d n))) ` {(d, n). ns_ent N d n \<noteq> None}"])
      (use shape_okD(7) [OF shape] in \<open>force simp: image_iff\<close>)+
  ultimately have "wf (ns_edges N)"
    using shape_okD(6) [OF shape] by (intro finite_acyclic_wf) (auto dest: finite_subset)
  then show ?thesis
    using assms(2,3)
  proof (induction x rule: wf_induct_rule)
    case (less x)
    show ?case
    proof (cases "x = TMPFS_ROOT_OBJECT_ID")
      case False
      have "names_of N x \<noteq> {}"
      proof (cases "x \<in> ns_dirs N")
        case True
        then show ?thesis
          using live_named [OF ok True less.prems(2)] False by (simp add: named_def)
      next
        case other: False
        then show ?thesis
          using space_okD(4) [OF ok _ less.prems(1)] less.prems(2) by (auto simp: due_links_def)
      qed
      then obtain d n where ent: "ns_ent N d n = Some x"
        by (auto simp: names_of_def)
      then have d: "(d, x) \<in> ns_edges N" "d \<in> ns_dirs N" "d \<in> ns_objs N"
        using shape_okD(1) [OF shape ent] ns_dirs_objs by (auto simp: ns_edges_def)
      have "ns_ent N d \<noteq> Map.empty"
        using ent by auto
      then have "named N d"
        using space_okD(5) [OF ok] d(2) by (auto simp: dead_empty_def)
      then have "0 < ns_links N d"
        using space_okD(3) [OF ok d(2)] d(2) by (simp add: due_links_def)
      then show ?thesis
        using less.IH [OF d(1,3)] d(1) by (simp add: rtrancl.rtrancl_into_rtrancl)
    qed simp
  qed
qed

section \<open>Sample sequences\<close>

definition sample_cred :: credential where
  "sample_cred = \<lparr>cd_uid = 0, cd_gid = 0, cd_effective_caps = caps_empty\<rparr>"

definition sample_dir :: "dir_children \<Rightarrow> u32 \<Rightarrow> tmpfs_inode" where
  "sample_dir children n =
     \<lparr>ti_meta = (inode_meta_new Directory TMPFS_ROOT_MODE)\<lparr>im_nlinks := n\<rparr>, ti_payload = DirectoryP children, ti_nlink = n\<rparr>"

definition sample_file :: tmpfs_inode where
  "sample_file = \<lparr>ti_meta = inode_meta_new Regular 0x81a4, ti_payload = RegularFileP 0 0, ti_nlink = 1\<rparr>"

definition sample_entry :: "fs_object_id \<Rightarrow> u64 \<Rightarrow> tmpfs_dir_entry" where
  "sample_entry x cookie = \<lparr>te_object_id = x, te_cookie = cookie\<rparr>"

definition sample_container :: page_container where
  "sample_container = \<lparr>pc_page_count = 65536, pc_size_bytes = 0\<rparr>"

definition sample_fs1 :: tmpfs where
  "sample_fs1 = \<lparr>tf_inodes = [(2, sample_dir [([0x61], sample_entry 3 1)] 3), (3, sample_dir [] 2)],
          tf_next_object_id = 4, tf_next_dirent_cookie = 2, tf_containers = []\<rparr>"

definition sample_fs2 :: tmpfs where
  "sample_fs2 = \<lparr>tf_inodes = [(2, sample_dir [([0x61], sample_entry 3 1)] 3), (3, sample_dir [([0x66], sample_entry 4 2)] 2),
                              (4, sample_file)],
          tf_next_object_id = 5, tf_next_dirent_cookie = 3, tf_containers = [sample_container]\<rparr>"

definition sample_fs :: tmpfs where
  "sample_fs = \<lparr>tf_inodes = [(2, sample_dir [([0x62], sample_entry 3 3)] 3), (3, sample_dir [([0x66], sample_entry 4 2)] 2),
                              (4, sample_file)],
          tf_next_object_id = 5, tf_next_dirent_cookie = 4, tf_containers = [sample_container]\<rparr>"

lemma sample_step1: "snd (tmpfs_step (Call_mkdir 2 [0x61] 0x1ed sample_cred) tmpfs_new) = sample_fs1"
  by code_simp

lemma sample_step2: "snd (tmpfs_step (Call_create 3 [0x66] (inode_meta_new Regular 0x81a4)) sample_fs1) = sample_fs2"
  by code_simp

lemma sample_step3: "snd (tmpfs_step (Call_rename 2 [0x61] 2 [0x62]) sample_fs2) = sample_fs"
  by code_simp

definition sample_calls :: "tmpfs_call list" where
  "sample_calls =
     [Call_mkdir 2 [0x61] 0x1ed sample_cred, Call_create 3 [0x66] (inode_meta_new Regular 0x81a4),
      Call_rename 2 [0x61] 2 [0x62]]"

lemma tmpfs_run_snd: "snd (tmpfs_run (call # calls) tf) = snd (tmpfs_run calls (snd (tmpfs_step call tf)))"
  by (simp split: prod.splits)

lemma sample_run: "snd (tmpfs_run sample_calls tmpfs_new) = sample_fs"
  unfolding sample_calls_def
  by (simp only: tmpfs_run_snd sample_step1 sample_step2 sample_step3 tmpfs_run.simps(1) snd_conv)

lemma sample_short: "length sample_calls < 2 ^ 31"
  by (simp add: sample_calls_def)

lemma sample_live: "live_calls sample_calls tmpfs_new"
proof -
  have "0 < links_of tmpfs_new 2" "0 < links_of sample_fs1 3" "0 < links_of sample_fs2 2"
    by code_simp+
  then show ?thesis
    by (simp add: sample_calls_def live_call_def sample_step1 sample_step2 del: tmpfs_step.simps)
qed

lemma sample_reached: "tmpfs_reached sample_fs"
  unfolding tmpfs_reached_def using sample_run sample_short by metis





section \<open>Properties\<close>

text \<open>
  C2: For every sequence of fewer than \<open>2 ^ 31\<close> calls on an empty tmpfs, each on whatever state the
  calls before it left, an inode table and the namespace specification give the same replies,
  errors included, and the namespace read off the table at the end is the specified one.
\<close>

theorem tmpfs_refines_namespace:
  assumes "length calls < 2 ^ 31"
  shows "(fst (tmpfs_run calls tmpfs_new), space_of (snd (tmpfs_run calls tmpfs_new))) =
         ns_run calls (space_of tmpfs_new)"
  using assms tmpfs_run_inv(2) [OF tmpfs_inv_new [of False], of calls] by simp

text \<open>
  C3: After any sequence of fewer than \<open>2 ^ 31\<close> calls, no entry dangles, no entry names the root, a
  directory has at most one name, and no directory contains itself, directly or below.
\<close>

theorem tmpfs_namespace_is_a_tree:
  assumes "tmpfs_reached tf"
  shows "(\<forall>d n x. entry_of tf d n = Some x \<longrightarrow>
            bt_get (tf_inodes tf) x \<noteq> None \<and> x \<noteq> TMPFS_ROOT_OBJECT_ID) \<and>
         (\<forall>d n d' n' x. entry_of tf d n = Some x \<and> entry_of tf d' n' = Some x \<and> x \<in> ns_dirs (space_of tf) \<longrightarrow>
            d = d' \<and> n = n') \<and>
         acyclic (ns_edges (space_of tf))"
proof -
  note shape = reached_inv(3) [OF assms]
  show ?thesis
    using shape_okD(2,3,5,6) [OF shape] by (auto simp: objs_iff)
qed

text \<open>
  C7: As long as no call adds an entry to a removed directory, the link count of every inode is
  exactly what its names and subdirectories ask for, and an inode with links is reachable from
  the root.
\<close>

theorem tmpfs_link_counts_are_exact:
  assumes "length calls < 2 ^ 31" "live_calls calls tmpfs_new" "tf = snd (tmpfs_run calls tmpfs_new)"
    and "bt_get (tf_inodes tf) x = Some inode"
  shows "unat (ti_nlink inode) = due_links (space_of tf) x \<and>
         (0 < ti_nlink inode \<longrightarrow> (TMPFS_ROOT_OBJECT_ID, x) \<in> (ns_edges (space_of tf))\<^sup>*)"
proof -
  have ok: "space_ok True (space_of tf)"
    using assms tmpfs_run_inv(1) [OF tmpfs_inv_new [of True], of calls] by (simp add: tmpfs_inv_def)
  have x: "x \<in> ns_objs (space_of tf)" "links_of tf x = unat (ti_nlink inode)"
    using assms(4) by (simp_all add: objs_iff links_of_def)
  show ?thesis
    using space_okD(4) [OF ok _ x(1)] linked_reachable [OF ok x(1)] x(2) by (simp add: unat_pos_iff [symmetric])
qed

text \<open>
  C31: A directory that is read call by call, while other calls change the file system between
  them, reports an entry that stays in place the whole time exactly once and with its object.
\<close>

theorem readdir_reports_stable_entries_once:
  assumes "\<forall>tf\<in>set tfs. tmpfs_reached tf \<and> bt_get (children_of tf d) n = Some e"
    and "listing tfs d 0 = Some es"
  shows "length (filter (\<lambda>de. de_name de = n) es) = 1 \<and>
         (\<forall>de\<in>set es. de_name de = n \<longrightarrow> de_fs_object_id de = te_object_id e)"
proof -
  obtain tf where tf: "tf \<in> set tfs"
    using assms(2) by (cases tfs) auto
  then have "(n, e) \<in> set (children_of tf d)" "cookies_ok tf"
    using assms(1) reached_inv(1) by (auto dest: map_of_SomeD)
  then have "0 < te_cookie e"
    using cookies_okD(1) by blast
  then show ?thesis
    using listing_counts [OF _ assms(2), of n e] assms(1) reached_inv(1,2) by simp
qed

text \<open>
  C32: Reading a directory that does not change ends after one call more than it has entries, and
  reports exactly its entries.
\<close>

theorem readdir_lists_the_directory:
  assumes "tmpfs_reached tf" "d \<in> ns_dirs (space_of tf)"
  shows "\<exists>es. listing (replicate (Suc (length (children_of tf d))) tf) d 0 = Some es \<and>
           (\<forall>n x. entry_of tf d n = Some x \<longleftrightarrow> (\<exists>de\<in>set es. de_name de = n \<and> de_fs_object_id de = x))"
proof -
  let ?tfs = "replicate (Suc (length (children_of tf d))) tf"
  obtain es where es: "listing ?tfs d 0 = Some es"
      "\<forall>de\<in>set es. entry_of tf d (de_name de) = Some (de_fs_object_id de)"
    using listing_total [OF assms, of 0 "Suc (length (children_of tf d))"] by (auto simp: le_imp_less_Suc)
  have "\<exists>de\<in>set es. de_name de = n \<and> de_fs_object_id de = x" if ent: "entry_of tf d n = Some x" for n x
  proof -
    obtain e where e: "bt_get (children_of tf d) n = Some e" "te_object_id e = x"
      using ent by (auto simp: entry_of_def)
    then have "0 < te_cookie e"
      using cookies_okD(1) [OF reached_inv(1) [OF assms(1)] map_of_SomeD [OF e(1)]] by simp
    then have "length (filter (\<lambda>de. de_name de = n) es) = 1"
      using listing_counts [OF _ es(1), of n e] e(1) reached_inv(1,2) [OF assms(1)] by simp
    then have "filter (\<lambda>de. de_name de = n) es \<noteq> []"
      by auto
    then show ?thesis
      using es(2) ent by (auto simp: filter_empty_conv)
  qed
  then show ?thesis
    using es by auto
qed


text \<open>
  C33: Any caller may change the owner and the group of any file to its own: the check behind
  \<open>chown_inode\<close> does not look at the present owner, although the group is documented to be open to
  the owner alone. Afterwards the caller may change the mode as well.
\<close>

theorem chown_takes_over_any_file:
  assumes "bt_get (tf_inodes tf) x = Some inode"
  shows "\<exists>tf' inode'. chown_inode tf x (Some (cd_uid c)) (Some (cd_gid c)) c = (Ok (), tf') \<and>
           bt_get (tf_inodes tf') x = Some inode' \<and> im_uid (ti_meta inode') = cd_uid c \<and>
           im_gid (ti_meta inode') = cd_gid c \<and> fst (chmod_inode tf' x mode c) = Ok ()"
proof -
  let ?i = "inode\<lparr>ti_meta := chown_meta (Some (cd_uid c)) (Some (cd_gid c)) (ti_meta inode)\<rparr>"
  let ?tf = "modify_inode x (\<lambda>i. i\<lparr>ti_meta := chown_meta (Some (cd_uid c)) (Some (cd_gid c)) (ti_meta i)\<rparr>) tf"
  have owner: "im_uid (ti_meta ?i) = cd_uid c" "im_gid (ti_meta ?i) = cd_gid c"
    by (simp_all add: chown_meta_def Let_def)
  have "bt_get (tf_inodes ?tf) x = Some ?i"
    using assms by (simp add: modify_inode_get)
  moreover have "chown_inode tf x (Some (cd_uid c)) (Some (cd_gid c)) c = (Ok (), ?tf)"
    using assms by (simp add: chown_inode_def admitted_def get_inode_def check_chown_perm_def)
  ultimately show ?thesis
    using owner by (auto simp: chmod_inode_def admitted_def get_inode_def check_chmod_perm_def)
qed


section \<open>Witnesses\<close>

theorem tmpfs_refines_namespace_witness:
  "length sample_calls < 2 ^ 31 \<and> space_of sample_fs = snd (ns_run sample_calls (space_of tmpfs_new))"
  using tmpfs_refines_namespace [OF sample_short] sample_short unfolding sample_run by (metis snd_conv)

theorem tmpfs_namespace_is_a_tree_witness:
  "tmpfs_reached sample_fs \<and> entry_of sample_fs 2 [0x62] = Some 3 \<and> bt_get (tf_inodes sample_fs) 3 \<noteq> None"
proof -
  have "entry_of sample_fs 2 [0x62] = Some 3"
    by code_simp
  then show ?thesis
    using tmpfs_namespace_is_a_tree [OF sample_reached] sample_reached by blast
qed

theorem tmpfs_link_counts_are_exact_witness:
  "live_calls sample_calls tmpfs_new \<and> unat (ti_nlink sample_file) = due_links (space_of sample_fs) 4"
proof -
  have "bt_get (tf_inodes sample_fs) 4 = Some sample_file"
    by (simp add: sample_fs_def)
  then show ?thesis
    using tmpfs_link_counts_are_exact [OF sample_short sample_live sample_run [symmetric]] sample_live by blast
qed

theorem readdir_reports_stable_entries_once_witness:
  "\<exists>es. listing [sample_fs2, sample_fs2] 2 0 = Some es \<and> length (filter (\<lambda>de. de_name de = [0x61]) es) = 1"
proof -
  have list: "listing [sample_fs2, sample_fs2] 2 0 \<noteq> None"
    and entry: "bt_get (children_of sample_fs2 2) [0x61] = Some (sample_entry 3 1)"
    by code_simp+
  then obtain es where es: "listing [sample_fs2, sample_fs2] 2 0 = Some es"
    by blast
  have "snd (tmpfs_run (take 2 sample_calls) tmpfs_new) = sample_fs2"
    by (simp add: sample_calls_def tmpfs_run_snd sample_step1 sample_step2 del: tmpfs_run.simps(2) tmpfs_step.simps)
  then have "tmpfs_reached sample_fs2"
    unfolding tmpfs_reached_def by (intro exI [of _ "take 2 sample_calls"]) simp
  then have "\<forall>tf\<in>set [sample_fs2, sample_fs2]. tmpfs_reached tf \<and> bt_get (children_of tf 2) [0x61] = Some (sample_entry 3 1)"
    using entry by simp
  then show ?thesis
    using readdir_reports_stable_entries_once [OF _ es] es by blast
qed

theorem readdir_lists_the_directory_witness:
  "\<exists>es. listing (replicate (Suc (length (children_of sample_fs 3))) sample_fs) 3 0 = Some es \<and>
        (\<exists>de\<in>set es. de_name de = [0x66] \<and> de_fs_object_id de = 4)"
proof -
  have entry: "entry_of sample_fs 3 [0x66] = Some 4"
    by code_simp
  show ?thesis
    using readdir_lists_the_directory [OF sample_reached entry_of_dir [OF entry]] entry by blast
qed

theorem chown_takes_over_any_file_witness:
  "fst (chown_inode tmpfs_new 2 (Some 1000) (Some 1000) \<lparr>cd_uid = 1000, cd_gid = 1000, cd_effective_caps = caps_empty\<rparr>) = Ok ()"
proof -
  have "bt_get (tf_inodes tmpfs_new) 2 =
      Some \<lparr>ti_meta = inode_meta_new Directory TMPFS_ROOT_MODE, ti_payload = DirectoryP [], ti_nlink = 2\<rparr>"
    by (simp add: tmpfs_new_def tmpfs_state_new_def TMPFS_ROOT_OBJECT_ID_def)
  from chown_takes_over_any_file [OF this, where c = "\<lparr>cd_uid = 1000, cd_gid = 1000, cd_effective_caps = caps_empty\<rparr>" and mode = "0x1ff"]
  show ?thesis
    by auto
qed

end
