(* ===== verification/Spec2Isabelle.thy ===== *)
theory Spec2Isabelle
  imports Tty_Ldisc Timer_Engine Exit_Permits Sem_Props Mq_Order Tmpfs_Props
begin

text \<open>
  Verification of the core of txKernel, a Rust kernel for RISC-V and LoongArch. The development
  models the parts of the kernel whose state is changed in critical sections by ordinary code,
  and proves what their callers rely on. Paths are relative to \<open>src/crates\<close>.

  \<^bold>\<open>Conventions.\<close> \<open>u8\<close> to \<open>u64\<close> are words of that width and wrap; \<open>usize\<close> is a natural number, with
  the 64-bit bound written out where the code checks or may exceed it; signed integers are
  integers with \<open>wrap_\<close> and \<open>sat_\<close> functions where they can leave their range. A panic is \<open>None\<close>.
  \<open>Result<T, Errno>\<close> is the sum \<open>'a result\<close>, the outcome of a step is \<open>'a step_outcome\<close>. State is
  passed explicitly. A cap (a counted reference) is a position in an append-only list, a
  \<open>BTreeMap\<close> the list of its bindings in ascending order. The outcome of an allocation is a
  boolean argument. A spin lock makes the section it protects one step; where an operation takes
  its lock more than once, each section is a definition of its own, so that what happens between
  them can be stated. \<open>Tx_Prelude\<close> and \<open>Tx_Step\<close> hold this vocabulary.

  \<^bold>\<open>Timers\<close> (\<open>tx-time/src/timer\<close>). The engine hands out keys for deadlines and drains those that
  are due. \<open>Timer_Index\<close> is the open-addressed key index of \<open>min_heap.rs\<close>, \<open>Heap_Order\<close> the reference
  heap, \<open>Timer_Heap\<close> the functions of \<open>MinHeap\<close> and \<open>Timer_Heap_Linked\<close> the invariant that ties heap,
  slots and index together. \<open>Timer_Queue\<close> states the contract of \<open>queue.rs\<close> as the locale
  \<open>timer_queue\<close>, interpreted on the heap; \<open>Timer_Engine\<close> has the sections of \<open>engine.rs\<close> as a step
  relation over any number of callers. Shown: the index is a finite map, with insertion,
  lookup and backward-shift removal that end; heap operations never panic and are map operations;
  draining returns the due keys in order; every interleaved run of the engine is a run of an
  atomic map, keys are never used twice, and an undisturbed insertion returns. Reserving is bounded by
  \<open>2 ^ 56\<close> timers, more than fit into memory.

  \<^bold>\<open>Thread exit\<close> (\<open>tx-subsystems/src/process\<close>, \<open>thread_runtime\<close>). \<open>Proc_Lifecycle\<close> is the lifecycle slot
  of a process with the functions of \<open>process/structure.rs\<close>, \<open>Exit_Protocol\<close> the operations of thread
  exit, group exit, exec and thread creation as a step relation over their sections, \<open>Exit_Permits\<close>
  the invariant on the permits they hold. Shown: permits stay valid while the zombie test and the
  claim are not separated, at most one exit is the last one, an aborted collapse ends; and the
  interleaving in which a separated test voids a permit.

  \<^bold>\<open>Credentials\<close> (\<open>tx-subsystems/src/cred\<close>, \<open>vfs/predicates.rs\<close>). \<open>Cred\<close> has the credential and its
  mutators, \<open>Cred_Steps\<close> the slot of the process and the reservation by which exec keeps it,
  \<open>Cred_Security\<close> their guarantees, \<open>Cred_Checks\<close> the permission predicates and the \<open>require_\<close> and
  \<open>authorize_\<close> functions. Shown: dropped privileges do not come back under any sequence of calls,
  capabilities stay permitted, an exec changes the credential as a whole or not at all, and the
  checks are the mode bits of one class, the sticky bit, and the user of a signal's target.

  \<^bold>\<open>IPC\<close> (\<open>tx-subsystems/src/ipc\<close>). \<open>Ipc_Common\<close> has namespaces, permissions and the contracts of the
  System V kinds as the locales \<open>ipc_object\<close> and \<open>ipc_registry\<close>, interpreted on semaphores and on
  message queues. \<open>Sysv_Sem\<close> has the calls of \<open>sysv_sem\<close>; \<open>Sem_Ops\<close>, \<open>Sem_Calls\<close> and \<open>Sem_Props\<close> show that no
  sequence of calls panics, that operation arrays on different semaphores are atomic, that waiters
  are woken, that removed identifiers stay removed and that exit undoes the adjustments of the
  process. \<open>Sysv_Msg\<close> and \<open>Msg_Props\<close> do the same for message queues: the accounting is exact and a receive
  takes the message that its type selects. \<open>Posix_Mq\<close> has the queues of \<open>posix_mq\<close>, built on these;
  \<open>Mq_Order\<close> shows that draining one is a stable sort by priority. Runs are bounded by \<open>2 ^ 32\<close>
  creations, after which identifiers would repeat.

  \<^bold>\<open>tmpfs\<close> (\<open>tx-fs/src/tmpfs/mod.rs\<close>). \<open>Tmpfs\<close> has the inode table and every operation on it, with the
  sections of \<open>create_inode\<close> and \<open>symlink\<close> apart, and of the page containers of
  \<open>tx-subsystems/src/page_backed\<close> the sizes and their truncation. \<open>Tmpfs_Space\<close> abstracts the table to a
  namespace and specifies the operations on that; \<open>Tmpfs_Refine\<close> shows that each operation implements
  its specification, errors included; \<open>Tmpfs_Tree\<close> and \<open>Tmpfs_Runs\<close> that every sequence of calls keeps
  the namespace a tree with exact link counts; \<open>Tmpfs_Listing\<close> that reading a directory by cookies
  reports its entries, also while it changes. \<open>Tmpfs_Props\<close> has the properties. Runs have
  fewer than \<open>2 ^ 31\<close> calls: a call raises a link count by one at most, so no count saturates, and
  uses one object id and one cookie. The search of a subtree is bounded by the number of inodes
  and is shown to decide reachability. The permission checks are those of \<open>Cred_Checks\<close>.

  \<^bold>\<open>Terminals\<close> (\<open>tx-subsystems/src/tty\<close>). \<open>Tty_Ring\<close> is the byte ring of \<open>structure/ring.rs\<close>, with the
  locales \<open>byte_fifo\<close> and \<open>byte_fifo_bulk\<close> that the line discipline uses, interpreted on it; \<open>Tty_Ldisc\<close>
  has the settings, the input and output paths of \<open>ldisc\<close> and the reaction to changed settings.
  Shown: the ring is a bounded deque; canonical lines are delivered as edited, bytes are neither
  lost nor reordered by a commit, signals are reported exactly for the enabled characters, output
  is expanded as specified; and the newline that a full line buffer loses.

  \<^bold>\<open>How the parts interact.\<close> Credential checks decide the calls of IPC and tmpfs; the exit of a process
  undoes its semaphore adjustments; POSIX queues store messages in the System V payload; the
  other parts meet only in the system calls, which decode registers and copy user memory around
  the operations modelled here.

  \<^bold>\<open>Not modelled.\<close> The lock-free substrate (epochs, zones, wait sources and mailboxes), the reactor and
  the driver of steps: they are asynchronous code on ordered atomics, of which the modelled
  operations use only that a cap stays valid, that a section under a lock is one step, and which
  source is notified. Virtual memory, page tables, traps, drivers, boards and the vDSO depend on
  hardware state. The page cache and write-back, ext4 and FAT move pages by asynchronous requests
  to devices; of page containers only the size is modelled, and dropping cached pages is an
  argument of the truncation. System V shared memory, futexes, io_uring and userfaultfd work on
  user address spaces. The network layer is written around the external library smoltcp. The VFS
  walker and mounts work on published snapshots; the file systems below are called by object id,
  which is the interface modelled for tmpfs. Tracing and the build tools do not change the
  behaviour of the kernel.
\<close>

end
